(* ===== verification/Js_Prelude.thy ===== *)
theory Js_Prelude
  imports Complex_Main "HOL-Library.Word" "HOL-Library.Sublist"
begin

text \<open>
  What the components share: the JavaScript strings, numbers and results that the
  TypeScript sources compute with, as far as the sources use them.

  \<^item> A JavaScript string is a sequence of UTF-16 code units, here a list of 16-bit words;
    \<open>length\<close>, \<open>slice\<close> and the character classes of the sources' regular
    expressions (all without the \<open>u\<close> flag) work on code units. A literal of the source
    is \<open>js ''...''\<close> when it is ASCII and a list of code units otherwise.
  \<^item> A finite number is a rational. The operations the sources apply to counters (division
    by powers of two, \<open>toFixed\<close>) are exact on doubles; where a source divides by
    another number, the model has the exact quotient and not its rounding to a double.
  \<^item> \<open>toLowerCase\<close> and \<open>toUpperCase\<close> map the ASCII letters, and \<open>toLowerCase\<close> also the
    two code units outside ASCII whose lower case contains an ASCII letter (U+0130,
    U+212A); every other unit is kept. The sources compare the results with ASCII
    literals only, so no comparison is affected.
  \<^item> An exception is a value of the type \<open>exn\<close>, and a call that may throw returns
    \<open>exn + 'a\<close>.
\<close>

subsection \<open>Strings\<close>

type_synonym js_string = "16 word list"

definition js :: "string \<Rightarrow> js_string" where
  "js s = map of_char s"

definition toLowerCase_unit :: "16 word \<Rightarrow> js_string" where
  "toLowerCase_unit c =
     (if 0x41 \<le> c \<and> c \<le> 0x5A then [c + 0x20]
      else if c = 0x130 then [0x69, 0x307]
      else if c = 0x212A then [0x6B]
      else [c])"

definition toLowerCase :: "js_string \<Rightarrow> js_string" where
  "toLowerCase s = concat (map toLowerCase_unit s)"

definition toUpperCase :: "js_string \<Rightarrow> js_string" where
  "toUpperCase s = map (\<lambda>c. if 0x61 \<le> c \<and> c \<le> 0x7A then c - 0x20 else c) s"

text \<open>The case folding of a regular expression with the \<open>i\<close> flag and without \<open>u\<close>:
  a unit outside ASCII never matches an ASCII one.\<close>

definition fold_unit :: "16 word \<Rightarrow> 16 word" where
  "fold_unit c = (if 0x41 \<le> c \<and> c \<le> 0x5A then c + 0x20 else c)"

fun startsWith :: "js_string \<Rightarrow> js_string \<Rightarrow> bool" where
  "startsWith s [] = True"
| "startsWith [] (p # ps) = False"
| "startsWith (c # s) (p # ps) = (c = p \<and> startsWith s ps)"

fun js_includes :: "js_string \<Rightarrow> js_string \<Rightarrow> bool" where
  "js_includes [] p = (p = [])"
| "js_includes (c # s) p = (startsWith (c # s) p \<or> js_includes s p)"

text \<open>White space and line terminators of ECMAScript: what \<open>trim\<close> removes and what
  \<open>\s\<close> matches.\<close>

definition js_space :: "16 word \<Rightarrow> bool" where
  "js_space c \<longleftrightarrow>
     (0x9 \<le> c \<and> c \<le> 0xD) \<or> c = 0x20 \<or> c = 0xA0 \<or> c = 0x1680 \<or>
     (0x2000 \<le> c \<and> c \<le> 0x200A) \<or> c = 0x2028 \<or> c = 0x2029 \<or> c = 0x202F \<or>
     c = 0x205F \<or> c = 0x3000 \<or> c = 0xFEFF"

definition js_trim :: "js_string \<Rightarrow> js_string" where
  "js_trim s = rev (dropWhile js_space (rev (dropWhile js_space s)))"

fun js_split :: "16 word \<Rightarrow> js_string \<Rightarrow> js_string list" where
  "js_split sep [] = [[]]"
| "js_split sep (c # s) =
     (if c = sep then [] # js_split sep s
      else (case js_split sep s of [] \<Rightarrow> [[c]] | x # xs \<Rightarrow> (c # x) # xs))"

fun js_join :: "js_string \<Rightarrow> js_string list \<Rightarrow> js_string" where
  "js_join sep [] = []"
| "js_join sep [x] = x"
| "js_join sep (x # y # xs) = x @ sep @ js_join sep (y # xs)"

definition padStart :: "nat \<Rightarrow> 16 word \<Rightarrow> js_string \<Rightarrow> js_string" where
  "padStart n c s = replicate (n - length s) c @ s"

text \<open>The list without its element \<open>k\<close>.\<close>

definition remove_nth :: "nat \<Rightarrow> 'a list \<Rightarrow> 'a list" where
  "remove_nth k xs = take k xs @ drop (Suc k) xs"

text \<open>\<open>s.slice(-k)\<close>: the last \<open>k\<close> elements of a string or of an array.\<close>

definition slice_last :: "nat \<Rightarrow> 'a list \<Rightarrow> 'a list" where
  "slice_last k s = drop (length s - k) s"

text \<open>A string is truthy when it is not empty; an optional string is truthy when it is
  present and not empty. \<open>a || b\<close> on optional strings.\<close>

abbreviation truthy :: "js_string \<Rightarrow> bool" where
  "truthy s \<equiv> s \<noteq> []"

definition truthy_opt :: "js_string option \<Rightarrow> bool" where
  "truthy_opt v = (case v of None \<Rightarrow> False | Some s \<Rightarrow> truthy s)"

definition str_or :: "js_string option \<Rightarrow> js_string \<Rightarrow> js_string" where
  "str_or v d = (case v of None \<Rightarrow> d | Some s \<Rightarrow> if truthy s then s else d)"

subsection \<open>Numbers\<close>

datatype number = Fin rat | NaN | PosInf | NegInf

fun nat_text :: "nat \<Rightarrow> js_string" where
  "nat_text n = (if n < 10 then [0x30 + of_nat n] else nat_text (n div 10) @ [0x30 + of_nat (n mod 10)])"

declare nat_text.simps [simp del]

definition int_text :: "int \<Rightarrow> js_string" where
  "int_text i = (if i < 0 then 0x2D # nat_text (nat (- i)) else nat_text (nat i))"

text \<open>\<open>x.toFixed(f)\<close> for numbers below \<open>10 ^ 21\<close>: the integer \<open>n\<close> nearest to
  \<open>x * 10 ^ f\<close>, the larger one of two, written with \<open>f\<close> decimals.\<close>

definition fixed_units :: "rat \<Rightarrow> nat \<Rightarrow> nat" where
  "fixed_units x f = nat \<lfloor>x * 10 ^ f + 1 / 2\<rfloor>"

definition toFixed_nonneg :: "rat \<Rightarrow> nat \<Rightarrow> js_string" where
  "toFixed_nonneg x f =
     (let n = fixed_units x f in
      if f = 0 then nat_text n
      else nat_text (n div 10 ^ f) @ [0x2E] @ padStart f 0x30 (nat_text (n mod 10 ^ f)))"

definition toFixed :: "rat \<Rightarrow> nat \<Rightarrow> js_string" where
  "toFixed x f = (if x < 0 then 0x2D # toFixed_nonneg (- x) f else toFixed_nonneg x f)"

subsection \<open>Exceptions\<close>

text \<open>A thrown value is an \<open>ApiError\<close> of the API client (a status and a message), another
  instance of \<open>Error\<close> with its message, or a value that is not an \<open>Error\<close>.\<close>

datatype exn = ApiError int js_string | NativeError js_string | NonError js_string

type_synonym 'a result = "exn + 'a"

subsection \<open>Lemmas shared by the components\<close>

named_theorems js_simps \<open>evaluation of string operations\<close>

lemma unat16_less: "unat (c :: 16 word) < 65536"
  using unsigned_less [of c] by simp

lemma unat16_le: "unat (c :: 16 word) \<le> 65535"
  using unat16_less [of c] by linarith

lemma unat_of_char16: "unat (of_char c :: 16 word) = of_char c"
proof -
  have "(of_char c :: 16 word) = of_nat (of_char c)"
    by (simp add: of_nat_of_char)
  moreover have "(of_char c :: nat) < 2 ^ 16"
    by (rule less_trans [OF nat_of_char_less_256]) simp
  ultimately show ?thesis by (simp add: unat_of_nat)
qed

lemma of_char_inj16: "of_char c = (of_char d :: 16 word) \<longleftrightarrow> c = d"
  by (metis unat_of_char16 of_char_eq_iff)

lemma js_eq_iff [simp, js_simps]: "js s = js t \<longleftrightarrow> s = t"
proof (induction s arbitrary: t)
  case Nil
  then show ?case by (auto simp: js_def)
next
  case (Cons c s)
  then show ?case by (cases t) (auto simp: js_def of_char_inj16)
qed

lemma js_eq_Nil [simp, js_simps]: "js s = [] \<longleftrightarrow> s = []" "[] = js s \<longleftrightarrow> s = []"
  by (auto simp: js_def)

lemma js_append: "js (s @ t) = js s @ js t"
  by (simp add: js_def)

lemma js_ascii: "c \<in> set (js s) \<Longrightarrow> unat c < 256"
  by (auto simp: js_def unat_of_char16)

lemma startsWith_iff: "startsWith s p \<longleftrightarrow> (\<exists>t. s = p @ t)"
  by (induction s p rule: startsWith.induct) auto

lemma startsWith_prefix: "startsWith s p \<longleftrightarrow> prefix p s"
  by (auto simp: startsWith_iff prefix_def)

lemma js_includes_sublist: "js_includes s p \<longleftrightarrow> sublist p s"
  by (induction s) (auto simp: startsWith_prefix sublist_Cons_right)

lemma js_includes_iff: "js_includes s p \<longleftrightarrow> (\<exists>a b. s = a @ p @ b)"
  by (auto simp: js_includes_sublist sublist_def)

lemma js_includes_trans: "js_includes s p \<Longrightarrow> js_includes p q \<Longrightarrow> js_includes s q"
  using sublist_order.order_trans by (auto simp: js_includes_sublist)

lemma js_join_split: "js_join [sep] (js_split sep s) = s"
proof (induction s)
  case Nil
  then show ?case by simp
next
  case (Cons c s)
  have ne: "js_split sep s \<noteq> []"
    by (cases s) (auto split: list.splits)
  then obtain x xs where "js_split sep s = x # xs"
    by (cases "js_split sep s") auto
  with Cons show ?case by (cases xs) auto
qed

lemma js_split_ne [simp]: "js_split sep s \<noteq> []"
  by (cases s) (auto split: list.splits)

lemma js_split_plain: "sep \<notin> set x \<Longrightarrow> js_split sep x = [x]"
  by (induction x) auto

lemma js_split_first: "sep \<notin> set x \<Longrightarrow> js_split sep (x @ sep # s) = x # js_split sep s"
  by (induction x) auto

lemma js_split_join:
  "xs \<noteq> [] \<Longrightarrow> \<forall>x \<in> set xs. sep \<notin> set x \<Longrightarrow> js_split sep (js_join [sep] xs) = xs"
  by (induction "[sep]" xs rule: js_join.induct) (auto simp: js_split_plain js_split_first)

lemma js_split_no_sep: "x \<in> set (js_split sep s) \<Longrightarrow> sep \<notin> set x"
proof (induction s arbitrary: x)
  case (Cons c s)
  then show ?case
    by (cases "js_split sep s") (auto split: if_splits)
qed auto

lemma length_slice_last [simp]: "length (slice_last k s) = min k (length s)"
  by (simp add: slice_last_def)

lemma slice_last_all [simp]: "length s \<le> k \<Longrightarrow> slice_last k s = s"
  by (simp add: slice_last_def)

lemma truthy_opt_iff: "truthy_opt v \<longleftrightarrow> (\<exists>s. v = Some s \<and> s \<noteq> [])"
  by (cases v) (auto simp: truthy_opt_def)

lemma str_or_truthy [simp]: "str_or v d = [] \<longleftrightarrow> \<not> truthy_opt v \<and> d = []"
  by (cases v) (auto simp: str_or_def truthy_opt_def)

subsection \<open>Trimming\<close>

lemma dropWhile_idem: "dropWhile P (dropWhile P xs) = dropWhile P xs"
  by (induction xs) auto

lemma dropWhile_rev_hd:
  "xs \<noteq> [] \<Longrightarrow> \<not> P (hd xs) \<Longrightarrow> dropWhile P (rev (dropWhile P (rev xs))) = rev (dropWhile P (rev xs))"
proof -
  assume ne: "xs \<noteq> []" and hd: "\<not> P (hd xs)"
  then obtain x ys where xs: "xs = x # ys" by (cases xs) auto
  with hd have "dropWhile P (rev xs) = dropWhile P (rev ys) @ [x]"
    by (cases "\<forall>y \<in> set (rev ys). P y") (auto simp: dropWhile_append dropWhile_eq_Nil_conv)
  with hd xs show ?thesis by simp
qed

lemma js_trim_idem [simp]: "js_trim (js_trim s) = js_trim s"
proof (cases "dropWhile js_space s = []")
  case True
  then have "js_trim s = []" unfolding js_trim_def by (simp only: True) simp
  moreover have "js_trim [] = []" by (simp add: js_trim_def)
  ultimately show ?thesis by simp
next
  case False
  then have "\<not> js_space (hd (dropWhile js_space s))" by (rule hd_dropWhile)
  with False show ?thesis
    by (simp add: js_trim_def dropWhile_rev_hd dropWhile_idem)
qed

subsection \<open>Decimal texts\<close>

definition is_digit :: "16 word \<Rightarrow> bool" where
  "is_digit c \<longleftrightarrow> 0x30 \<le> c \<and> c \<le> 0x39"

definition digit_val :: "16 word \<Rightarrow> nat" where
  "digit_val c = unat (c - 0x30)"

fun digits_val :: "nat \<Rightarrow> js_string \<Rightarrow> nat" where
  "digits_val acc [] = acc"
| "digits_val acc (c # s) = digits_val (10 * acc + digit_val c) s"

lemma digits_val_append: "digits_val acc (s @ t) = digits_val (digits_val acc s) t"
  by (induction acc s rule: digits_val.induct) auto

lemma digit_unit: "n < 10 \<Longrightarrow> unat (0x30 + of_nat n :: 16 word) = 48 + n"
  by (simp add: unat_word_ariths unat_of_nat)

lemma is_digit_unit [simp]: "n < 10 \<Longrightarrow> is_digit (0x30 + of_nat n)"
  using digit_unit [of n] by (simp add: is_digit_def word_le_nat_alt)

lemma digit_val_unit [simp]: "n < 10 \<Longrightarrow> digit_val (0x30 + of_nat n) = n"
  by (simp add: digit_val_def unat_of_nat)

lemma nat_text_digits: "c \<in> set (nat_text n) \<Longrightarrow> is_digit c"
  by (induction n arbitrary: c rule: nat_text.induct)
    (subst (asm) nat_text.simps, auto split: if_splits)

lemma nat_text_ne [simp]: "nat_text n \<noteq> []"
  by (subst nat_text.simps) simp

lemma digits_val_nat_text: "digits_val 0 (nat_text n) = n"
proof (induction n rule: nat_text.induct)
  case (1 n)
  then show ?case
    by (cases "n < 10") (subst nat_text.simps; simp add: digits_val_append)+
qed

lemma nat_text_inj: "nat_text m = nat_text n \<Longrightarrow> m = n"
  by (metis digits_val_nat_text)

lemma nat_text_hd: "n \<noteq> 0 \<Longrightarrow> hd (nat_text n) \<noteq> 0x30"
proof (induction n rule: nat_text.induct)
  case (1 n)
  show ?case
  proof (cases "n < 10")
    case True
    then have "unat (0x30 + of_nat n :: 16 word) \<noteq> unat (0x30 :: 16 word)"
      using "1.prems" by (simp only: digit_unit) simp
    then have "0x30 + of_nat n \<noteq> (0x30 :: 16 word)" by metis
    with True show ?thesis by (subst nat_text.simps) simp
  next
    case False
    with "1" show ?thesis by (subst nat_text.simps) (simp add: hd_append)
  qed
qed

lemma set_remove_nth: "x \<in> set (remove_nth k xs) \<Longrightarrow> x \<in> set xs"
  by (auto simp: remove_nth_def dest: in_set_takeD in_set_dropD)

lemma length_nat_text_le: "n < 10 ^ k \<Longrightarrow> 0 < k \<Longrightarrow> length (nat_text n) \<le> k"
proof (induction k arbitrary: n)
  case (Suc k)
  show ?case
  proof (cases "n < 10")
    case True
    then show ?thesis by (subst nat_text.simps) simp
  next
    case False
    then have "k \<noteq> 0" using Suc.prems by (cases k) auto
    moreover have "n div 10 < 10 ^ k"
      using Suc.prems by (simp add: less_mult_imp_div_less mult.commute)
    ultimately have "length (nat_text (n div 10)) \<le> k" using Suc.IH by simp
    with False show ?thesis by (subst nat_text.simps) simp
  qed
qed simp

end
