(* ===== verification/Machines.thy ===== *)
theory Machines
  imports Js_Prelude
begin

text \<open>
  Contracts of machines that the components share. The user interfaces are step relations in
  which the user's actions and the answers to requests interleave.

  \<^item> \<open>single_flight\<close>: a guard flag that lets one request of a kind be under way at a time.
  \<^item> \<open>draining\<close>: the answers alone, without further actions, always come to an end.
  \<^item> \<open>settling\<close> extends it by what holds once no answer is outstanding, in the states a
    component can reach.
\<close>

locale single_flight =
  fixes step :: "'s \<Rightarrow> 's \<Rightarrow> bool"
    and busy :: "'s \<Rightarrow> bool"
    and outstanding :: "'s \<Rightarrow> nat"
  assumes guarded: "step s t \<Longrightarrow> outstanding s = of_bool (busy s) \<Longrightarrow>
      busy t = busy s \<and> outstanding t = outstanding s \<or>
      \<not> busy s \<and> busy t \<and> outstanding t = Suc (outstanding s) \<or>
      busy s \<and> \<not> busy t \<and> Suc (outstanding t) = outstanding s"
begin

lemma flag_is_exact_step: "step s t \<Longrightarrow> outstanding s = of_bool (busy s) \<Longrightarrow> outstanding t = of_bool (busy t)"
  using guarded [of s t] by auto

lemma flag_is_exact: "step\<^sup>*\<^sup>* s t \<Longrightarrow> outstanding s = of_bool (busy s) \<Longrightarrow> outstanding t = of_bool (busy t)"
  by (induction rule: rtranclp_induct) (auto simp: flag_is_exact_step)

end

locale draining =
  fixes answer :: "'s \<Rightarrow> 's \<Rightarrow> bool"
    and load :: "'s \<Rightarrow> nat"
  assumes answer_less: "answer s t \<Longrightarrow> load t < load s"
    and answer_some: "0 < load s \<Longrightarrow> \<exists>t. answer s t"
begin

lemma answers_terminate: "wfP (\<lambda>t s. answer s t)"
  by (rule wfp_if_convertible_to_nat [where f = load]) (rule answer_less)

lemma chain_bounded: "(answer ^^ n) s t \<Longrightarrow> n + load t \<le> load s"
proof (induction n arbitrary: t)
  case (Suc n)
  then obtain u where "(answer ^^ n) s u" "answer u t"
    by auto
  then show ?case
    using Suc.IH [of u] answer_less [of u t] by simp
qed simp

lemma drains: "\<exists>t. answer\<^sup>*\<^sup>* s t \<and> load t = 0"
proof (induction "load s" arbitrary: s rule: less_induct)
  case less
  show ?case
  proof (cases "load s = 0")
    case False
    then obtain u where u: "answer s u"
      using answer_some by auto
    with less [of u] answer_less show ?thesis
      by (meson converse_rtranclp_into_rtranclp)
  qed blast
qed

end

locale settling = draining answer load
  for answer :: "'s \<Rightarrow> 's \<Rightarrow> bool" and load :: "'s \<Rightarrow> nat" +
  fixes reachable :: "'s \<Rightarrow> bool"
    and quiet :: "'s \<Rightarrow> bool"
  assumes reachable_answer: "reachable s \<Longrightarrow> answer s t \<Longrightarrow> reachable t"
    and quiet_at_rest: "reachable s \<Longrightarrow> load s = 0 \<Longrightarrow> quiet s"
begin

lemma reachable_answers: "answer\<^sup>*\<^sup>* s t \<Longrightarrow> reachable s \<Longrightarrow> reachable t"
  by (induction rule: rtranclp_induct) (auto simp: reachable_answer)

lemma rests_quiet: "reachable s \<Longrightarrow> answer\<^sup>*\<^sup>* s t \<Longrightarrow> load t = 0 \<Longrightarrow> quiet t"
  by (auto simp: reachable_answers quiet_at_rest)

lemma settles: "reachable s \<Longrightarrow> \<exists>t. answer\<^sup>*\<^sup>* s t \<and> load t = 0 \<and> quiet t"
  using drains [of s] rests_quiet by blast

end

end
