(* ===== verification/Uri.thy ===== *)
theory Uri
  imports Js_Prelude
begin

text \<open>
  The two percent encodings the sources use: \<open>encodeURIComponent\<close> (path segments of
  \<open>api/client.ts\<close>, \<open>TunnelsPage.tsx\<close> and \<open>tunnelEndpoint.ts\<close>) and the serialisation of
  \<open>URLSearchParams\<close> (the log queries of \<open>api/client.ts\<close>), both over UTF-8.
  \<open>decodeURIComponent\<close> is not called by the sources; it is the reference against
  which the encoding is shown to lose nothing.
\<close>

subsection \<open>UTF-16 and UTF-8\<close>

definition is_high :: "16 word \<Rightarrow> bool" where
  "is_high c \<longleftrightarrow> 0xD800 \<le> c \<and> c \<le> 0xDBFF"

definition is_low :: "16 word \<Rightarrow> bool" where
  "is_low c \<longleftrightarrow> 0xDC00 \<le> c \<and> c \<le> 0xDFFF"

definition scalar_of_unit :: "16 word \<Rightarrow> nat option" where
  "scalar_of_unit c = (if is_high c \<or> is_low c then None else Some (unat c))"

text \<open>The code points of a string; \<open>None\<close> stands for a lone surrogate.\<close>

fun scalars :: "js_string \<Rightarrow> nat option list" where
  "scalars [] = []"
| "scalars [c] = [scalar_of_unit c]"
| "scalars (c # d # s) =
     (if is_high c \<and> is_low d
      then Some (0x10000 + (unat c - 0xD800) * 0x400 + (unat d - 0xDC00)) # scalars s
      else scalar_of_unit c # scalars (d # s))"

definition utf16 :: "nat \<Rightarrow> js_string" where
  "utf16 n = (if n < 0x10000 then [of_nat n]
     else [of_nat (0xD800 + (n - 0x10000) div 0x400), of_nat (0xDC00 + (n - 0x10000) mod 0x400)])"

definition utf8 :: "nat \<Rightarrow> nat list" where
  "utf8 n =
     (if n < 0x80 then [n]
      else if n < 0x800 then [0xC0 + n div 64, 0x80 + n mod 64]
      else if n < 0x10000 then [0xE0 + n div 4096, 0x80 + n div 64 mod 64, 0x80 + n mod 64]
      else [0xF0 + n div 262144, 0x80 + n div 4096 mod 64, 0x80 + n div 64 mod 64, 0x80 + n mod 64])"

subsection \<open>Percent encoding\<close>

definition hex_upper :: "nat \<Rightarrow> 16 word" where
  "hex_upper d = (if d < 10 then 0x30 + of_nat d else 0x37 + of_nat d)"

definition percent :: "nat \<Rightarrow> js_string" where
  "percent b = [0x25, hex_upper (b div 16), hex_upper (b mod 16)]"

definition alnum :: "nat \<Rightarrow> bool" where
  "alnum n \<longleftrightarrow> (0x30 \<le> n \<and> n \<le> 0x39) \<or> (0x41 \<le> n \<and> n \<le> 0x5A) \<or> (0x61 \<le> n \<and> n \<le> 0x7A)"

text \<open>The marks \<open>- _ . ! ~ * ' ( )\<close> stay as they are beside the alphanumeric characters.\<close>

definition uri_unreserved :: "nat \<Rightarrow> bool" where
  "uri_unreserved n \<longleftrightarrow> alnum n \<or> n \<in> {0x2D, 0x5F, 0x2E, 0x21, 0x7E, 0x2A, 0x27, 0x28, 0x29}"

definition encode_scalar :: "nat \<Rightarrow> js_string" where
  "encode_scalar n = (if uri_unreserved n then [of_nat n] else concat (map percent (utf8 n)))"

text \<open>\<open>None\<close> is the \<open>URIError\<close> that a lone surrogate raises.\<close>

definition encodeURIComponent :: "js_string \<Rightarrow> js_string option" where
  "encodeURIComponent s =
     (if None \<in> set (scalars s) then None
      else Some (concat (map (encode_scalar \<circ> the) (scalars s))))"

definition form_scalar :: "nat option \<Rightarrow> js_string" where
  "form_scalar v = (let n = (case v of None \<Rightarrow> 0xFFFD | Some n \<Rightarrow> n) in
     if n = 0x20 then [0x2B]
     else if alnum n \<or> n \<in> {0x2A, 0x2D, 0x2E, 0x5F} then [of_nat n]
     else concat (map percent (utf8 n)))"

definition form_encode :: "js_string \<Rightarrow> js_string" where
  "form_encode s = concat (map form_scalar (scalars s))"

text \<open>\<open>String(new URLSearchParams(...))\<close>\<close>

definition query_text :: "(js_string \<times> js_string) list \<Rightarrow> js_string" where
  "query_text ps = js_join [0x26] (map (\<lambda>(k, v). form_encode k @ [0x3D] @ form_encode v) ps)"

subsection \<open>Decoding\<close>

definition hex_val :: "16 word \<Rightarrow> nat option" where
  "hex_val c =
     (if 0x30 \<le> c \<and> c \<le> 0x39 then Some (unat c - 0x30)
      else if 0x41 \<le> c \<and> c \<le> 0x46 then Some (unat c - 0x37)
      else if 0x61 \<le> c \<and> c \<le> 0x66 then Some (unat c - 0x57)
      else None)"

fun read_percent :: "js_string \<Rightarrow> (nat \<times> js_string) option" where
  "read_percent (p # h # l # r) =
     (if p = 0x25 then
        (case (hex_val h, hex_val l) of (Some x, Some y) \<Rightarrow> Some (16 * x + y, r) | _ \<Rightarrow> None)
      else None)"
| "read_percent _ = None"

fun read_cont :: "nat \<Rightarrow> nat \<Rightarrow> js_string \<Rightarrow> (nat \<times> js_string) option" where
  "read_cont 0 acc s = Some (acc, s)"
| "read_cont (Suc k) acc s =
     (case read_percent s of
        Some (b, r) \<Rightarrow> if 0x80 \<le> b \<and> b < 0xC0 then read_cont k (64 * acc + (b - 0x80)) r else None
      | None \<Rightarrow> None)"

definition scalar_ok :: "nat \<Rightarrow> bool" where
  "scalar_ok n \<longleftrightarrow> n < 0x110000 \<and> \<not> (0xD800 \<le> n \<and> n < 0xE000)"

definition read_scalar :: "js_string \<Rightarrow> (nat \<times> js_string) option" where
  "read_scalar s =
     (case read_percent s of
        None \<Rightarrow> None
      | Some (b, r) \<Rightarrow>
          (if b < 0x80 then Some (b, r)
           else if 0xC0 \<le> b \<and> b < 0xE0 then
             (case read_cont 1 (b - 0xC0) r of
                Some (n, t) \<Rightarrow> if 0x80 \<le> n then Some (n, t) else None | None \<Rightarrow> None)
           else if 0xE0 \<le> b \<and> b < 0xF0 then
             (case read_cont 2 (b - 0xE0) r of
                Some (n, t) \<Rightarrow> if 0x800 \<le> n \<and> scalar_ok n then Some (n, t) else None | None \<Rightarrow> None)
           else if 0xF0 \<le> b \<and> b < 0xF8 then
             (case read_cont 3 (b - 0xF0) r of
                Some (n, t) \<Rightarrow> if 0x10000 \<le> n \<and> scalar_ok n then Some (n, t) else None | None \<Rightarrow> None)
           else None))"

fun decode_fuel :: "nat \<Rightarrow> js_string \<Rightarrow> js_string option" where
  "decode_fuel k [] = Some []"
| "decode_fuel 0 (c # s) = None"
| "decode_fuel (Suc k) (c # s) =
     (if c \<noteq> 0x25 then map_option ((#) c) (decode_fuel k s)
      else (case read_scalar (c # s) of
              None \<Rightarrow> None
            | Some (n, r) \<Rightarrow> map_option ((@) (utf16 n)) (decode_fuel k r)))"

text \<open>Every step of the loop reads at least one unit, so the length of the input is enough fuel.\<close>

definition decodeURIComponent :: "js_string \<Rightarrow> js_string option" where
  "decodeURIComponent s = decode_fuel (length s) s"

subsection \<open>The encoding is safe in a path\<close>

definition segment_unit :: "16 word \<Rightarrow> bool" where
  "segment_unit c \<longleftrightarrow> c = 0x25 \<or> uri_unreserved (unat c)"

lemma hex_upper_unit: "d < 16 \<Longrightarrow> alnum (unat (hex_upper d))"
proof -
  assume "d < 16"
  then have "d \<in> set [0..<16]" by simp
  moreover have "\<forall>d \<in> set [0..<16]. alnum (unat (hex_upper d))"
    by (simp add: upt_rec hex_upper_def alnum_def)
  ultimately show ?thesis by blast
qed

lemma hex_val_upper [simp]: "d < 16 \<Longrightarrow> hex_val (hex_upper d) = Some d"
proof -
  assume "d < 16"
  then have "d \<in> set [0..<16]" by simp
  moreover have "\<forall>d \<in> set [0..<16]. hex_val (hex_upper d) = Some d"
    by (simp add: upt_rec hex_upper_def hex_val_def)
  ultimately show ?thesis by blast
qed

lemma utf8_bytes: "n < 0x110000 \<Longrightarrow> b \<in> set (utf8 n) \<Longrightarrow> b < 256"
  by (auto simp: utf8_def split: if_splits)

lemma scalar_unit_bound: "Some n \<in> set (scalars s) \<Longrightarrow> n < 0x110000"
proof (induction s rule: scalars.induct)
  case (2 c)
  then show ?case
    using unat16_less [of c] by (auto simp: scalar_of_unit_def split: if_splits)
next
  case (3 c d s)
  show ?case
  proof (cases "is_high c \<and> is_low d")
    case True
    then have "unat c \<le> 0xDBFF" "unat d \<le> 0xDFFF"
      by (auto simp: is_high_def is_low_def word_le_nat_alt)
    with True 3 show ?thesis by auto
  next
    case False
    with 3 show ?thesis
      using unat16_less [of c] by (auto simp: scalar_of_unit_def split: if_splits)
  qed
qed simp

lemma percent_units: "b < 256 \<Longrightarrow> c \<in> set (percent b) \<Longrightarrow> segment_unit c"
  using hex_upper_unit [of "b div 16"] hex_upper_unit [of "b mod 16"]
  by (auto simp: percent_def segment_unit_def uri_unreserved_def less_mult_imp_div_less)

lemma encode_scalar_units: "n < 0x110000 \<Longrightarrow> c \<in> set (encode_scalar n) \<Longrightarrow> segment_unit c"
proof (cases "uri_unreserved n")
  case True
  then have "n < 2 ^ 16" by (auto simp: uri_unreserved_def alnum_def)
  moreover assume "c \<in> set (encode_scalar n)"
  ultimately show ?thesis using True
    by (simp add: encode_scalar_def segment_unit_def unat_of_nat)
next
  case False
  moreover assume "n < 0x110000" "c \<in> set (encode_scalar n)"
  ultimately show ?thesis by (auto simp: encode_scalar_def dest: utf8_bytes percent_units)
qed

lemma encodeURIComponent_units:
  assumes "encodeURIComponent s = Some e" and "c \<in> set e"
  shows "segment_unit c"
proof -
  from assms obtain v where v: "v \<in> set (scalars s)" "c \<in> set (encode_scalar (the v))"
    and "None \<notin> set (scalars s)"
    by (auto simp: encodeURIComponent_def split: if_splits)
  then obtain n where "v = Some n" by (metis option.exhaust)
  with v show ?thesis using scalar_unit_bound encode_scalar_units by auto
qed

lemma segment_unit_no_delim: "segment_unit c \<Longrightarrow> c \<notin> {0x2F, 0x3F, 0x23, 0x5C, 0x26, 0x3D}"
  by (auto simp: segment_unit_def uri_unreserved_def alnum_def)

subsection \<open>The encoding loses nothing\<close>

lemma read_percent_percent [simp]: "b < 256 \<Longrightarrow> read_percent (percent b @ r) = Some (b, r)"
  by (simp add: percent_def)

lemma read_cont_1 [simp]:
  "b < 64 \<Longrightarrow> read_cont 1 acc (percent (0x80 + b) @ r) = Some (64 * acc + b, r)"
  by (simp add: One_nat_def del: read_percent.simps)

lemma read_cont_2 [simp]:
  "b < 64 \<Longrightarrow> d < 64 \<Longrightarrow>
     read_cont 2 acc (percent (0x80 + b) @ percent (0x80 + d) @ r) = Some (64 * (64 * acc + b) + d, r)"
  by (simp add: numeral_2_eq_2)

lemma read_cont_3 [simp]:
  "b < 64 \<Longrightarrow> d < 64 \<Longrightarrow> e < 64 \<Longrightarrow>
     read_cont 3 acc (percent (0x80 + b) @ percent (0x80 + d) @ percent (0x80 + e) @ r) =
       Some (64 * (64 * (64 * acc + b) + d) + e, r)"
  by (simp add: numeral_3_eq_3)

lemma read_scalar_utf8:
  assumes "scalar_ok n"
  shows "read_scalar (concat (map percent (utf8 n)) @ r) = Some (n, r)"
proof -
  consider "n < 0x80" | "0x80 \<le> n" "n < 0x800" | "0x800 \<le> n" "n < 0x10000"
    | "0x10000 \<le> n" "n < 0x110000"
    using assms unfolding scalar_ok_def by linarith
  then show ?thesis
  proof cases
    case 1
    then show ?thesis by (simp add: utf8_def read_scalar_def)
  next
    case 2
    then have "64 * (n div 64) + n mod 64 = n" "n div 64 < 32" by auto
    with 2 show ?thesis by (simp add: utf8_def read_scalar_def)
  next
    case 3
    have "n div 4096 = n div 64 div 64" by (simp flip: div_mult2_eq)
    then have "64 * (64 * (n div 4096) + n div 64 mod 64) + n mod 64 = n" by simp
    then have sum: "4096 * (n div 4096) + 64 * (n div 64 mod 64) + n mod 64 = n" by simp
    have "n div 4096 < 16" using 3(2) by (simp add: less_mult_imp_div_less)
    with 3 assms show ?thesis
      unfolding utf8_def read_scalar_def by (simp add: sum)
  next
    case 4
    have "n div 4096 = n div 64 div 64" "n div 262144 = n div 64 div 64 div 64"
      by (simp_all flip: div_mult2_eq)
    then have "64 * (64 * (64 * (n div 262144) + n div 4096 mod 64) + n div 64 mod 64) + n mod 64 = n"
      by simp
    then have sum: "262144 * (n div 262144) + 4096 * (n div 4096 mod 64) + 64 * (n div 64 mod 64)
        + n mod 64 = n"
      by simp
    have "n div 262144 < 8" using 4(2) by (simp add: less_mult_imp_div_less)
    with 4 assms show ?thesis
      unfolding utf8_def read_scalar_def by (simp add: sum)
  qed
qed

lemma unit_of_unat [simp]: "of_nat (unat c) = (c :: 16 word)"
  by simp

lemma scalars_ok: "Some n \<in> set (scalars s) \<Longrightarrow> scalar_ok n"
proof (induction s rule: scalars.induct)
  case (2 c)
  then show ?case
    using unat16_less [of c]
    by (auto simp: scalar_of_unit_def scalar_ok_def is_high_def is_low_def word_le_nat_alt
        split: if_splits)
next
  case (3 c d s)
  show ?case
  proof (cases "is_high c \<and> is_low d")
    case True
    then have "unat c \<le> 0xDBFF" "unat d \<le> 0xDFFF"
      by (auto simp: is_high_def is_low_def word_le_nat_alt)
    with True 3 show ?thesis by (auto simp: scalar_ok_def)
  next
    case False
    with 3 show ?thesis
      using unat16_less [of c]
      by (auto simp: scalar_of_unit_def scalar_ok_def is_high_def is_low_def word_le_nat_alt
          split: if_splits)
  qed
qed simp

lemma utf16_pair:
  assumes "is_high c" and "is_low d"
  shows "utf16 (0x10000 + (unat c - 0xD800) * 0x400 + (unat d - 0xDC00)) = [c, d]"
proof -
  have c: "0xD800 \<le> unat c" "unat c \<le> 0xDBFF" and d: "0xDC00 \<le> unat d" "unat d \<le> 0xDFFF"
    using assms by (auto simp: is_high_def is_low_def word_le_nat_alt)
  let ?m = "(unat c - 0xD800) * 0x400 + (unat d - 0xDC00)"
  have "unat d - 0xDC00 < 0x400" using d by linarith
  then have "?m div 0x400 = unat c - 0xD800" "?m mod 0x400 = unat d - 0xDC00" by simp_all
  then have "utf16 (0x10000 + ?m) = [of_nat (unat c), of_nat (unat d)]"
    using c d by (simp add: utf16_def)
  then show ?thesis by (simp add: add.assoc)
qed

lemma utf16_unit: "scalar_of_unit c = Some n \<Longrightarrow> utf16 n = [c]"
  using unat16_less [of c] by (auto simp: scalar_of_unit_def utf16_def split: if_splits)

lemma utf16_scalars: "None \<notin> set (scalars s) \<Longrightarrow> concat (map (utf16 \<circ> the) (scalars s)) = s"
proof (induction s rule: scalars.induct)
  case (2 c)
  then show ?case by (cases "scalar_of_unit c") (auto simp: utf16_unit)
next
  case (3 c d s)
  then show ?case
    by (cases "is_high c \<and> is_low d"; cases "scalar_of_unit c") (auto simp: utf16_pair utf16_unit)
qed simp

lemma decode_fuel_encode:
  assumes "scalar_ok n"
  shows "decode_fuel (Suc k) (encode_scalar n @ r) = map_option ((@) (utf16 n)) (decode_fuel k r)"
proof (cases "uri_unreserved n")
  case True
  then have n: "n < 0x80" "n \<noteq> 0x25" by (auto simp: uri_unreserved_def alnum_def)
  then have "unat (of_nat n :: 16 word) \<noteq> unat (0x25 :: 16 word)"
    by (simp add: unat_of_nat)
  then have "of_nat n \<noteq> (0x25 :: 16 word)" by metis
  moreover have "(#) c = (@) [c]" for c :: "16 word" by (rule ext) simp
  ultimately show ?thesis using True n by (simp add: encode_scalar_def utf16_def)
next
  case False
  then have e: "encode_scalar n = concat (map percent (utf8 n))" by (simp add: encode_scalar_def)
  have "\<exists>t. concat (map percent (utf8 n)) = 0x25 # t"
    by (auto simp: utf8_def percent_def)
  then obtain t where t: "encode_scalar n = 0x25 # t" using e by auto
  have "read_scalar (0x25 # t @ r) = Some (n, r)"
    using read_scalar_utf8 [OF assms, of r] unfolding e [symmetric] t by simp
  with t show ?thesis by simp
qed

lemma encode_scalar_ne: "encode_scalar n \<noteq> []"
  by (simp add: encode_scalar_def utf8_def percent_def)

lemma decode_fuel_all:
  "\<forall>n \<in> set ns. scalar_ok n \<Longrightarrow> length ns \<le> k \<Longrightarrow>
     decode_fuel k (concat (map encode_scalar ns)) = Some (concat (map utf16 ns))"
proof (induction ns arbitrary: k)
  case Nil
  then show ?case by simp
next
  case (Cons n ns)
  then obtain j where "k = Suc j" by (cases k) auto
  with Cons show ?case by (simp add: decode_fuel_encode)
qed

lemma length_encode: "length ns \<le> length (concat (map encode_scalar ns))"
proof (induction ns)
  case (Cons n ns)
  then show ?case using encode_scalar_ne [of n] by (cases "encode_scalar n") auto
qed simp

lemma decode_encode:
  assumes "encodeURIComponent s = Some e"
  shows "decodeURIComponent e = Some s"
proof -
  define ns where "ns = map the (scalars s)"
  from assms have none: "None \<notin> set (scalars s)" and e: "e = concat (map encode_scalar ns)"
    by (auto simp: encodeURIComponent_def ns_def split: if_splits)
  have "\<forall>n \<in> set ns. scalar_ok n"
    unfolding ns_def using none by (auto intro: scalars_ok) (metis option.collapse scalars_ok)
  then have "decodeURIComponent e = Some (concat (map utf16 ns))"
    unfolding decodeURIComponent_def e using length_encode decode_fuel_all by blast
  also have "concat (map utf16 ns) = s"
    using utf16_scalars [OF none] by (simp add: ns_def)
  finally show ?thesis .
qed

lemma encodeURIComponent_inj:
  "encodeURIComponent s = Some e \<Longrightarrow> encodeURIComponent t = Some e \<Longrightarrow> s = t"
  by (metis decode_encode option.inject)

end
