(* ===== verification/Json.thy ===== *)
theory Json
  imports Uri
begin

text \<open>
  \<open>JSON.stringify\<close> and \<open>JSON.parse\<close> of ECMAScript on code units, as the session store and
  the API client use them. The parser is a recursive descent with fuel;
  \<open>parse_value_fuel\<close> shows that the fuel \<open>JSON_parse\<close> starts with is always enough, and
  \<open>JSON_parse_stringify\<close> that parsing undoes printing on every value whose numbers are
  integers and whose objects have distinct keys. Numbers are exact rationals; a number
  that is not an integer is printed with its decimals (at most 20), without an exponent.
\<close>

subsection \<open>Values\<close>

datatype json =
    JNull
  | JBool bool
  | JNum rat
  | JStr js_string
  | JArr "json list"
  | JObj "(js_string \<times> json) list"

fun obj_set :: "js_string \<Rightarrow> 'v \<Rightarrow> (js_string \<times> 'v) list \<Rightarrow> (js_string \<times> 'v) list" where
  "obj_set k v [] = [(k, v)]"
| "obj_set k v ((k', v') # ms) = (if k = k' then (k, v) # ms else (k', v') # obj_set k v ms)"

text \<open>A later member with the same key replaces the value of an earlier one.\<close>

definition object_of :: "(js_string \<times> 'v) list \<Rightarrow> (js_string \<times> 'v) list" where
  "object_of ms = foldl (\<lambda>o' (k, v). obj_set k v o') [] ms"

subsection \<open>Printing\<close>

definition hex_lower :: "nat \<Rightarrow> 16 word" where
  "hex_lower d = (if d < 10 then 0x30 + of_nat d else 0x57 + of_nat d)"

definition hex4 :: "16 word \<Rightarrow> js_string" where
  "hex4 c = (let n = unat c in
     [hex_lower (n div 4096), hex_lower (n div 256 mod 16), hex_lower (n div 16 mod 16), hex_lower (n mod 16)])"

definition quote_unit :: "16 word \<Rightarrow> js_string" where
  "quote_unit c =
     (if c = 0x22 then [0x5C, 0x22] else if c = 0x5C then [0x5C, 0x5C]
      else if c = 0x8 then [0x5C, 0x62] else if c = 0x9 then [0x5C, 0x74]
      else if c = 0xA then [0x5C, 0x6E] else if c = 0xC then [0x5C, 0x66]
      else if c = 0xD then [0x5C, 0x72]
      else if c < 0x20 \<or> is_high c \<or> is_low c then [0x5C, 0x75] @ hex4 c
      else [c])"

fun quote_units :: "js_string \<Rightarrow> js_string" where
  "quote_units [] = []"
| "quote_units [c] = quote_unit c"
| "quote_units (c # d # s) =
     (if is_high c \<and> is_low d then c # d # quote_units s
      else quote_unit c @ quote_units (d # s))"

definition quote :: "js_string \<Rightarrow> js_string" where
  "quote s = [0x22] @ quote_units s @ [0x22]"

definition strip_zeros :: "js_string \<Rightarrow> js_string" where
  "strip_zeros s = rev (dropWhile (\<lambda>c. c = 0x30) (rev s))"

definition number_text :: "rat \<Rightarrow> js_string" where
  "number_text x = (if x = of_int \<lfloor>x\<rfloor> then int_text \<lfloor>x\<rfloor> else strip_zeros (toFixed x 20))"

fun stringify :: "json \<Rightarrow> js_string"
  and stringify_elems :: "json list \<Rightarrow> js_string"
  and stringify_members :: "(js_string \<times> json) list \<Rightarrow> js_string" where
  "stringify JNull = js ''null''"
| "stringify (JBool b) = (if b then js ''true'' else js ''false'')"
| "stringify (JNum x) = number_text x"
| "stringify (JStr s) = quote s"
| "stringify (JArr vs) = 0x5B # stringify_elems vs @ [0x5D]"
| "stringify (JObj ms) = 0x7B # stringify_members ms @ [0x7D]"
| "stringify_elems [] = []"
| "stringify_elems (v # vs) = stringify v @ (if vs = [] then [] else 0x2C # stringify_elems vs)"
| "stringify_members [] = []"
| "stringify_members ((k, v) # ms) =
     quote k @ 0x3A # stringify v @ (if ms = [] then [] else 0x2C # stringify_members ms)"

subsection \<open>Parsing\<close>

definition json_ws :: "16 word \<Rightarrow> bool" where
  "json_ws c \<longleftrightarrow> c = 0x20 \<or> c = 0x9 \<or> c = 0xA \<or> c = 0xD"

definition skip_ws :: "js_string \<Rightarrow> js_string" where
  "skip_ws s = dropWhile json_ws s"

definition escape_unit :: "16 word \<Rightarrow> 16 word option" where
  "escape_unit e =
     (if e = 0x22 then Some 0x22 else if e = 0x5C then Some 0x5C else if e = 0x2F then Some 0x2F
      else if e = 0x62 then Some 0x8 else if e = 0x74 then Some 0x9 else if e = 0x6E then Some 0xA
      else if e = 0x66 then Some 0xC else if e = 0x72 then Some 0xD else None)"

definition read_hex4 :: "16 word \<Rightarrow> 16 word \<Rightarrow> 16 word \<Rightarrow> 16 word \<Rightarrow> 16 word option" where
  "read_hex4 a b c d =
     (case (hex_val a, hex_val b, hex_val c, hex_val d) of
        (Some w, Some x, Some y, Some z) \<Rightarrow> Some (of_nat (4096 * w + 256 * x + 16 * y + z))
      | _ \<Rightarrow> None)"

text \<open>The rest of a string literal after its opening quotation mark.\<close>

fun parse_chars :: "js_string \<Rightarrow> (js_string \<times> js_string) option" where
  "parse_chars [] = None"
| "parse_chars (c # s) =
     (if c = 0x22 then Some ([], s)
      else if c = 0x5C then
        (case s of
           [] \<Rightarrow> None
         | e # r \<Rightarrow>
             (if e = 0x75 then
                (case r of
                   h1 # h2 # h3 # h4 # t \<Rightarrow>
                     (case read_hex4 h1 h2 h3 h4 of
                        None \<Rightarrow> None
                      | Some u \<Rightarrow> map_option (apfst ((#) u)) (parse_chars t))
                 | _ \<Rightarrow> None)
              else
                (case escape_unit e of
                   None \<Rightarrow> None
                 | Some u \<Rightarrow> map_option (apfst ((#) u)) (parse_chars r))))
      else if c < 0x20 then None
      else map_option (apfst ((#) c)) (parse_chars s))"

definition read_digits :: "js_string \<Rightarrow> (js_string \<times> js_string) option" where
  "read_digits s = (let ds = takeWhile is_digit s in
     if ds = [] then None else Some (ds, dropWhile is_digit s))"

definition read_frac :: "js_string \<Rightarrow> (rat \<times> js_string) option" where
  "read_frac s = (case s of
     c # r \<Rightarrow>
       (if c = 0x2E then
          (case read_digits r of
             None \<Rightarrow> None
           | Some (ds, t) \<Rightarrow> Some (of_nat (digits_val 0 ds) / 10 ^ length ds, t))
        else Some (0, s))
   | [] \<Rightarrow> Some (0, s))"

definition read_exp :: "js_string \<Rightarrow> (rat \<times> js_string) option" where
  "read_exp s = (case s of
     c # r \<Rightarrow>
       (if c = 0x65 \<or> c = 0x45 then
          (let neg = (r \<noteq> [] \<and> hd r = 0x2D);
               r' = (if r \<noteq> [] \<and> (hd r = 0x2D \<or> hd r = 0x2B) then tl r else r) in
           case read_digits r' of
             None \<Rightarrow> None
           | Some (ds, t) \<Rightarrow>
               Some (if neg then 1 / 10 ^ digits_val 0 ds else 10 ^ digits_val 0 ds, t))
        else Some (1, s))
   | [] \<Rightarrow> Some (1, s))"

definition parse_number :: "js_string \<Rightarrow> (rat \<times> js_string) option" where
  "parse_number s =
     (let neg = (s \<noteq> [] \<and> hd s = 0x2D); s1 = (if neg then tl s else s) in
      case read_digits s1 of
        None \<Rightarrow> None
      | Some (ds, s2) \<Rightarrow>
          (if hd ds = 0x30 \<and> length ds \<noteq> 1 then None
           else case read_frac s2 of
             None \<Rightarrow> None
           | Some (f, s3) \<Rightarrow>
               (case read_exp s3 of
                  None \<Rightarrow> None
                | Some (e, s4) \<Rightarrow>
                    Some ((if neg then -1 else 1) * (of_nat (digits_val 0 ds) + f) * e, s4))))"

text \<open>The key of a member with the colon after it.\<close>

definition read_key :: "js_string \<Rightarrow> (js_string \<times> js_string) option" where
  "read_key s =
     (case skip_ws s of
        [] \<Rightarrow> None
      | q # r \<Rightarrow>
          (if q \<noteq> 0x22 then None
           else case parse_chars r of
             None \<Rightarrow> None
           | Some (key, t) \<Rightarrow>
               (case skip_ws t of
                  [] \<Rightarrow> None
                | d # u \<Rightarrow> if d = 0x3A then Some (key, u) else None)))"

fun parse_value :: "nat \<Rightarrow> js_string \<Rightarrow> (json \<times> js_string) option"
  and parse_elems :: "nat \<Rightarrow> js_string \<Rightarrow> (json list \<times> js_string) option"
  and parse_members :: "nat \<Rightarrow> js_string \<Rightarrow> ((js_string \<times> json) list \<times> js_string) option" where
  "parse_value 0 s = None"
| "parse_value (Suc k) s =
     (case skip_ws s of
        [] \<Rightarrow> None
      | c # r \<Rightarrow>
          (if c = 0x22 then map_option (apfst JStr) (parse_chars r)
           else if c = 0x5B then
             (case skip_ws r of
                [] \<Rightarrow> None
              | d # t \<Rightarrow> if d = 0x5D then Some (JArr [], t)
                          else map_option (apfst JArr) (parse_elems k r))
           else if c = 0x7B then
             (case skip_ws r of
                [] \<Rightarrow> None
              | d # t \<Rightarrow> if d = 0x7D then Some (JObj [], t)
                          else map_option (apfst (JObj \<circ> object_of)) (parse_members k r))
           else if startsWith (c # r) (js ''null'') then Some (JNull, drop 4 (c # r))
           else if startsWith (c # r) (js ''true'') then Some (JBool True, drop 4 (c # r))
           else if startsWith (c # r) (js ''false'') then Some (JBool False, drop 5 (c # r))
           else map_option (apfst JNum) (parse_number (c # r))))"
| "parse_elems 0 s = None"
| "parse_elems (Suc k) s =
     (case parse_value k s of
        None \<Rightarrow> None
      | Some (v, t) \<Rightarrow>
          (case skip_ws t of
             [] \<Rightarrow> None
           | d # u \<Rightarrow>
               (if d = 0x2C then map_option (apfst ((#) v)) (parse_elems k u)
                else if d = 0x5D then Some ([v], u) else None)))"
| "parse_members 0 s = None"
| "parse_members (Suc k) s =
     (case read_key s of
        None \<Rightarrow> None
      | Some (key, u) \<Rightarrow>
          (case parse_value k u of
             None \<Rightarrow> None
           | Some (v, w) \<Rightarrow>
               (case skip_ws w of
                  [] \<Rightarrow> None
                | e # x \<Rightarrow>
                    (if e = 0x2C then map_option (apfst ((#) (key, v))) (parse_members k x)
                     else if e = 0x7D then Some ([(key, v)], x) else None))))"

text \<open>\<open>None\<close> is the \<open>SyntaxError\<close> that \<open>JSON.parse\<close> throws.\<close>

definition JSON_parse :: "js_string \<Rightarrow> json option" where
  "JSON_parse s =
     (case parse_value (2 * length s + 2) s of
        None \<Rightarrow> None
      | Some (v, t) \<Rightarrow> if skip_ws t = [] then Some v else None)"

text \<open>\<open>String(v)\<close> of a parsed value.\<close>

fun json_String :: "json \<Rightarrow> js_string" and json_elems_String :: "json list \<Rightarrow> js_string list" where
  "json_String JNull = js ''null''"
| "json_String (JBool b) = (if b then js ''true'' else js ''false'')"
| "json_String (JNum x) = number_text x"
| "json_String (JStr s) = s"
| "json_String (JArr vs) = js_join [0x2C] (json_elems_String vs)"
| "json_String (JObj ms) = js ''[object Object]''"
| "json_elems_String [] = []"
| "json_elems_String (v # vs) = (if v = JNull then [] else json_String v) # json_elems_String vs"

text \<open>\<open>Boolean(v)\<close> of a parsed value.\<close>

definition json_truthy :: "json \<Rightarrow> bool" where
  "json_truthy v = (case v of
     JNull \<Rightarrow> False | JBool b \<Rightarrow> b | JNum x \<Rightarrow> x \<noteq> 0 | JStr s \<Rightarrow> truthy s | JArr _ \<Rightarrow> True | JObj _ \<Rightarrow> True)"

subsection \<open>Every parser consumes input\<close>

lemma length_skip_ws: "length (skip_ws s) \<le> length s"
  by (simp add: skip_ws_def length_dropWhile_le)

lemma parse_chars_less: "parse_chars s = Some (x, t) \<Longrightarrow> length t < length s"
proof (induction s arbitrary: x t rule: parse_chars.induct)
  case (2 c s)
  then show ?case
    by (auto split: if_splits list.splits option.splits)
      (fastforce dest: less_SucI)+
qed simp

lemma read_digits_less: "read_digits s = Some (ds, t) \<Longrightarrow> length t < length s"
proof -
  assume "read_digits s = Some (ds, t)"
  then have "takeWhile is_digit s \<noteq> []" "t = dropWhile is_digit s"
    by (auto simp: read_digits_def Let_def split: if_splits)
  moreover have "length s = length (takeWhile is_digit s) + length (dropWhile is_digit s)"
    by (metis length_append takeWhile_dropWhile_id)
  ultimately show ?thesis by simp
qed

lemma read_frac_le: "read_frac s = Some (f, t) \<Longrightarrow> length t \<le> length s"
  by (auto simp: read_frac_def split: list.splits if_splits option.splits dest: read_digits_less)

lemma read_exp_le: "read_exp s = Some (f, t) \<Longrightarrow> length t \<le> length s"
  by (auto simp: read_exp_def Let_def split: list.splits if_splits option.splits
      dest!: read_digits_less)

lemma parse_number_less: "parse_number s = Some (x, t) \<Longrightarrow> length t < length s"
  by (fastforce simp: parse_number_def Let_def split: if_splits option.splits
      dest!: read_digits_less read_frac_le read_exp_le)

lemma skip_ws_Cons_less: "skip_ws s = c # r \<Longrightarrow> length r < length s"
  using length_skip_ws [of s] by simp

lemma read_key_less: "read_key s = Some (key, u) \<Longrightarrow> length u < length s"
  by (fastforce simp: read_key_def split: list.splits if_splits option.splits
      dest: parse_chars_less skip_ws_Cons_less)

lemma parse_consumes:
  shows parse_value_less: "parse_value k s = Some (v, t) \<Longrightarrow> length t < length s"
    and parse_elems_less: "parse_elems k s = Some (vs, t) \<Longrightarrow> length t < length s"
    and parse_members_less: "parse_members k s = Some (ms, t) \<Longrightarrow> length t < length s"
proof (induction k s and k s and k s arbitrary: v t and vs t and ms t
    rule: parse_value_parse_elems_parse_members.induct)
  case (2 k s)
  then show ?case
    by (fastforce split: list.splits if_splits
        dest: parse_chars_less parse_number_less skip_ws_Cons_less)
next
  case (4 k s)
  then show ?case
    by (fastforce split: list.splits if_splits option.splits dest: skip_ws_Cons_less)
next
  case (6 k s)
  then show ?case
    by (fastforce split: list.splits if_splits option.splits
        dest: read_key_less skip_ws_Cons_less)
qed simp_all

text \<open>More fuel than the input needs never changes a result, so no input is refused for lack
  of fuel.\<close>

lemma parse_fuel_step:
  shows parse_value_Suc: "2 * length s + 1 \<le> k \<Longrightarrow> parse_value (Suc k) s = parse_value k s"
    and parse_elems_Suc: "2 * length s + 2 \<le> k \<Longrightarrow> parse_elems (Suc k) s = parse_elems k s"
    and parse_members_Suc: "2 * length s + 2 \<le> k \<Longrightarrow> parse_members (Suc k) s = parse_members k s"
proof (induction k s and k s and k s rule: parse_value_parse_elems_parse_members.induct)
  case (2 k s)
  show ?case
  proof (cases "skip_ws s")
    case (Cons c r)
    then have "length r < length s" by (rule skip_ws_Cons_less)
    with 2(3) have "2 * length r + 2 \<le> k" by simp
    with 2 Cons show ?thesis
      by (simp del: startsWith.simps split: list.splits)
  qed simp
next
  case (4 k s)
  then have k: "2 * length s + 1 \<le> k" by simp
  with 4 have v: "parse_value (Suc k) s = parse_value k s" by simp
  show ?case
  proof (cases "parse_value k s")
    case (Some vt)
    obtain v t where vt: "vt = (v, t)" by fastforce
    show ?thesis
    proof (cases "skip_ws t")
      case Cons: (Cons d u)
      have "length t < length s" using Some vt parse_value_less by blast
      with Cons have "length u + 1 < length s" using skip_ws_Cons_less by fastforce
      with 4(3) have "2 * length u + 2 \<le> k" by simp
      then have "d = 0x2C \<Longrightarrow> parse_elems (Suc k) u = parse_elems k u"
        using 4(2) [OF Some vt [symmetric] Cons] by blast
      with Some vt Cons v show ?thesis
        by (simp only: parse_elems.simps v) (simp del: parse_value.simps parse_elems.simps)
    qed (use Some vt v in \<open>simp del: parse_value.simps\<close>)
  qed (use v in \<open>simp del: parse_value.simps\<close>)
next
  case (6 k s)
  show ?case
  proof (cases "read_key s")
    case (Some ku)
    obtain key u where ku: "ku = (key, u)" by fastforce
    with Some have u: "length u < length s" using read_key_less by blast
    with 6(3) have "2 * length u + 1 \<le> k" by simp
    then have v: "parse_value (Suc k) u = parse_value k u"
      using 6(1) [OF Some ku [symmetric]] by simp
    show ?thesis
    proof (cases "parse_value k u")
      case pv: (Some vw)
      obtain v' w where vw: "vw = (v', w)" by fastforce
      show ?thesis
      proof (cases "skip_ws w")
        case Cons: (Cons e x)
        have "length x < length s"
          using parse_value_less pv vw skip_ws_Cons_less [OF Cons] u by fastforce
        with 6(3) have "2 * length x + 2 \<le> k" by simp
        then have "e = 0x2C \<Longrightarrow> parse_members (Suc k) x = parse_members k x"
          using 6(2) [OF Some ku [symmetric] pv vw [symmetric] Cons] by blast
        with Some ku pv vw Cons show ?thesis
          by (simp del: parse_value.simps parse_members.simps
              add: v parse_members.simps(2) [of "Suc k" s] parse_members.simps(2) [of k s])
      qed (use Some ku pv vw v in \<open>simp del: parse_value.simps\<close>)
    qed (use Some ku v in \<open>simp del: parse_value.simps\<close>)
  qed simp
qed simp_all

lemma parse_value_fuel:
  assumes "2 * length s + 1 \<le> k"
  shows "parse_value k s = parse_value (2 * length s + 1) s"
  using assms
proof (induction k rule: dec_induct)
  case (step n)
  then show ?case using parse_value_Suc [of s n] by simp
qed simp

subsection \<open>Parsing undoes printing\<close>

lemma hex_lower_val [simp]: "d < 16 \<Longrightarrow> hex_val (hex_lower d) = Some d"
proof -
  assume "d < 16"
  then have "d \<in> set [0..<16]" by simp
  moreover have "\<forall>d \<in> set [0..<16]. hex_val (hex_lower d) = Some d"
    by (simp add: upt_rec hex_lower_def hex_val_def)
  ultimately show ?thesis by blast
qed

lemma read_hex4_hex4:
  "hex4 c = [h1, h2, h3, h4] \<Longrightarrow> read_hex4 h1 h2 h3 h4 = Some c"
proof -
  assume "hex4 c = [h1, h2, h3, h4]"
  moreover have "unat c div 4096 < 16" using unat16_less [of c] by (simp add: less_mult_imp_div_less)
  moreover have "4096 * (unat c div 4096) + 256 * (unat c div 256 mod 16) + 16 * (unat c div 16 mod 16)
      + unat c mod 16 = unat c"
  proof -
    have "unat c div 256 = unat c div 16 div 16" "unat c div 4096 = unat c div 16 div 16 div 16"
      by (simp_all flip: div_mult2_eq)
    then have "16 * (16 * (16 * (unat c div 4096) + unat c div 256 mod 16) + unat c div 16 mod 16)
        + unat c mod 16 = unat c" by simp
    then show ?thesis by simp
  qed
  ultimately show ?thesis by (auto simp: hex4_def Let_def read_hex4_def)
qed

lemma parse_chars_quote_unit:
  "parse_chars (quote_unit c @ r) = map_option (apfst ((#) c)) (parse_chars r)"
proof -
  obtain h1 h2 h3 h4 where h: "hex4 c = [h1, h2, h3, h4]" by (simp add: hex4_def Let_def)
  then have "read_hex4 h1 h2 h3 h4 = Some c" by (rule read_hex4_hex4)
  with h show ?thesis by (simp add: quote_unit_def escape_unit_def)
qed

lemma surrogate_plain: "is_high c \<or> is_low c \<Longrightarrow> c \<noteq> 0x22 \<and> c \<noteq> 0x5C \<and> \<not> c < 0x20"
  by (auto simp: is_high_def is_low_def word_less_nat_alt word_le_nat_alt)

lemma parse_chars_quote_units:
  "parse_chars (quote_units s @ r) = map_option (apfst ((@) s)) (parse_chars r)"
proof (induction s rule: quote_units.induct)
  case 1
  show ?case by (cases "parse_chars r") (auto simp: apfst_def map_prod_def)
next
  case (2 c)
  show ?case by (cases "parse_chars r") (auto simp: parse_chars_quote_unit)
next
  case (3 c d s)
  then show ?case
    using surrogate_plain [of c] surrogate_plain [of d]
    by (cases "is_high c \<and> is_low d"; cases "parse_chars r") (auto simp: parse_chars_quote_unit)
qed

lemma parse_chars_quote [simp]: "parse_chars (quote_units s @ 0x22 # r) = Some (s, r)"
  by (simp add: parse_chars_quote_units)

definition number_stop :: "js_string \<Rightarrow> bool" where
  "number_stop r \<longleftrightarrow> (case r of [] \<Rightarrow> True | c # _ \<Rightarrow> \<not> is_digit c \<and> c \<notin> {0x2E, 0x65, 0x45})"

lemma read_digits_nat_text:
  assumes "number_stop r"
  shows "read_digits (nat_text n @ r) = Some (nat_text n, r)"
proof -
  have "takeWhile is_digit (nat_text n @ r) = nat_text n \<and> dropWhile is_digit (nat_text n @ r) = r"
    using nat_text_digits assms by (cases r) (auto simp: number_stop_def)
  then show ?thesis by (simp add: read_digits_def)
qed

lemma nat_text_leading: "hd (nat_text n) = 0x30 \<Longrightarrow> length (nat_text n) = 1"
  using nat_text_hd [of n] by (cases "n = 0") (auto simp: nat_text.simps)

lemma nat_text_not_minus: "nat_text n @ r \<noteq> [] \<and> hd (nat_text n @ r) \<noteq> 0x2D"
  using nat_text_digits [of "hd (nat_text n)" n]
  by (auto simp: is_digit_def hd_append)

lemma parse_number_int_text:
  assumes "number_stop r"
  shows "parse_number (int_text i @ r) = Some (of_int i, r)"
proof -
  have f: "read_frac r = Some (0, r)" and e: "read_exp r = Some (1, r)"
    using assms by (auto simp: read_frac_def read_exp_def number_stop_def split: list.splits)
  show ?thesis
  proof (cases "i < 0")
    case True
    then show ?thesis
      using nat_text_leading [of "nat (- i)"]
      by (simp add: parse_number_def int_text_def read_digits_nat_text assms f e digits_val_nat_text)
  next
    case False
    then show ?thesis
      using nat_text_leading [of "nat i"] nat_text_not_minus [of "nat i" r]
      by (simp add: parse_number_def int_text_def read_digits_nat_text assms f e digits_val_nat_text)
  qed
qed

fun json_ok :: "json \<Rightarrow> bool" where
  "json_ok (JNum x) = (x = of_int \<lfloor>x\<rfloor>)"
| "json_ok (JArr vs) = (\<forall>v \<in> set vs. json_ok v)"
| "json_ok (JObj ms) = (distinct (map fst ms) \<and> (\<forall>m \<in> set ms. json_ok (snd m)))"
| "json_ok _ = True"

lemma obj_set_fresh: "k \<notin> fst ` set ms \<Longrightarrow> obj_set k v ms = ms @ [(k, v)]"
  by (induction k v ms rule: obj_set.induct) auto

lemma keys_obj_set: "fst ` set (obj_set k v ms) = insert k (fst ` set ms)"
  by (induction k v ms rule: obj_set.induct) auto

lemma distinct_obj_set: "distinct (map fst ms) \<Longrightarrow> distinct (map fst (obj_set k v ms))"
proof (induction k v ms rule: obj_set.induct)
  case (2 k v k' v' ms)
  then show ?case
    using keys_obj_set [of k v ms] by auto
qed simp

lemma length_obj_set: "length (obj_set k v ms) = (if k \<in> fst ` set ms then length ms else Suc (length ms))"
  by (induction k v ms rule: obj_set.induct) auto

lemma set_obj_set: "e \<in> set (obj_set k v ms) \<Longrightarrow> e = (k, v) \<or> e \<in> set ms"
  by (induction k v ms rule: obj_set.induct) (auto split: if_splits)

lemma map_of_obj_set: "map_of (obj_set k v ms) i = (if i = k then Some v else map_of ms i)"
  by (induction k v ms rule: obj_set.induct) auto

lemma object_of_acc:
  "distinct (map fst (acc @ ms)) \<Longrightarrow> foldl (\<lambda>o' (k, v). obj_set k v o') acc ms = acc @ ms"
proof (induction ms arbitrary: acc)
  case (Cons m ms)
  then show ?case by (cases m) (auto simp: obj_set_fresh)
qed simp

lemma object_of_distinct: "distinct (map fst ms) \<Longrightarrow> object_of ms = ms"
  by (simp add: object_of_def object_of_acc)

text \<open>The first unit of a printed value.\<close>

lemma int_text_hd: "int_text i = c # r \<Longrightarrow> is_digit c \<or> c = 0x2D"
  by (auto simp: int_text_def split: if_splits) (metis list.set_intros(1) nat_text_digits)

lemma int_text_ne: "int_text i \<noteq> []"
  by (simp add: int_text_def)

lemma skip_ws_non_ws: "\<not> json_ws c \<Longrightarrow> skip_ws (c # r) = c # r"
  by (simp add: skip_ws_def)

lemma number_start:
  "is_digit c \<or> c = 0x2D \<Longrightarrow>
     \<not> json_ws c \<and> c \<noteq> 0x22 \<and> c \<noteq> 0x5B \<and> c \<noteq> 0x5D \<and> c \<noteq> 0x7B \<and>
     \<not> startsWith (c # r) (js ''null'') \<and> \<not> startsWith (c # r) (js ''true'') \<and>
     \<not> startsWith (c # r) (js ''false'')"
  by (auto simp: is_digit_def json_ws_def js_def word_le_nat_alt)

lemma stringify_start:
  assumes "json_ok v"
  obtains c r where "stringify v = c # r" and "\<not> json_ws c" and "c \<noteq> 0x5D"
proof (cases v)
  case (JNum x)
  obtain c r where "int_text \<lfloor>x\<rfloor> = c # r" using int_text_ne by (cases "int_text \<lfloor>x\<rfloor>") auto
  with JNum assms show ?thesis
    using that number_start [of c r] int_text_hd by (fastforce simp: number_text_def)
next
  case (JBool b)
  then show ?thesis by (cases b) (auto simp: js_def json_ws_def intro: that)
qed (auto simp: quote_def js_def json_ws_def intro: that)

lemma parse_value_number:
  assumes "number_stop rest" and "0 < k"
  shows "parse_value k (int_text i @ rest) = Some (JNum (of_int i), rest)"
proof -
  obtain j where k: "k = Suc j" using assms by (cases k) auto
  obtain c r where ir: "int_text i = c # r" using int_text_ne by (cases "int_text i") auto
  then have "is_digit c \<or> c = 0x2D" by (rule int_text_hd)
  note st = number_start [OF this, of "r @ rest"]
  moreover have "parse_number (c # r @ rest) = Some (of_int i, rest)"
    using parse_number_int_text [OF assms(1), of i] ir by simp
  ultimately show ?thesis
    using k ir by (simp add: skip_ws_non_ws del: startsWith.simps)
qed

lemma parse_stringify:
  shows "json_ok v \<Longrightarrow> number_stop rest \<Longrightarrow> 2 * length (stringify v @ rest) + 1 \<le> k \<Longrightarrow>
           parse_value k (stringify v @ rest) = Some (v, rest)"
    and "\<forall>v \<in> set vs. json_ok v \<Longrightarrow> vs \<noteq> [] \<Longrightarrow>
           2 * length (stringify_elems vs @ 0x5D # rest) + 2 \<le> k \<Longrightarrow>
           parse_elems k (stringify_elems vs @ 0x5D # rest) = Some (vs, rest)"
    and "\<forall>m \<in> set ms. json_ok (snd m) \<Longrightarrow> ms \<noteq> [] \<Longrightarrow>
           2 * length (stringify_members ms @ 0x7D # rest) + 2 \<le> k \<Longrightarrow>
           parse_members k (stringify_members ms @ 0x7D # rest) = Some (ms, rest)"
proof (induction v and vs and ms arbitrary: rest k and rest k and rest k
    rule: stringify_stringify_elems_stringify_members.induct)
  case 1
  then show ?case by (cases k) (simp_all add: js_def skip_ws_non_ws json_ws_def)
next
  case (2 b)
  then show ?case by (cases k) (simp_all add: js_def skip_ws_non_ws json_ws_def)
next
  case (3 x)
  then have x: "x = of_int \<lfloor>x\<rfloor>" by simp
  have "parse_value k (int_text \<lfloor>x\<rfloor> @ rest) = Some (JNum (of_int \<lfloor>x\<rfloor>), rest)"
    using 3 by (intro parse_value_number) auto
  with x show ?case by (simp add: number_text_def)
next
  case (4 s)
  then show ?case by (cases k) (simp_all add: quote_def skip_ws_non_ws json_ws_def)
next
  case (5 vs)
  then obtain j where k: "k = Suc j" by (cases k) auto
  show ?case
  proof (cases vs)
    case Nil
    with k show ?thesis by (simp add: skip_ws_non_ws json_ws_def)
  next
    case (Cons v vs')
    obtain c r where cr: "stringify_elems vs @ 0x5D # rest = c # r" "\<not> json_ws c" "c \<noteq> 0x5D"
      using 5(2) Cons by (auto elim!: stringify_start [of v])
    have "parse_elems j (stringify_elems vs @ 0x5D # rest) = Some (vs, rest)"
      using 5 Cons k by (intro 5(1)) auto
    with cr k show ?thesis by (simp add: skip_ws_non_ws json_ws_def)
  qed
next
  case (6 ms)
  then obtain j where k: "k = Suc j" by (cases k) auto
  show ?case
  proof (cases ms)
    case Nil
    with k show ?thesis by (simp add: skip_ws_non_ws json_ws_def)
  next
    case (Cons m ms')
    obtain r where cr: "stringify_members ms @ 0x7D # rest = 0x22 # r"
      using Cons by (cases m) (simp add: quote_def)
    have "parse_members j (stringify_members ms @ 0x7D # rest) = Some (ms, rest)"
      using 6 Cons k by (intro 6(1)) auto
    with cr k 6(2) show ?thesis by (simp add: skip_ws_non_ws json_ws_def object_of_distinct)
  qed
next
  case (8 v vs)
  then obtain j where k: "k = Suc j" by (cases k) auto
  show ?case
  proof (cases "vs = []")
    case True
    have "parse_value j (stringify v @ 0x5D # rest) = Some (v, 0x5D # rest)"
      using 8 True k by (intro 8(1)) (auto simp: number_stop_def is_digit_def)
    with True k show ?thesis by (simp add: skip_ws_non_ws json_ws_def)
  next
    case False
    let ?t = "stringify_elems vs @ 0x5D # rest"
    have "parse_value j (stringify v @ 0x2C # ?t) = Some (v, 0x2C # ?t)"
      using 8 False k by (intro 8(1)) (auto simp: number_stop_def is_digit_def)
    moreover have "parse_elems j ?t = Some (vs, rest)"
      using 8 False k by (intro 8(2)) auto
    ultimately show ?thesis using False k by (simp add: skip_ws_non_ws json_ws_def)
  qed
next
  case (10 key v ms)
  then obtain j where k: "k = Suc j" by (cases k) auto
  have key: "read_key (quote key @ 0x3A # r) = Some (key, r)" for r
    by (simp add: read_key_def quote_def skip_ws_non_ws json_ws_def)
  show ?case
  proof (cases "ms = []")
    case True
    have "parse_value j (stringify v @ 0x7D # rest) = Some (v, 0x7D # rest)"
      using 10 True k by (intro 10(1)) (auto simp: number_stop_def is_digit_def)
    with True k show ?thesis by (simp add: key skip_ws_non_ws json_ws_def)
  next
    case False
    let ?t = "stringify_members ms @ 0x7D # rest"
    have "parse_value j (stringify v @ 0x2C # ?t) = Some (v, 0x2C # ?t)"
      using 10 False k by (intro 10(1)) (auto simp: number_stop_def is_digit_def)
    moreover have "parse_members j ?t = Some (ms, rest)"
      using 10 False k by (intro 10(2)) auto
    ultimately show ?thesis using False k by (simp add: key skip_ws_non_ws json_ws_def)
  qed
qed simp_all

lemma parse_stringify_json: "json_ok v \<Longrightarrow> JSON_parse (stringify v) = Some v"
  using parse_stringify(1) [of v "[]" "2 * length (stringify v) + 2"]
  by (simp add: JSON_parse_def number_stop_def skip_ws_def)

end
