(* ===== verification/Session.thy ===== *)
theory Session
  imports Json
begin

text \<open>
  The session store of the dashboard (\<open>web/dashboard/src/api/session.ts\<close>): one JSON text
  under a key of the browser's local storage, with a migration from an older key. The
  local storage is a map from keys to texts; a write is assumed to succeed (a storage
  that refuses a write for lack of quota is not modelled). The type assertion
  \<open>JSON.parse(raw) as Session\<close> checks nothing, so the stored value is any JSON value.

  The locale \<open>credential_store\<close> is what the API client and the application rely on;
  the store implements an optional credential cell.
\<close>

subsection \<open>Local storage and property access\<close>

type_synonym storage = "js_string \<rightharpoonup> js_string"

text \<open>\<open>v.key\<close> on a parsed value, for keys that no built-in prototype has: \<open>null\<close> throws a
  \<open>TypeError\<close>, a missing property is \<open>undefined\<close> (\<open>None\<close>).\<close>

definition json_get :: "json \<Rightarrow> js_string \<Rightarrow> json option result" where
  "json_get v key =
     (case v of
        JNull \<Rightarrow> Inl (NativeError (js ''Cannot read properties of null''))
      | JObj ms \<Rightarrow> Inr (map_of ms key)
      | _ \<Rightarrow> Inr None)"

definition opt_truthy :: "json option \<Rightarrow> bool" where
  "opt_truthy v = (case v of None \<Rightarrow> False | Some x \<Rightarrow> json_truthy x)"

text \<open>A value in a template literal.\<close>

definition opt_String :: "json option \<Rightarrow> js_string" where
  "opt_String v = (case v of None \<Rightarrow> js ''undefined'' | Some x \<Rightarrow> json_String x)"

subsection \<open>The module\<close>

definition SESSION_KEY :: js_string where
  "SESSION_KEY = js ''nrynet.session''"

definition LEGACY_SESSION_KEY :: js_string where
  "LEGACY_SESSION_KEY = js ''nat-link.session''"

definition clearSession :: "storage \<Rightarrow> storage" where
  "clearSession st = st(SESSION_KEY := None, LEGACY_SESSION_KEY := None)"

definition getSession :: "storage \<Rightarrow> storage \<times> json option" where
  "getSession st =
     (case (case st SESSION_KEY of None \<Rightarrow> st LEGACY_SESSION_KEY | Some raw \<Rightarrow> Some raw) of
        None \<Rightarrow> (st, None)
      | Some raw \<Rightarrow>
          (if \<not> truthy raw then (st, None)
           else case JSON_parse raw of
             None \<Rightarrow> (clearSession st, None)
           | Some session \<Rightarrow>
               (case json_get session (js ''token'') of
                  Inl e \<Rightarrow> (clearSession st, None)
                | Inr token \<Rightarrow>
                    (let st' = (if opt_truthy token \<and> \<not> truthy_opt (st SESSION_KEY)
                                then st(SESSION_KEY \<mapsto> raw, LEGACY_SESSION_KEY := None) else st)
                     in (st', if opt_truthy token then Some session else None)))))"

text \<open>A member whose value is \<open>undefined\<close> is left out of the text, and the default of the
  parameter \<open>tokenType\<close> applies to \<open>undefined\<close>.\<close>

definition session_object :: "json option \<Rightarrow> json option \<Rightarrow> json" where
  "session_object token tokenType =
     JObj ((case token of None \<Rightarrow> [] | Some t \<Rightarrow> [(js ''token'', t)]) @
       [(js ''tokenType'', case tokenType of None \<Rightarrow> JStr (js ''Bearer'') | Some t \<Rightarrow> t)])"

definition saveSession :: "json option \<Rightarrow> json option \<Rightarrow> storage \<Rightarrow> storage" where
  "saveSession token tokenType st = st(SESSION_KEY \<mapsto> stringify (session_object token tokenType))"

definition session_get :: "json \<Rightarrow> js_string \<Rightarrow> json option" where
  "session_get s key = (case json_get s key of Inl e \<Rightarrow> None | Inr v \<Rightarrow> v)"

definition authHeader :: "storage \<Rightarrow> storage \<times> (js_string \<times> js_string) list" where
  "authHeader st =
     (let (st', session) = getSession st in
      (st', case session of
         None \<Rightarrow> []
       | Some s \<Rightarrow> [(js ''Authorization'',
           opt_String (session_get s (js ''tokenType'')) @ [0x20] @ opt_String (session_get s (js ''token'')))]))"

subsection \<open>The contract: an optional credential cell\<close>

datatype 'c store_op = Store 'c | Wipe | Load

fun cell_run :: "'c store_op list \<Rightarrow> 'c option \<Rightarrow> 'c option" where
  "cell_run [] c = c"
| "cell_run (Store d # ops) c = cell_run ops (Some d)"
| "cell_run (Wipe # ops) c = cell_run ops None"
| "cell_run (Load # ops) c = cell_run ops c"

fun store_run :: "('st \<Rightarrow> 'st \<times> 'c option) \<Rightarrow> ('c \<Rightarrow> 'st \<Rightarrow> 'st) \<Rightarrow> ('st \<Rightarrow> 'st) \<Rightarrow>
    'c store_op list \<Rightarrow> 'st \<Rightarrow> 'st" where
  "store_run load store wipe [] st = st"
| "store_run load store wipe (Store c # ops) st = store_run load store wipe ops (store c st)"
| "store_run load store wipe (Wipe # ops) st = store_run load store wipe ops (wipe st)"
| "store_run load store wipe (Load # ops) st = store_run load store wipe ops (fst (load st))"

locale credential_store =
  fixes load :: "'st \<Rightarrow> 'st \<times> 'c option"
    and store :: "'c \<Rightarrow> 'st \<Rightarrow> 'st"
    and wipe :: "'st \<Rightarrow> 'st"
    and valid :: "'c \<Rightarrow> bool"
  assumes load_store: "valid c \<Longrightarrow> snd (load (store c st)) = Some c"
    and load_wipe: "snd (load (wipe st)) = None"
    and load_load: "snd (load (fst (load st))) = snd (load st)"
begin

lemma run_refines_cell:
  "\<forall>c. Store c \<in> set ops \<longrightarrow> valid c \<Longrightarrow> snd (load (store_run load store wipe ops st)) = cell_run ops (snd (load st))"
proof (induction ops arbitrary: st)
  case (Cons x ops)
  then show ?case
    by (cases x) (simp_all add: load_store load_wipe load_load)
qed simp

end

subsection \<open>The model meets the contract\<close>

lemma keys_differ [simp]: "SESSION_KEY \<noteq> LEGACY_SESSION_KEY" "LEGACY_SESSION_KEY \<noteq> SESSION_KEY"
  by (simp_all add: SESSION_KEY_def LEGACY_SESSION_KEY_def)

lemma clearSession_keys [simp]:
  "clearSession st SESSION_KEY = None" "clearSession st LEGACY_SESSION_KEY = None"
  by (simp_all add: clearSession_def)

lemma getSession_cleared [simp]:
  "st SESSION_KEY = None \<Longrightarrow> st LEGACY_SESSION_KEY = None \<Longrightarrow> getSession st = (st, None)"
  by (simp add: getSession_def)

lemma getSession_key:
  assumes "st SESSION_KEY = Some raw" and "truthy raw" and "JSON_parse raw = Some s"
    and "json_get s (js ''token'') = Inr tok"
  shows "getSession st = (st, if opt_truthy tok then Some s else None)"
  using assms by (simp add: getSession_def truthy_opt_def)

text \<open>What \<open>getSession\<close> can do: leave the storage alone, clear it, or migrate the old key.\<close>

lemma getSession_cases:
  obtains (same) s where "getSession st = (st, s)"
  | (cleared) "getSession st = (clearSession st, None)"
  | (migrated) raw s tok where "st SESSION_KEY = None" "st LEGACY_SESSION_KEY = Some raw" "truthy raw"
      "JSON_parse raw = Some s" "json_get s (js ''token'') = Inr tok" "opt_truthy tok"
      "getSession st = (st(SESSION_KEY \<mapsto> raw, LEGACY_SESSION_KEY := None), Some s)"
proof -
  let ?raw = "case st SESSION_KEY of None \<Rightarrow> st LEGACY_SESSION_KEY | Some raw \<Rightarrow> Some raw"
  consider "?raw = None"
    | raw where "?raw = Some raw" "\<not> truthy raw \<or> JSON_parse raw = None"
    | raw s e where "?raw = Some raw" "truthy raw" "JSON_parse raw = Some s"
        "json_get s (js ''token'') = Inl e"
    | raw s tok where "?raw = Some raw" "truthy raw" "JSON_parse raw = Some s"
        "json_get s (js ''token'') = Inr tok"
    by (cases ?raw; cases "JSON_parse (the ?raw)"; cases "json_get (the (JSON_parse (the ?raw))) (js ''token'')")
      fastforce+
  then show ?thesis
  proof cases
    case 1
    then show ?thesis using same [of None] by (simp add: getSession_def)
  next
    case (2 raw)
    then have "getSession st = (st, None) \<or> getSession st = (clearSession st, None)"
      by (auto simp: getSession_def)
    then show ?thesis using same cleared by blast
  next
    case (3 raw s e)
    then show ?thesis using cleared by (simp add: getSession_def)
  next
    case (4 raw s tok)
    show ?thesis
    proof (cases "st SESSION_KEY = None \<and> opt_truthy tok")
      case True
      with 4 show ?thesis
        by (intro migrated [of raw s tok]) (auto simp: getSession_def truthy_opt_def)
    next
      case False
      with 4 have "fst (getSession st) = st"
        by (auto simp: getSession_def truthy_opt_def split: option.splits)
      then show ?thesis using same [of "snd (getSession st)"] by (metis prod.collapse)
    qed
  qed
qed

lemma getSession_again: "getSession (fst (getSession st)) = (fst (getSession st), snd (getSession st))"
proof (cases st rule: getSession_cases)
  case (migrated raw s tok)
  then show ?thesis
    using getSession_key [of "st(SESSION_KEY \<mapsto> raw, LEGACY_SESSION_KEY := None)" raw s tok] by simp
qed simp_all

lemma session_object_ok:
  assumes "token = None \<or> (\<exists>t. token = Some t \<and> json_ok t)"
    and "tokenType = None \<or> (\<exists>t. tokenType = Some t \<and> json_ok t)"
  shows "json_ok (session_object token tokenType)"
  using assms by (auto simp: session_object_def)

lemma session_object_text_ne: "stringify (session_object t ty) \<noteq> []"
  by (simp add: session_object_def)

lemma session_object_token [simp]:
  "json_get (session_object (Some t) ty) (js ''token'') = Inr (Some t)"
  by (simp add: json_get_def session_object_def)

lemma session_object_type [simp]:
  "json_get (session_object t (Some ty)) (js ''tokenType'') = Inr (Some ty)"
  by (cases t) (simp_all add: json_get_def session_object_def)

lemma getSession_saved:
  assumes "json_ok t" and "json_truthy t" and "json_ok ty"
  shows "getSession (saveSession (Some t) (Some ty) st) =
    (saveSession (Some t) (Some ty) st, Some (session_object (Some t) (Some ty)))"
proof -
  let ?s = "session_object (Some t) (Some ty)"
  have "JSON_parse (stringify ?s) = Some ?s"
    using assms by (intro parse_stringify_json session_object_ok) auto
  then show ?thesis
    using getSession_key [of "saveSession (Some t) (Some ty) st" "stringify ?s" ?s "Some t"] assms
    by (simp add: saveSession_def session_object_text_ne opt_truthy_def)
qed

text \<open>A credential of the dashboard: the token and its type, both strings.\<close>

type_synonym credential = "js_string \<times> js_string"

definition credential_object :: "credential \<Rightarrow> json" where
  "credential_object c = session_object (Some (JStr (fst c))) (Some (JStr (snd c)))"

definition store_session :: "json \<Rightarrow> storage \<Rightarrow> storage" where
  "store_session s st = saveSession (session_get s (js ''token'')) (session_get s (js ''tokenType'')) st"

lemma store_credential:
  "store_session (credential_object c) st = saveSession (Some (JStr (fst c))) (Some (JStr (snd c))) st"
  by (simp add: store_session_def session_get_def credential_object_def)

interpretation dashboard_store: credential_store getSession store_session clearSession
  "\<lambda>s. \<exists>c. fst c \<noteq> [] \<and> s = credential_object c"
proof unfold_locales
  fix s st
  assume "\<exists>c. fst c \<noteq> [] \<and> s = credential_object c"
  then obtain c where "fst c \<noteq> []" "s = credential_object c" by blast
  then show "snd (getSession (store_session s st)) = Some s"
    using getSession_saved [of "JStr (fst c)" "JStr (snd c)" st]
    by (simp add: store_credential json_truthy_def) (simp add: credential_object_def)
next
  show "snd (getSession (clearSession st)) = None" for st by simp
next
  show "snd (getSession (fst (getSession st))) = snd (getSession st)" for st
    by (simp add: getSession_again)
qed

subsection \<open>Properties\<close>

text \<open>
  A saved session is read back as it was saved, without a change to the storage, and the
  authorization header is its token type, a space and its token, for every non-empty token.
\<close>

lemma saved_session_is_loaded:
  assumes "t \<noteq> []"
  shows "getSession (saveSession (Some (JStr t)) (Some (JStr ty)) st) =
      (saveSession (Some (JStr t)) (Some (JStr ty)) st, Some (session_object (Some (JStr t)) (Some (JStr ty)))) \<and>
    snd (authHeader (saveSession (Some (JStr t)) (Some (JStr ty)) st)) =
      [(js ''Authorization'', ty @ [0x20] @ t)]"
  using getSession_saved [of "JStr t" "JStr ty" st] assms
  by (simp add: authHeader_def json_truthy_def session_get_def opt_String_def)

text \<open>
  C11. The storage with its two keys, the JSON text and the migration implements one optional
  credential: after any sequence of saves of non-empty tokens, clears and reads,
  \<open>getSession\<close> reports what the last save or clear left, or what it reported at first.
\<close>

theorem session_store_refines_cell:
  assumes "\<forall>s. Store s \<in> set ops \<longrightarrow> (\<exists>c. fst c \<noteq> [] \<and> s = credential_object c)"
  shows "snd (getSession (store_run getSession store_session clearSession ops st)) =
    cell_run ops (snd (getSession st))"
  using assms by (rule dashboard_store.run_refines_cell)

theorem session_store_refines_cell_witness:
  "snd (getSession (store_run getSession store_session clearSession
      [Store (credential_object (js ''a'', js ''Bearer'')), Load, Wipe,
       Store (credential_object (js ''b'', js ''Bearer'')), Load] Map.empty)) =
     Some (credential_object (js ''b'', js ''Bearer''))"
proof -
  let ?ops = "[Store (credential_object (js ''a'', js ''Bearer'')), Load, Wipe,
       Store (credential_object (js ''b'', js ''Bearer'')), Load]"
  have "\<exists>c. fst c \<noteq> [] \<and> credential_object (js x, ty) = credential_object c" if "x \<noteq> []" for x ty
    using that by (intro exI [of _ "(js x, ty)"]) simp
  then have "\<forall>s. Store s \<in> set ?ops \<longrightarrow> (\<exists>c. fst c \<noteq> [] \<and> s = credential_object c)"
    by (auto simp del: split_paired_Ex)
  then show ?thesis
    using session_store_refines_cell [of ?ops Map.empty] by simp
qed

text \<open>
  A session with a token under the old key is returned by the first read, which moves
  its text to the new key and removes the old one; the next read returns it again and
  changes nothing.
\<close>

lemma legacy_session_migrates:
  assumes "st SESSION_KEY = None" and "st LEGACY_SESSION_KEY = Some raw" and "raw \<noteq> []"
    and "JSON_parse raw = Some (JObj ms)" and "opt_truthy (map_of ms (js ''token''))"
  shows "\<exists>st'. getSession st = (st', Some (JObj ms)) \<and> st' SESSION_KEY = Some raw \<and>
    st' LEGACY_SESSION_KEY = None \<and> (\<forall>k. k \<noteq> SESSION_KEY \<and> k \<noteq> LEGACY_SESSION_KEY \<longrightarrow> st' k = st k) \<and>
    getSession st' = (st', Some (JObj ms))"
proof -
  let ?st = "st(SESSION_KEY \<mapsto> raw, LEGACY_SESSION_KEY := None)"
  have "getSession st = (?st, Some (JObj ms))"
    using assms by (simp add: getSession_def json_get_def truthy_opt_def)
  moreover from this have "getSession ?st = (?st, Some (JObj ms))"
    using getSession_again [of st] by simp
  ultimately show ?thesis by (intro exI [of _ ?st]) simp
qed

text \<open>
  A stored text that is not JSON, or is the JSON value \<open>null\<close>, is reported as no session,
  and both keys are removed; no other key of the storage is ever touched by a read.
\<close>

lemma unreadable_session_is_cleared:
  assumes "st SESSION_KEY = Some raw" and "raw \<noteq> []"
    and "JSON_parse raw = None \<or> JSON_parse raw = Some JNull"
  shows "snd (getSession st) = None \<and> fst (getSession st) SESSION_KEY = None \<and>
    fst (getSession st) LEGACY_SESSION_KEY = None \<and>
    (\<forall>k. k \<noteq> SESSION_KEY \<and> k \<noteq> LEGACY_SESSION_KEY \<longrightarrow> fst (getSession st) k = st k)"
  using assms by (auto simp: getSession_def json_get_def clearSession_def)

end
