(* ===== verification/Api_Errors.thy ===== *)
theory Api_Errors
  imports Session
begin

text \<open>
  The error texts of the API client (\<open>errorMessage\<close> and the functions below it in
  \<open>web/dashboard/src/api/client.ts\<close>): an error the server reports in English is mapped
  to one of a fixed set of Chinese messages by a chain of substring tests, a Chinese one
  is kept. The messages are constants of code units, named after what they say.
\<close>

subsection \<open>Messages\<close>

definition msg_request_failed :: js_string where
  "msg_request_failed = [0x8BF7, 0x6C42, 0x5931, 0x8D25, 0xFF0C, 0x8BF7, 0x7A0D, 0x540E, 0x91CD, 0x8BD5]"
definition msg_unauthorized :: js_string where
  "msg_unauthorized = [0x672A, 0x6388, 0x6743, 0xFF0C, 0x8BF7, 0x91CD, 0x65B0, 0x767B, 0x5F55]"
definition msg_forbidden :: js_string where
  "msg_forbidden = [0x65E0, 0x6743, 0x8BBF, 0x95EE, 0x8BE5, 0x8D44, 0x6E90]"
definition msg_not_found :: js_string where
  "msg_not_found = [0x8D44, 0x6E90, 0x4E0D, 0x5B58, 0x5728]"
definition msg_internal :: js_string where
  "msg_internal = [0x670D, 0x52A1, 0x5668, 0x5185, 0x90E8, 0x9519, 0x8BEF]"
definition msg_bad_request :: js_string where
  "msg_bad_request = [0x8BF7, 0x6C42, 0x53C2, 0x6570, 0x65E0, 0x6548]"
definition msg_credentials :: js_string where
  "msg_credentials = [0x7528, 0x6237, 0x540D, 0x6216, 0x5BC6, 0x7801, 0x9519, 0x8BEF]"
definition msg_plain_listen :: js_string where
  "msg_plain_listen = [0x8BF7, 0x5148, 0x914D, 0x7F6E, 0x660E, 0x6587, 0x20, 0x57, 0x53, 0x20, 0x63A7,
    0x5236, 0x7AEF, 0x53E3, 0x548C, 0x6570, 0x636E, 0x7AEF, 0x53E3]"
definition msg_certbot_missing :: js_string where
  "msg_certbot_missing = [0x670D, 0x52A1, 0x5668, 0x672A, 0x5B89, 0x88C5, 0x20, 0x43, 0x65, 0x72, 0x74, 0x62,
    0x6F, 0x74, 0xFF0C, 0x8BF7, 0x5148, 0x5B89, 0x88C5, 0x540E, 0x518D, 0x7533, 0x8BF7,
    0x8BC1, 0x4E66]"
definition msg_base_domain :: js_string where
  "msg_base_domain = [0x8BF7, 0x8F93, 0x5165, 0x96A7, 0x9053, 0x6839, 0x57DF, 0x540D]"
definition msg_subdomain_taken :: js_string where
  "msg_subdomain_taken = [0x81EA, 0x52A8, 0x5B50, 0x57DF, 0x540D, 0x5DF2, 0x88AB, 0x5360, 0x7528, 0xFF0C,
    0x8BF7, 0x66F4, 0x6362, 0x96A7, 0x9053, 0x540D, 0x79F0, 0x6216, 0x624B, 0x52A8,
    0x586B, 0x5199, 0x57DF, 0x540D]"
definition msg_domain_format :: js_string where
  "msg_domain_format = [0x57DF, 0x540D, 0x683C, 0x5F0F, 0x4E0D, 0x6B63, 0x786E, 0xFF0C, 0x8BF7, 0x586B,
    0x5199, 0x5B8C, 0x6574, 0x516C, 0x7F51, 0x57DF, 0x540D]"
definition msg_domain_required :: js_string where
  "msg_domain_required = [0x8BF7, 0x8F93, 0x5165, 0x8981, 0x7ED1, 0x5B9A, 0x7684, 0x57DF, 0x540D]"
definition msg_wildcard :: js_string where
  "msg_wildcard = [0x8BF7, 0x786E, 0x8BA4, 0x901A, 0x914D, 0x7B26, 0x20, 0x44, 0x4E, 0x53, 0x20,
    0x5DF2, 0x914D, 0x7F6E, 0x4E3A, 0x6307, 0x5411, 0x670D, 0x52A1, 0x5668]"
definition msg_email_required :: js_string where
  "msg_email_required = [0x8BF7, 0x8F93, 0x5165, 0x7528, 0x4E8E, 0x8BC1, 0x4E66, 0x901A, 0x77E5, 0x7684,
    0x90AE, 0x7BB1]"
definition msg_dns :: js_string where
  "msg_dns = [0x57DF, 0x540D, 0x89E3, 0x6790, 0x672A, 0x751F, 0x6548, 0xFF0C, 0x8BF7, 0x786E,
    0x8BA4, 0x20, 0x44, 0x4E, 0x53, 0x20, 0x5DF2, 0x6307, 0x5411, 0x5F53, 0x524D,
    0x670D, 0x52A1, 0x5668]"
definition msg_port80 :: js_string where
  "msg_port80 = [0x8BC1, 0x4E66, 0x7533, 0x8BF7, 0x9700, 0x8981, 0x516C, 0x7F51, 0x20, 0x54, 0x43,
    0x50, 0x20, 0x38, 0x30, 0x20, 0x7AEF, 0x53E3, 0x53EF, 0x8BBF, 0x95EE]"
definition msg_certificate :: js_string where
  "msg_certificate = [0x8BC1, 0x4E66, 0x7533, 0x8BF7, 0x5931, 0x8D25, 0xFF0C, 0x8BF7, 0x68C0, 0x67E5,
    0x57DF, 0x540D, 0x89E3, 0x6790, 0x3001, 0x38, 0x30, 0x20, 0x7AEF, 0x53E3, 0x548C,
    0x20, 0x43, 0x65, 0x72, 0x74, 0x62, 0x6F, 0x74, 0x20, 0x914D, 0x7F6E]"
definition msg_boolean :: js_string where
  "msg_boolean = [0x8BBE, 0x7F6E, 0x503C, 0x5FC5, 0x987B, 0x4E3A, 0x5F00, 0x542F, 0x6216, 0x5173,
    0x95ED]"
definition msg_expired :: js_string where
  "msg_expired = [0x767B, 0x5F55, 0x5DF2, 0x8FC7, 0x671F, 0xFF0C, 0x8BF7, 0x91CD, 0x65B0, 0x767B,
    0x5F55]"
definition msg_network :: js_string where
  "msg_network = [0x7F51, 0x7EDC, 0x8FDE, 0x63A5, 0x5931, 0x8D25]"

lemmas api_message_defs =
  msg_request_failed_def msg_unauthorized_def msg_forbidden_def msg_not_found_def msg_internal_def
  msg_bad_request_def msg_credentials_def msg_plain_listen_def msg_certbot_missing_def
  msg_base_domain_def msg_subdomain_taken_def msg_domain_format_def msg_domain_required_def
  msg_wildcard_def msg_email_required_def msg_dns_def msg_port80_def msg_certificate_def
  msg_boolean_def msg_expired_def msg_network_def

subsection \<open>The functions\<close>

definition hasChinese :: "js_string \<Rightarrow> bool" where
  "hasChinese s = list_ex (\<lambda>c. 0x4E00 \<le> c \<and> c \<le> 0x9FFF) s"

definition mappedErrorMessage :: "js_string \<Rightarrow> js_string" where
  "mappedErrorMessage message =
     (let normalized = toLowerCase message; has = (\<lambda>p. js_includes normalized (js p)) in
      if \<not> truthy normalized then []
      else if has ''unauthorized'' \<or> has ''unauthenticated'' then msg_unauthorized
      else if has ''forbidden'' \<or> has ''permission denied'' then msg_forbidden
      else if has ''not found'' then msg_not_found
      else if has ''internal server error'' then msg_internal
      else if has ''bad request'' \<or> has ''invalid request'' then msg_bad_request
      else if has ''invalid credentials'' \<or> has ''invalid username'' \<or> has ''invalid password''
        then msg_credentials
      else if has ''plain_listen'' \<and> has ''plain_data_listen'' \<and> has ''required''
        then msg_plain_listen
      else if has ''certbot'' \<and> has ''not found'' then msg_certbot_missing
      else if has ''base_domain'' \<and> has ''required'' then msg_base_domain
      else if has ''could not allocate'' \<and> has ''subdomain'' then msg_subdomain_taken
      else if has ''fully qualified'' \<or> has ''invalid label'' then msg_domain_format
      else if has ''domain'' \<and> has ''required'' then msg_domain_required
      else if has ''wildcard'' then msg_wildcard
      else if has ''email'' \<and> has ''required'' then msg_email_required
      else if has ''dns'' then msg_dns
      else if has ''port 80'' \<or> has ''tcp/80'' then msg_port80
      else if has ''certificate'' \<or> has ''letsencrypt'' then msg_certificate
      else if has ''setting value must be a boolean'' then msg_boolean
      else if has ''token expired'' \<or> has ''expired token'' then msg_expired
      else if has ''network error'' \<or> has ''failed to fetch'' then msg_network
      else [])"

definition localizedErrorMessage :: "js_string \<Rightarrow> js_string \<Rightarrow> js_string" where
  "localizedErrorMessage message fallback =
     (if hasChinese message then message
      else
        (let mapped = (if truthy (mappedErrorMessage message) then mappedErrorMessage message
                       else mappedErrorMessage fallback)
         in if truthy mapped then mapped else msg_request_failed))"

definition fallbackErrorMessage :: "js_string \<Rightarrow> js_string" where
  "fallbackErrorMessage fallback = localizedErrorMessage fallback []"

text \<open>\<open>payload && typeof payload === "object" && "error" in payload\<close>: an array is an object
  without that key, \<open>null\<close> is not truthy.\<close>

definition errorMessage :: "json \<Rightarrow> js_string \<Rightarrow> js_string" where
  "errorMessage payload fallback =
     (case payload of
        JObj ms \<Rightarrow>
          (case map_of ms (js ''error'') of
             Some v \<Rightarrow> localizedErrorMessage (json_String v) fallback
           | None \<Rightarrow> fallbackErrorMessage fallback)
      | _ \<Rightarrow> fallbackErrorMessage fallback)"

subsection \<open>What the texts look like\<close>

lemma hasChinese_ne: "hasChinese s \<Longrightarrow> s \<noteq> []"
  by (auto simp: hasChinese_def)

lemma api_messages_chinese [simp]:
  "hasChinese msg_request_failed" "hasChinese msg_unauthorized" "hasChinese msg_forbidden"
  "hasChinese msg_not_found" "hasChinese msg_internal" "hasChinese msg_bad_request"
  "hasChinese msg_credentials" "hasChinese msg_plain_listen" "hasChinese msg_certbot_missing"
  "hasChinese msg_base_domain" "hasChinese msg_subdomain_taken" "hasChinese msg_domain_format"
  "hasChinese msg_domain_required" "hasChinese msg_wildcard" "hasChinese msg_email_required"
  "hasChinese msg_dns" "hasChinese msg_port80" "hasChinese msg_certificate" "hasChinese msg_boolean"
  "hasChinese msg_expired" "hasChinese msg_network"
  by (simp_all add: hasChinese_def api_message_defs)

text \<open>The messages the chain can return; the one for a missing Certbot is not among them.\<close>

definition mapped_messages :: "js_string set" where
  "mapped_messages = {[], msg_unauthorized, msg_forbidden, msg_not_found, msg_internal,
     msg_bad_request, msg_credentials, msg_plain_listen, msg_base_domain, msg_subdomain_taken,
     msg_domain_format, msg_domain_required, msg_wildcard, msg_email_required, msg_dns, msg_port80,
     msg_certificate, msg_boolean, msg_expired, msg_network}"

lemma if_memI: "(c \<Longrightarrow> x \<in> S) \<Longrightarrow> (\<not> c \<Longrightarrow> y \<in> S) \<Longrightarrow> (if c then x else y) \<in> S"
  by simp

lemma mapped_in: "mappedErrorMessage m \<in> mapped_messages"
  unfolding mappedErrorMessage_def Let_def
  by (intro if_memI; (blast | simp only: mapped_messages_def insert_iff simp_thms))

lemma mapped_chinese: "mappedErrorMessage m = [] \<or> hasChinese (mappedErrorMessage m)"
proof -
  have "\<forall>s \<in> mapped_messages. s = [] \<or> hasChinese s"
    by (simp add: mapped_messages_def)
  then show ?thesis using mapped_in by blast
qed

lemma localized_chinese: "hasChinese (localizedErrorMessage m f)"
  using mapped_chinese [of m] mapped_chinese [of f]
  by (auto simp: localizedErrorMessage_def Let_def)

lemma localized_kept: "hasChinese m \<Longrightarrow> localizedErrorMessage m f = m"
  by (simp add: localizedErrorMessage_def)

lemma errorMessage_is_chinese: "hasChinese (errorMessage p f)"
  by (auto simp: errorMessage_def fallbackErrorMessage_def localized_chinese
      split: json.splits option.splits)

subsection \<open>Properties\<close>

text \<open>
  No message of the server is mapped to the hint that Certbot has to be installed: every
  text that has both \<open>certbot\<close> and \<open>not found\<close> in it has been answered as a missing resource
  by the test for \<open>not found\<close> before.
\<close>

lemma certbot_hint_is_unreachable:
  "mappedErrorMessage m \<noteq> msg_certbot_missing \<and>
   mappedErrorMessage (js ''certbot: command not found'') = msg_not_found"
proof
  have "msg_certbot_missing \<notin> mapped_messages"
    by (simp add: mapped_messages_def api_message_defs)
  then show "mappedErrorMessage m \<noteq> msg_certbot_missing" using mapped_in by metis
  show "mappedErrorMessage (js ''certbot: command not found'') = msg_not_found" by code_simp
qed

end
