(* ===== verification/Api_Client.thy ===== *)
theory Api_Client
  imports Api_Errors
begin

text \<open>
  The API client of the dashboard (\<open>web/dashboard/src/api/client.ts\<close>). The browser's state
  is a record: the local storage, the events dispatched on \<open>window\<close>, the requests handed to
  \<open>fetch\<close> and the files saved. \<open>fetch\<close> is a parameter, the server's answer to a request:
  a response or the message of the error it rejects with. A call of the client runs from
  its request to its answer; what other handlers do while a request is in flight is the
  subject of the pages' theories.

  The methods of the object \<open>api\<close> are the constructors of \<open>api_call\<close>; \<open>api_target\<close> is the
  path and the options each one passes to \<open>request\<close>, \<open>api_call_run\<close> the whole call.
\<close>

subsection \<open>Requests, responses, the browser\<close>

type_synonym headers = "(js_string \<times> js_string) list"

record request_init =
  ri_method :: "js_string option"
  ri_headers :: headers
  ri_body :: "js_string option"

record http_request =
  rq_path :: js_string
  rq_method :: js_string
  rq_headers :: headers
  rq_body :: "js_string option"

text \<open>Reading the body may itself fail when the connection breaks.\<close>

record response =
  status :: int
  statusText :: js_string
  body :: "js_string result"

datatype fetch_outcome = Response response | Rejected js_string

type_synonym fetch = "http_request \<Rightarrow> fetch_outcome"

record browser =
  local_storage :: storage
  events :: "js_string list"
  sent :: "http_request list"
  saved_files :: "(js_string \<times> js_string) list"

definition response_ok :: "response \<Rightarrow> bool" where
  "response_ok r \<longleftrightarrow> 200 \<le> status r \<and> status r \<le> 299"

subsection \<open>Headers\<close>

text \<open>Header names are compared without case; a value is trimmed of HTTP white space and
  refused (a \<open>TypeError\<close>) when a unit is outside Latin-1 or is NUL, LF or CR.\<close>

definition http_ws :: "16 word \<Rightarrow> bool" where
  "http_ws c \<longleftrightarrow> c = 0x9 \<or> c = 0xA \<or> c = 0xD \<or> c = 0x20"

definition header_normalize :: "js_string \<Rightarrow> js_string" where
  "header_normalize v = rev (dropWhile http_ws (rev (dropWhile http_ws v)))"

definition header_value_ok :: "js_string \<Rightarrow> bool" where
  "header_value_ok v = list_all (\<lambda>c. c \<le> 0xFF \<and> c \<noteq> 0 \<and> c \<noteq> 0xA \<and> c \<noteq> 0xD) v"

definition headers_set :: "js_string \<Rightarrow> js_string \<Rightarrow> headers \<Rightarrow> headers result" where
  "headers_set name v hs =
     (let v' = header_normalize v in
      if header_value_ok v' then Inr (obj_set (toLowerCase name) v' hs)
      else Inl (NativeError (js ''Invalid header value'')))"

definition headers_append :: "js_string \<Rightarrow> js_string \<Rightarrow> headers \<Rightarrow> headers result" where
  "headers_append name v hs =
     (case map_of hs (toLowerCase name) of
        None \<Rightarrow> headers_set name v hs
      | Some old \<Rightarrow> headers_set name (old @ js '', '' @ v) hs)"

definition headers_has :: "js_string \<Rightarrow> headers \<Rightarrow> bool" where
  "headers_has name hs \<longleftrightarrow> map_of hs (toLowerCase name) \<noteq> None"

definition header_of :: "js_string \<Rightarrow> headers \<Rightarrow> js_string option" where
  "header_of name hs = map_of hs (toLowerCase name)"

fun headers_fold :: "(js_string \<Rightarrow> js_string \<Rightarrow> headers \<Rightarrow> headers result) \<Rightarrow> headers \<Rightarrow> headers \<Rightarrow>
    headers result" where
  "headers_fold f [] hs = Inr hs"
| "headers_fold f ((k, v) # kvs) hs =
     (case f k v hs of Inl e \<Rightarrow> Inl e | Inr hs' \<Rightarrow> headers_fold f kvs hs')"

definition bind_result :: "'a result \<Rightarrow> ('a \<Rightarrow> 'b result) \<Rightarrow> 'b result" where
  "bind_result r f = (case r of Inl e \<Rightarrow> Inl e | Inr a \<Rightarrow> f a)"

definition requestHeaders :: "request_init \<Rightarrow> storage \<Rightarrow> storage \<times> headers result" where
  "requestHeaders options st =
     (let (st', auth) = authHeader st;
          base = bind_result (headers_fold headers_append (ri_headers options) [])
            (\<lambda>hs. bind_result (headers_set (js ''Accept'') (js ''application/json'') hs)
            (\<lambda>hs. if truthy_opt (ri_body options) \<and> \<not> headers_has (js ''Content-Type'') hs
                  then headers_set (js ''Content-Type'') (js ''application/json'') hs else Inr hs))
      in case base of
           Inl e \<Rightarrow> (st, Inl e)
         | Inr hs \<Rightarrow> (st', headers_fold headers_set auth hs))"

subsection \<open>One request\<close>

definition unauthorized_event :: js_string where
  "unauthorized_event = js ''nrynet:unauthorized''"

definition handleUnauthorized :: "response \<Rightarrow> browser \<Rightarrow> browser" where
  "handleUnauthorized r b =
     (if status r = 401
      then b\<lparr>local_storage := clearSession (local_storage b), events := events b @ [unauthorized_event]\<rparr>
      else b)"

definition readPayload :: "response \<Rightarrow> json result" where
  "readPayload r =
     (case body r of
        Inl e \<Rightarrow> Inl e
      | Inr text \<Rightarrow>
          (if \<not> truthy text then Inr (JObj [])
           else case JSON_parse text of
             Some v \<Rightarrow> Inr v
           | None \<Rightarrow> Inr (JObj [(js ''error'', JStr text)])))"

text \<open>\<open>None\<close> is the \<open>undefined\<close> that a 204 resolves to.\<close>

definition receive :: "fetch_outcome \<Rightarrow> browser \<Rightarrow> browser \<times> json option result" where
  "receive outcome b =
     (case outcome of
        Rejected m \<Rightarrow> (b, Inl (NativeError m))
      | Response r \<Rightarrow>
          (let b' = handleUnauthorized r b in
           (b',
            if status r = 204 then Inr None
            else case readPayload r of
              Inl e \<Rightarrow> Inl e
            | Inr payload \<Rightarrow>
                (if \<not> response_ok r then Inl (ApiError (status r) (errorMessage payload (statusText r)))
                 else Inr (Some payload)))))"

definition build_request :: "js_string \<Rightarrow> request_init \<Rightarrow> headers \<Rightarrow> http_request" where
  "build_request path options hs =
     \<lparr>rq_path = path, rq_method = (case ri_method options of None \<Rightarrow> js ''GET'' | Some m \<Rightarrow> m),
      rq_headers = hs, rq_body = ri_body options\<rparr>"

definition request :: "fetch \<Rightarrow> js_string \<Rightarrow> request_init \<Rightarrow> browser \<Rightarrow> browser \<times> json option result" where
  "request fetch path options b =
     (let (st, hs) = requestHeaders options (local_storage b); b1 = b\<lparr>local_storage := st\<rparr> in
      case hs of
        Inl e \<Rightarrow> (b1, Inl e)
      | Inr headers \<Rightarrow>
          (let req = build_request path options headers in
           receive (fetch req) (b1\<lparr>sent := sent b1 @ [req]\<rparr>)))"

subsection \<open>The methods of \<open>api\<close>\<close>

record log_filter =
  lf_keyword :: "js_string option"
  lf_level :: "js_string option"
  lf_page :: "int option"
  lf_limit :: "int option"

datatype traffic_range = Today | Month

datatype api_call =
    Login js_string js_string
  | Me
  | ChangePassword js_string js_string
  | GetOverview
  | ListTokens
  | CreateToken js_string
  | SetTokenDisabled js_string bool
  | DeleteToken js_string
  | ListClients
  | GetClient js_string
  | UpdateClient js_string "js_string option" "bool option"
  | DeleteClient js_string
  | ResetClientToken js_string
  | ListTunnels
  | CreateTunnel json
  | UpdateTunnel js_string json
  | DeleteTunnel js_string
  | StartTunnel js_string
  | StopTunnel js_string
  | GetTraffic traffic_range
  | GetLogs log_filter
  | ClearLogs
  | DownloadLogs log_filter
  | GetSettings
  | UpdateSetting js_string json
  | GetTransport
  | RequestCertificate js_string js_string
  | SetTransportTLS bool
  | SetTransportPlain bool
  | SetAutoSubdomain bool js_string
  | GetRelays
  | GetRelayAssignments

definition plain_get :: request_init where
  "plain_get = \<lparr>ri_method = None, ri_headers = [], ri_body = None\<rparr>"

definition with_method :: "string \<Rightarrow> request_init" where
  "with_method m = plain_get\<lparr>ri_method := Some (js m)\<rparr>"

definition with_body :: "string \<Rightarrow> json \<Rightarrow> request_init" where
  "with_body m v = (with_method m)\<lparr>ri_body := Some (stringify v)\<rparr>"

text \<open>An object literal; a member whose value is \<open>undefined\<close> is left out by
  \<open>JSON.stringify\<close>.\<close>

definition members :: "(string \<times> json option) list \<Rightarrow> json" where
  "members ms = JObj (concat (map (\<lambda>(k, v). case v of None \<Rightarrow> [] | Some x \<Rightarrow> [(js k, x)]) ms))"

definition range_text :: "traffic_range \<Rightarrow> js_string" where
  "range_text r = (case r of Today \<Rightarrow> js ''today'' | Month \<Rightarrow> js ''month'')"

definition filter_params :: "log_filter \<Rightarrow> (js_string \<times> js_string) list" where
  "filter_params f =
     (if truthy_opt (lf_keyword f) then [(js ''keyword'', the (lf_keyword f))] else []) @
     (if truthy_opt (lf_level f) then [(js ''level'', the (lf_level f))] else [])"

definition logs_query :: "log_filter \<Rightarrow> js_string" where
  "logs_query f =
     query_text (filter_params f @
       [(js ''page'', int_text (case lf_page f of None \<Rightarrow> 1 | Some p \<Rightarrow> p)),
        (js ''limit'', int_text (case lf_limit f of None \<Rightarrow> 100 | Some l \<Rightarrow> l))])"

definition download_path :: "log_filter \<Rightarrow> js_string" where
  "download_path f = js ''/api/logs/download?'' @ query_text (filter_params f)"

fun api_target :: "api_call \<Rightarrow> (js_string \<times> request_init) result" where
  "api_target (Login u p) = Inr (js ''/api/auth/login'',
     with_body ''POST'' (members [(''username'', Some (JStr u)), (''password'', Some (JStr p))]))"
| "api_target Me = Inr (js ''/api/auth/me'', plain_get)"
| "api_target (ChangePassword cur new) = Inr (js ''/api/auth/password'',
     with_body ''POST'' (members [(''current_password'', Some (JStr cur)), (''new_password'', Some (JStr new))]))"
| "api_target GetOverview = Inr (js ''/api/overview'', plain_get)"
| "api_target ListTokens = Inr (js ''/api/tokens'', plain_get)"
| "api_target (CreateToken n) = Inr (js ''/api/tokens'', with_body ''POST'' (members [(''name'', Some (JStr n))]))"
| "api_target (SetTokenDisabled i d) = Inr (js ''/api/tokens/'' @ i,
     with_body ''PATCH'' (members [(''disabled'', Some (JBool d))]))"
| "api_target (DeleteToken i) = Inr (js ''/api/tokens/'' @ i, with_method ''DELETE'')"
| "api_target ListClients = Inr (js ''/api/clients'', plain_get)"
| "api_target (GetClient i) = Inr (js ''/api/clients/'' @ i, plain_get)"
| "api_target (UpdateClient i n d) = Inr (js ''/api/clients/'' @ i,
     with_body ''PATCH'' (members [(''name'', map_option JStr n), (''disabled'', map_option JBool d)]))"
| "api_target (DeleteClient i) = Inr (js ''/api/clients/'' @ i, with_method ''DELETE'')"
| "api_target (ResetClientToken i) = Inr (js ''/api/clients/'' @ i @ js ''/reset-token'', with_method ''POST'')"
| "api_target ListTunnels = Inr (js ''/api/tunnels'', plain_get)"
| "api_target (CreateTunnel t) = Inr (js ''/api/tunnels'', with_body ''POST'' t)"
| "api_target (UpdateTunnel i t) = Inr (js ''/api/tunnels/'' @ i, with_body ''PUT'' t)"
| "api_target (DeleteTunnel i) = Inr (js ''/api/tunnels/'' @ i, with_method ''DELETE'')"
| "api_target (StartTunnel i) = Inr (js ''/api/tunnels/'' @ i @ js ''/start'', with_method ''POST'')"
| "api_target (StopTunnel i) = Inr (js ''/api/tunnels/'' @ i @ js ''/stop'', with_method ''POST'')"
| "api_target (GetTraffic r) = Inr (js ''/api/traffic/summary?range='' @ range_text r, plain_get)"
| "api_target (GetLogs f) = Inr (js ''/api/logs?'' @ logs_query f, plain_get)"
| "api_target ClearLogs = Inr (js ''/api/logs'', with_method ''DELETE'')"
| "api_target (DownloadLogs f) = Inr (download_path f, plain_get)"
| "api_target GetSettings = Inr (js ''/api/settings'', plain_get)"
| "api_target (UpdateSetting k v) =
     (case encodeURIComponent k of
        None \<Rightarrow> Inl (NativeError (js ''URI malformed''))
      | Some e \<Rightarrow> Inr (js ''/api/settings/'' @ e, with_body ''PATCH'' (members [(''value'', Some v)])))"
| "api_target GetTransport = Inr (js ''/api/transport'', plain_get)"
| "api_target (RequestCertificate d m) = Inr (js ''/api/transport/certificates'',
     with_body ''POST'' (members [(''domain'', Some (JStr d)), (''email'', Some (JStr m))]))"
| "api_target (SetTransportTLS e) = Inr (js ''/api/transport/tls'',
     with_body ''PATCH'' (members [(''enabled'', Some (JBool e))]))"
| "api_target (SetTransportPlain e) = Inr (js ''/api/transport/plain'',
     with_body ''PATCH'' (members [(''enabled'', Some (JBool e))]))"
| "api_target (SetAutoSubdomain e d) = Inr (js ''/api/transport/auto-subdomain'',
     with_body ''PATCH'' (members [(''enabled'', Some (JBool e)), (''base_domain'', Some (JStr d))]))"
| "api_target GetRelays = Inr (js ''/api/v2/relays'', plain_get)"
| "api_target GetRelayAssignments = Inr (js ''/api/v2/relays/assignments'', plain_get)"

text \<open>A property of the resolved payload; reading one of \<open>undefined\<close> throws.\<close>

definition payload_get :: "json option \<Rightarrow> string \<Rightarrow> json option result" where
  "payload_get p key =
     (case p of
        None \<Rightarrow> Inl (NativeError (js ''Cannot read properties of undefined''))
      | Some v \<Rightarrow> json_get v (js key))"

definition finish_login :: "json option \<Rightarrow> browser \<Rightarrow> browser \<times> json option result" where
  "finish_login res b =
     (case (payload_get res ''token'', payload_get res ''token_type'') of
        (Inr token, Inr ty) \<Rightarrow>
          (b\<lparr>local_storage := saveSession token
               (if opt_truthy ty then ty else Some (JStr (js ''Bearer''))) (local_storage b)\<rparr>, Inr None)
      | (Inl e, _) \<Rightarrow> (b, Inl e)
      | (_, Inl e) \<Rightarrow> (b, Inl e))"

definition list_key :: "api_call \<Rightarrow> string option" where
  "list_key c = (case c of
     ListTokens \<Rightarrow> Some ''items'' | ListClients \<Rightarrow> Some ''items'' | ListTunnels \<Rightarrow> Some ''items''
   | GetSettings \<Rightarrow> Some ''items'' | GetRelays \<Rightarrow> Some ''nodes''
   | GetRelayAssignments \<Rightarrow> Some ''assignments'' | _ \<Rightarrow> None)"

definition finish_call :: "api_call \<Rightarrow> json option \<Rightarrow> browser \<Rightarrow> browser \<times> json option result" where
  "finish_call c res b =
     (case c of
        Login u p \<Rightarrow> finish_login res b
      | _ \<Rightarrow> (b, case list_key c of None \<Rightarrow> Inr res | Some key \<Rightarrow> payload_get res key))"

text \<open>\<open>downloadLogs\<close> does not go through \<open>request\<close>: it has its own \<open>fetch\<close>, before and after which it does this.
  The file that the browser saves is the name and the body.\<close>

definition download_send :: "log_filter \<Rightarrow> browser \<Rightarrow> browser \<times> http_request result" where
  "download_send f b =
     (let (st, hs) = requestHeaders plain_get (local_storage b); b1 = b\<lparr>local_storage := st\<rparr> in
      case hs of
        Inl e \<Rightarrow> (b1, Inl e)
      | Inr headers \<Rightarrow>
          (let req = build_request (download_path f) plain_get headers in (b1\<lparr>sent := sent b1 @ [req]\<rparr>, Inr req)))"

definition download_receive :: "fetch_outcome \<Rightarrow> browser \<Rightarrow> browser \<times> json option result" where
  "download_receive outcome b =
     (case outcome of
        Rejected m \<Rightarrow> (b, Inl (NativeError m))
      | Response r \<Rightarrow>
          (let b' = handleUnauthorized r b in
           if \<not> response_ok r then
             (b', case readPayload r of
                    Inl e \<Rightarrow> Inl e
                  | Inr p \<Rightarrow> Inl (ApiError (status r) (errorMessage p (statusText r))))
           else
             (case body r of
                Inl e \<Rightarrow> (b', Inl e)
              | Inr blob \<Rightarrow> (b'\<lparr>saved_files := saved_files b' @ [(js ''nrynet-logs.jsonl'', blob)]\<rparr>, Inr None))))"

definition downloadLogs :: "fetch \<Rightarrow> log_filter \<Rightarrow> browser \<Rightarrow> browser \<times> json option result" where
  "downloadLogs fetch f b =
     (case download_send f b of (b', Inl e) \<Rightarrow> (b', Inl e) | (b', Inr req) \<Rightarrow> download_receive (fetch req) b')"

definition api_call_run :: "fetch \<Rightarrow> api_call \<Rightarrow> browser \<Rightarrow> browser \<times> json option result" where
  "api_call_run fetch c b =
     (case c of
        DownloadLogs f \<Rightarrow> downloadLogs fetch f b
      | _ \<Rightarrow>
          (case api_target c of
             Inl e \<Rightarrow> (b, Inl e)
           | Inr (path, options) \<Rightarrow>
               (let (b', res) = request fetch path options b in
                case res of Inl e \<Rightarrow> (b', Inl e) | Inr p \<Rightarrow> finish_call c p b')))"

subsection \<open>A call in two parts\<close>

text \<open>What a call does up to \<open>fetch\<close> and what it does with the outcome, so that other things can happen while
  the request is under way.\<close>

definition api_send :: "api_call \<Rightarrow> browser \<Rightarrow> browser \<times> http_request result" where
  "api_send c b =
     (case c of
        DownloadLogs f \<Rightarrow> download_send f b
      | _ \<Rightarrow>
          (case api_target c of
             Inl e \<Rightarrow> (b, Inl e)
           | Inr (path, options) \<Rightarrow>
               (let (st, hs) = requestHeaders options (local_storage b); b1 = b\<lparr>local_storage := st\<rparr> in
                case hs of
                  Inl e \<Rightarrow> (b1, Inl e)
                | Inr headers \<Rightarrow>
                    (let req = build_request path options headers in (b1\<lparr>sent := sent b1 @ [req]\<rparr>, Inr req)))))"

definition api_answer :: "api_call \<Rightarrow> fetch_outcome \<Rightarrow> browser \<Rightarrow> browser \<times> json option result" where
  "api_answer c outcome b =
     (case c of
        DownloadLogs f \<Rightarrow> download_receive outcome b
      | _ \<Rightarrow>
          (let (b', res) = receive outcome b in
           case res of Inl e \<Rightarrow> (b', Inl e) | Inr p \<Rightarrow> finish_call c p b'))"

lemma api_call_split:
  "api_call_run fetch c b =
     (case api_send c b of (b', Inl e) \<Rightarrow> (b', Inl e) | (b', Inr req) \<Rightarrow> api_answer c (fetch req) b')"
  by (cases c)
    (auto simp: api_call_run_def downloadLogs_def api_send_def api_answer_def request_def Let_def split: sum.splits prod.splits)

subsection \<open>Facts about headers\<close>

declare map_of_obj_set [simp]

lemma toLowerCase_js_append: "toLowerCase (s @ t) = toLowerCase s @ toLowerCase t"
  by (simp add: toLowerCase_def)

lemma lower_names [simp]:
  "toLowerCase (js ''Accept'') = js ''accept''"
  "toLowerCase (js ''Content-Type'') = js ''content-type''"
  "toLowerCase (js ''Authorization'') = js ''authorization''"
  by (simp_all add: toLowerCase_def toLowerCase_unit_def js_def)

lemma json_type_ok [simp]:
  "header_normalize (js ''application/json'') = js ''application/json''"
  "header_value_ok (js ''application/json'')"
  by (simp_all add: header_normalize_def header_value_ok_def http_ws_def js_def)

definition auth_value :: "json \<Rightarrow> js_string" where
  "auth_value s = opt_String (session_get s (js ''tokenType'')) @ [0x20] @ opt_String (session_get s (js ''token''))"

lemma authHeader_eq:
  "authHeader st = (fst (getSession st),
     case snd (getSession st) of None \<Rightarrow> [] | Some s \<Rightarrow> [(js ''Authorization'', auth_value s)])"
  by (auto simp: authHeader_def auth_value_def split: prod.splits option.splits)

text \<open>The stored session, if there is one, can be put into a header.\<close>

definition sendable :: "storage \<Rightarrow> bool" where
  "sendable st = (case snd (getSession st) of
     None \<Rightarrow> True | Some s \<Rightarrow> header_value_ok (header_normalize (auth_value s)))"

definition sent_auth :: "storage \<Rightarrow> js_string option" where
  "sent_auth st = map_option (header_normalize \<circ> auth_value) (snd (getSession st))"

lemma requestHeaders_plain:
  assumes "ri_headers options = []" and "sendable st"
  obtains hs where "requestHeaders options st = (fst (getSession st), Inr hs)"
    and "header_of (js ''Authorization'') hs = sent_auth st"
    and "header_of (js ''Accept'') hs = Some (js ''application/json'')"
    and "header_of (js ''Content-Type'') hs = (if truthy_opt (ri_body options) then Some (js ''application/json'') else None)"
proof -
  define base where "base = (let hs = obj_set (js ''accept'') (js ''application/json'') [] in
    if truthy_opt (ri_body options) then obj_set (js ''content-type'') (js ''application/json'') hs else hs)"
  have eq: "requestHeaders options st = (fst (getSession st), headers_fold headers_set
      (case snd (getSession st) of None \<Rightarrow> [] | Some s \<Rightarrow> [(js ''Authorization'', auth_value s)]) base)"
    using assms(1)
    by (simp add: requestHeaders_def authHeader_eq bind_result_def headers_set_def headers_has_def base_def Let_def)
  have base: "map_of base (js ''authorization'') = None"
    "map_of base (js ''accept'') = Some (js ''application/json'')"
    "map_of base (js ''content-type'') = (if truthy_opt (ri_body options) then Some (js ''application/json'') else None)"
    by (simp_all add: base_def Let_def)
  show ?thesis
  proof (cases "snd (getSession st)")
    case None
    with base eq show ?thesis by (intro that [of base]) (simp_all add: header_of_def sent_auth_def)
  next
    case (Some s)
    with base eq assms(2) show ?thesis
      by (intro that [of "obj_set (js ''authorization'') (header_normalize (auth_value s)) base"])
        (simp_all add: header_of_def sent_auth_def sendable_def headers_set_def)
  qed
qed

lemma request_sends:
  assumes "ri_headers options = []" and "sendable (local_storage b)"
  obtains req where "request fetch path options b =
      receive (fetch req) (b\<lparr>local_storage := fst (getSession (local_storage b)), sent := sent b @ [req]\<rparr>)"
    and "rq_path req = path" and "rq_body req = ri_body options"
    and "rq_method req = (case ri_method options of None \<Rightarrow> js ''GET'' | Some m \<Rightarrow> m)"
    and "header_of (js ''Authorization'') (rq_headers req) = sent_auth (local_storage b)"
    and "header_of (js ''Accept'') (rq_headers req) = Some (js ''application/json'')"
    and "header_of (js ''Content-Type'') (rq_headers req) =
      (if truthy_opt (ri_body options) then Some (js ''application/json'') else None)"
proof -
  obtain hs where hs: "requestHeaders options (local_storage b) = (fst (getSession (local_storage b)), Inr hs)"
    and h: "header_of (js ''Authorization'') hs = sent_auth (local_storage b)"
      "header_of (js ''Accept'') hs = Some (js ''application/json'')"
      "header_of (js ''Content-Type'') hs = (if truthy_opt (ri_body options) then Some (js ''application/json'') else None)"
    using requestHeaders_plain [OF assms] by metis
  show ?thesis
  proof (rule that [of "build_request path options hs"])
    show "request fetch path options b = receive (fetch (build_request path options hs))
        (b\<lparr>local_storage := fst (getSession (local_storage b)), sent := sent b @ [build_request path options hs]\<rparr>)"
      by (simp add: request_def hs Let_def)
  qed (simp_all add: h build_request_def)
qed

text \<open>\<open>requestHeaders\<close> reads the session and changes the storage only as \<open>getSession\<close> does.\<close>

lemma requestHeaders_storage:
  "fst (requestHeaders options st) = st \<or> fst (requestHeaders options st) = fst (getSession st)"
  by (auto simp: requestHeaders_def authHeader_eq Let_def split: sum.splits)

lemma requestHeaders_session:
  "snd (getSession (fst (requestHeaders options st))) = snd (getSession st)"
  using requestHeaders_storage [of options st] by (auto simp: getSession_again)

subsection \<open>Facts about one request\<close>

lemma receive_sent [simp]: "sent (fst (receive out b)) = sent b"
  by (auto simp: receive_def handleUnauthorized_def Let_def split: fetch_outcome.splits)

lemma receive_not_401:
  "(\<And>r. out = Response r \<Longrightarrow> status r \<noteq> 401) \<Longrightarrow> fst (receive out b) = b"
  by (auto simp: receive_def handleUnauthorized_def Let_def split: fetch_outcome.splits)

lemma receive_401:
  assumes "status r = 401"
  shows "fst (receive (Response r) b) =
      b\<lparr>local_storage := clearSession (local_storage b), events := events b @ [unauthorized_event]\<rparr>"
    and "\<exists>e. snd (receive (Response r) b) = Inl e"
  using assms by (auto simp: receive_def handleUnauthorized_def response_ok_def split: sum.splits)

lemma receive_failure:
  assumes "\<not> response_ok r" and "readPayload r = Inr p"
  shows "snd (receive (Response r) b) = Inl (ApiError (status r) (errorMessage p (statusText r)))"
  using assms by (auto simp: receive_def response_ok_def)

lemma api_target_headers: "api_target c = Inr (path, options) \<Longrightarrow> ri_headers options = []"
  by (cases c) (auto simp: with_body_def with_method_def plain_get_def split: option.splits)

text \<open>The log download sends what every other call sends.\<close>

lemma api_send_eq:
  "api_send c b =
     (case api_target c of
        Inl e \<Rightarrow> (b, Inl e)
      | Inr (path, options) \<Rightarrow>
          (let (st, hs) = requestHeaders options (local_storage b); b1 = b\<lparr>local_storage := st\<rparr> in
           case hs of
             Inl e \<Rightarrow> (b1, Inl e)
           | Inr headers \<Rightarrow>
               (let req = build_request path options headers in (b1\<lparr>sent := sent b1 @ [req]\<rparr>, Inr req))))"
  by (cases c) (simp_all add: api_send_def download_send_def)

lemma not_sendable_fails:
  assumes "ri_headers options = []" "\<not> sendable st"
  shows "\<exists>e. snd (requestHeaders options st) = Inl e"
  using assms
  by (auto simp: requestHeaders_def authHeader_eq sendable_def bind_result_def headers_set_def headers_has_def
      Let_def split: option.splits sum.splits)

lemma requestHeaders_auth:
  assumes "ri_headers options = []" "snd (requestHeaders options st) = Inr hs"
  shows "header_of (js ''Authorization'') hs = sent_auth st"
proof -
  have "sendable st"
    using not_sendable_fails [OF assms(1)] assms(2) by fastforce
  then show ?thesis
    using requestHeaders_plain [OF assms(1)] assms(2) by (metis snd_conv sum.inject(2))
qed

lemma api_send_sent:
  assumes "snd (api_send c b) = Inr req"
  shows "sent (fst (api_send c b)) = sent b @ [req] \<and>
    header_of (js ''Authorization'') (rq_headers req) = sent_auth (local_storage b)"
  using assms requestHeaders_auth api_target_headers
  by (auto simp: api_send_eq build_request_def Let_def split: sum.splits prod.splits) (metis snd_conv)+

lemma api_send_failed: "snd (api_send c b) = Inl e \<Longrightarrow> sent (fst (api_send c b)) = sent b"
  by (auto simp: api_send_eq Let_def split: sum.splits prod.splits)

lemma api_send_events [simp]: "events (fst (api_send c b)) = events b"
  by (auto simp: api_send_eq Let_def split: sum.splits prod.splits)

lemma api_send_session [simp]: "snd (getSession (local_storage (fst (api_send c b)))) = snd (getSession (local_storage b))"
  using requestHeaders_session
  by (auto simp: api_send_eq Let_def split: sum.splits prod.splits) (metis fst_conv)+

text \<open>An answer that is no success fails the call, whichever it is.\<close>

lemma handleUnauthorized_401:
  "status r = 401 \<Longrightarrow>
   handleUnauthorized r b = b\<lparr>local_storage := clearSession (local_storage b), events := events b @ [unauthorized_event]\<rparr>"
  by (simp add: handleUnauthorized_def)

lemma api_answer_not_ok:
  assumes "\<not> response_ok r"
  shows "api_answer c (Response r) b =
    (handleUnauthorized r b,
     Inl (case readPayload r of Inl e \<Rightarrow> e | Inr p \<Rightarrow> ApiError (status r) (errorMessage p (statusText r))))"
proof -
  have "status r \<noteq> 204"
    using assms by (auto simp: response_ok_def)
  then show ?thesis
    using assms by (cases c) (auto simp: api_answer_def download_receive_def receive_def Let_def split: sum.splits)
qed

lemma finish_call_other: "(\<And>u p. c \<noteq> Login u p) \<Longrightarrow> fst (finish_call c res b) = b"
  by (cases c) (auto simp: finish_call_def)

lemma finish_call_events [simp]:
  "events (fst (finish_call c p b)) = events b" "sent (fst (finish_call c p b)) = sent b"
  by (cases c; auto simp: finish_call_def finish_login_def split: sum.splits prod.splits)+

lemma download_receive_fields [simp]:
  "sent (fst (download_receive outcome b)) = sent b"
  "(\<And>r. outcome = Response r \<Longrightarrow> status r \<noteq> 401) \<Longrightarrow> local_storage (fst (download_receive outcome b)) = local_storage b"
  "(\<And>r. outcome = Response r \<Longrightarrow> status r \<noteq> 401) \<Longrightarrow> events (fst (download_receive outcome b)) = events b"
  by (auto simp: download_receive_def handleUnauthorized_def Let_def split: fetch_outcome.splits sum.splits)

lemma api_answer_sent [simp]: "sent (fst (api_answer c outcome b)) = sent b"
  using receive_sent [of outcome b]
  by (cases c) (auto simp: api_answer_def simp del: receive_sent split: sum.splits prod.splits)

lemma api_answer_other:
  assumes "\<And>r. outcome = Response r \<Longrightarrow> status r \<noteq> 401" "\<And>u p. c \<noteq> Login u p"
  shows "local_storage (fst (api_answer c outcome b)) = local_storage b \<and> events (fst (api_answer c outcome b)) = events b"
proof -
  have "fst (receive outcome b) = b"
    using receive_not_401 assms(1) by blast
  then show ?thesis
    using assms by (cases c) (auto simp: api_answer_def finish_call_other split: sum.splits prod.splits)
qed

subsection \<open>Properties\<close>

text \<open>
  C13. Every method of the client, the log download included, sends exactly one request, with the
  path, the method and the body of the call, with \<open>Accept: application/json\<close>, with
  \<open>Content-Type: application/json\<close> exactly when it has a body, and with an \<open>Authorization\<close> header exactly when a
  session is stored, whose value is the stored token type and token. The only calls that send nothing are
  those whose path or stored credential cannot be written (a setting whose key cannot be encoded, a
  credential that is no header value), and they fail.
\<close>

theorem request_carries_credentials:
  "case api_target c of
     Inl e \<Rightarrow> sent (fst (api_call_run fetch c b)) = sent b \<and> snd (api_call_run fetch c b) = Inl e
   | Inr (path, options) \<Rightarrow>
       if sendable (local_storage b)
       then \<exists>req. sent (fst (api_call_run fetch c b)) = sent b @ [req] \<and>
         rq_path req = path \<and> rq_body req = ri_body options \<and>
         rq_method req = (case ri_method options of None \<Rightarrow> js ''GET'' | Some m \<Rightarrow> m) \<and>
         header_of (js ''Accept'') (rq_headers req) = Some (js ''application/json'') \<and>
         header_of (js ''Content-Type'') (rq_headers req) =
           (if truthy_opt (ri_body options) then Some (js ''application/json'') else None) \<and>
         header_of (js ''Authorization'') (rq_headers req) =
           map_option (header_normalize \<circ> auth_value) (snd (getSession (local_storage b)))
       else sent (fst (api_call_run fetch c b)) = sent b \<and> (\<exists>e. snd (api_call_run fetch c b) = Inl e)"
proof (cases "api_target c")
  case (Inl e)
  then show ?thesis
    by (simp add: api_call_split api_send_eq)
next
  case (Inr po)
  then obtain path options where t: "api_target c = Inr (path, options)"
    by (cases po) simp
  note h = api_target_headers [OF t]
  show ?thesis
  proof (cases "sendable (local_storage b)")
    case True
    obtain hs where "requestHeaders options (local_storage b) = (fst (getSession (local_storage b)), Inr hs)"
      "header_of (js ''Authorization'') hs = sent_auth (local_storage b)"
      "header_of (js ''Accept'') hs = Some (js ''application/json'')"
      "header_of (js ''Content-Type'') hs = (if truthy_opt (ri_body options) then Some (js ''application/json'') else None)"
      by (rule requestHeaders_plain [OF h True])
    then show ?thesis
      using t True by (simp add: api_call_split api_send_eq build_request_def sent_auth_def comp_def Let_def)
  next
    case False
    then show ?thesis
      using t not_sendable_fails [OF h False] by (auto simp: api_call_split api_send_eq split: prod.splits)
  qed
qed

theorem request_carries_credentials_witness:
  "\<exists>req. sent (fst (api_call_run (\<lambda>q. Rejected []) (DownloadLogs \<lparr>lf_keyword = None, lf_level = None, lf_page = None, lf_limit = None\<rparr>)
      \<lparr>local_storage = saveSession (Some (JStr (js ''abc''))) (Some (JStr (js ''Bearer''))) Map.empty,
       events = [], sent = [], saved_files = []\<rparr>)) = [req] \<and>
    header_of (js ''Authorization'') (rq_headers req) = Some (js ''Bearer abc'')"
proof -
  let ?st = "saveSession (Some (JStr (js ''abc''))) (Some (JStr (js ''Bearer''))) Map.empty"
  let ?b = "\<lparr>local_storage = ?st, events = [], sent = [], saved_files = []\<rparr>"
  let ?c = "DownloadLogs \<lparr>lf_keyword = None, lf_level = None, lf_page = None, lf_limit = None\<rparr>"
  have gs: "snd (getSession ?st) = Some (session_object (Some (JStr (js ''abc''))) (Some (JStr (js ''Bearer''))))"
    by (simp add: getSession_saved json_truthy_def)
  have av: "header_normalize (auth_value (session_object (Some (JStr (js ''abc''))) (Some (JStr (js ''Bearer'')))))
      = js ''Bearer abc''"
    by (simp add: auth_value_def session_get_def opt_String_def)
      (simp add: header_normalize_def http_ws_def js_def)
  have "sendable (local_storage ?b)"
    by (simp add: sendable_def gs av) (simp add: header_value_ok_def js_def)
  then show ?thesis
    using request_carries_credentials [where c = ?c and fetch = "\<lambda>q. Rejected []" and b = ?b] by (auto simp: gs av)
qed

text \<open>
  C10. Whatever call of the client sends a request that the server answers with 401, the log download
  included: the call fails, no session is left in the storage and \<open>nrynet:unauthorized\<close> has been
  dispatched once; with a readable body the error is an \<open>ApiError\<close> of status 401 with a Chinese text.
\<close>

theorem unauthorized_logs_out:
  assumes "sent (fst (api_call_run fetch c b)) = sent b @ [q]" and "fetch q = Response r" and "status r = 401"
  shows "snd (getSession (local_storage (fst (api_call_run fetch c b)))) = None \<and>
    events (fst (api_call_run fetch c b)) = events b @ [unauthorized_event] \<and>
    (\<exists>e. snd (api_call_run fetch c b) = Inl e) \<and>
    (\<forall>p. readPayload r = Inr p \<longrightarrow>
       (\<exists>m. snd (api_call_run fetch c b) = Inl (ApiError 401 m) \<and> hasChinese m))"
proof -
  have not_ok: "\<not> response_ok r"
    using assms(3) by (simp add: response_ok_def)
  obtain req where req: "snd (api_send c b) = Inr req"
    using assms(1) api_send_failed [of c b] by (cases "snd (api_send c b)") (auto simp: api_call_split split: prod.splits)
  then have run: "api_call_run fetch c b = api_answer c (fetch req) (fst (api_send c b))"
    by (auto simp: api_call_split split: prod.splits)
  have "req = q"
    using assms(1) api_send_sent [OF req] by (simp add: run)
  then have "fetch req = Response r"
    using assms(2) by simp
  then have "api_call_run fetch c b = (handleUnauthorized r (fst (api_send c b)),
      Inl (case readPayload r of Inl e \<Rightarrow> e | Inr p \<Rightarrow> ApiError (status r) (errorMessage p (statusText r))))"
    by (simp add: run api_answer_not_ok [OF not_ok])
  then show ?thesis
    using assms(3) errorMessage_is_chinese by (auto simp: handleUnauthorized_401)
qed

theorem unauthorized_logs_out_witness:
  "snd (getSession (local_storage (fst (api_call_run
      (\<lambda>q. Response \<lparr>status = 401, statusText = [], body = Inr (js ''nope'')\<rparr>)
      (DownloadLogs \<lparr>lf_keyword = None, lf_level = None, lf_page = None, lf_limit = None\<rparr>)
      \<lparr>local_storage = Map.empty, events = [], sent = [], saved_files = []\<rparr>)))) = None"
proof -
  let ?r = "\<lparr>status = 401, statusText = [], body = Inr (js ''nope'')\<rparr> :: response"
  let ?b = "\<lparr>local_storage = Map.empty, events = [], sent = [], saved_files = []\<rparr>"
  let ?c = "DownloadLogs \<lparr>lf_keyword = None, lf_level = None, lf_page = None, lf_limit = None\<rparr>"
  have "sendable (local_storage ?b)" "ri_headers plain_get = []"
    by (simp_all add: sendable_def plain_get_def)
  then obtain hs where "requestHeaders plain_get Map.empty = (fst (getSession Map.empty), Inr hs)"
    using requestHeaders_plain [of plain_get "local_storage ?b"] by auto
  then have "sent (fst (api_call_run (\<lambda>q. Response ?r) ?c ?b)) = sent ?b @ [build_request (download_path
      \<lparr>lf_keyword = None, lf_level = None, lf_page = None, lf_limit = None\<rparr>) plain_get hs]"
    by (simp add: api_call_split api_send_eq Let_def)
  then show ?thesis
    by (rule unauthorized_logs_out [where r = ?r, THEN conjunct1]) simp_all
qed

text \<open>
  Any call but \<open>login\<close>, answered with anything but 401, leaves the session as
  \<open>getSession\<close> reports it unchanged and dispatches no event.
\<close>

lemma session_only_changed_by_login_or_401:
  assumes "\<And>u p. c \<noteq> Login u p" and "\<And>q r. fetch q = Response r \<Longrightarrow> status r \<noteq> 401"
  shows "snd (getSession (local_storage (fst (api_call_run fetch c b)))) = snd (getSession (local_storage b)) \<and>
    events (fst (api_call_run fetch c b)) = events b"
  using api_answer_other [OF assms(2,1)] by (auto simp: api_call_split split: prod.splits sum.splits) (metis api_send_session api_send_events fst_conv)+

text \<open>
  C26. An answer whose status is not a success (2xx) and whose body can be read makes the
  call fail with an \<open>ApiError\<close> that carries this status and a text with Chinese characters,
  whatever the server wrote; a text that is Chinese already is passed on unchanged.
\<close>

theorem failure_is_reported_in_chinese:
  assumes "\<not> response_ok r" and "body r = Inr text"
  shows "\<exists>m. snd (receive (Response r) b) = Inl (ApiError (status r) m) \<and> hasChinese m \<and>
    (\<forall>v. JSON_parse text = Some (JObj [(js ''error'', JStr v)]) \<and> hasChinese v \<longrightarrow> m = v)"
proof -
  obtain p where p: "readPayload r = Inr p"
    using assms(2) by (cases "readPayload r") (auto simp: readPayload_def split: if_splits option.splits)
  have "JSON_parse [] = None" by (simp add: JSON_parse_def numeral_2_eq_2 skip_ws_def)
  then have "p = JObj [(js ''error'', JStr v)]" if "JSON_parse text = Some (JObj [(js ''error'', JStr v)])" for v
    using p assms(2) that by (auto simp: readPayload_def split: if_splits)
  then show ?thesis
    using receive_failure [OF assms(1) p] errorMessage_is_chinese
    by (auto simp: errorMessage_def localized_kept)
qed

theorem failure_is_reported_in_chinese_witness:
  "\<exists>m. snd (receive (Response \<lparr>status = 500, statusText = [], body = Inr (js ''boom'')\<rparr>)
      \<lparr>local_storage = Map.empty, events = [], sent = [], saved_files = []\<rparr>) = Inl (ApiError 500 m) \<and> hasChinese m"
  using failure_is_reported_in_chinese [of "\<lparr>status = 500, statusText = [], body = Inr (js ''boom'')\<rparr>" "js ''boom''"
      "\<lparr>local_storage = Map.empty, events = [], sent = [], saved_files = []\<rparr>"]
  by (auto simp: response_ok_def)

text \<open>The type the client stores with a token: the server's \<open>token_type\<close>, or \<open>Bearer\<close> when it
  is missing or empty.\<close>

definition stored_type :: "(js_string \<times> json) list \<Rightarrow> js_string" where
  "stored_type ms = (case map_of ms (js ''token_type'') of
     Some (JStr ty) \<Rightarrow> if truthy ty then ty else js ''Bearer'' | _ \<Rightarrow> js ''Bearer'')"

lemma finish_login_token:
  assumes "map_of ms (js ''token'') = Some (JStr t)"
    and "map_of ms (js ''token_type'') = None \<or> (\<exists>ty. map_of ms (js ''token_type'') = Some (JStr ty))"
  shows "finish_login (Some (JObj ms)) b =
    (b\<lparr>local_storage := saveSession (Some (JStr t)) (Some (JStr (stored_type ms))) (local_storage b)\<rparr>, Inr None)"
  using assms
  by (auto simp: finish_login_def payload_get_def json_get_def opt_truthy_def json_truthy_def stored_type_def)

lemma receive_success:
  assumes "response_ok r" and "status r \<noteq> 204" and "body r = Inr text" and "JSON_parse text = Some v"
  shows "receive (Response r) b = (b, Inr (Some v))"
proof -
  have "JSON_parse [] = None" by (simp add: JSON_parse_def numeral_2_eq_2 skip_ws_def)
  then show ?thesis
    using assms by (auto simp: receive_def handleUnauthorized_def readPayload_def response_ok_def)
qed

text \<open>
  C12. A login that the server answers with a token resolves, the token is stored with its
  type (\<open>Bearer\<close> by default), and the next request carries the header
  \<open>Authorization: <type> <token>\<close>.
\<close>

theorem login_authorizes_later_requests:
  assumes "sendable (local_storage b)" and "\<And>q. fetch q = Response r"
    and "response_ok r" and "status r \<noteq> 204" and "body r = Inr text"
    and "JSON_parse text = Some (JObj ms)" and "map_of ms (js ''token'') = Some (JStr t)" and "t \<noteq> []"
    and "map_of ms (js ''token_type'') = None \<or> (\<exists>ty. map_of ms (js ''token_type'') = Some (JStr ty))"
    and "header_value_ok (header_normalize (stored_type ms @ [0x20] @ t))"
  shows "\<exists>b' req. api_call_run fetch (Login u p) b = (b', Inr None) \<and>
    snd (getSession (local_storage b')) = Some (session_object (Some (JStr t)) (Some (JStr (stored_type ms)))) \<and>
    sent (fst (request fetch' path plain_get b')) = sent b' @ [req] \<and>
    header_of (js ''Authorization'') (rq_headers req) = Some (header_normalize (stored_type ms @ [0x20] @ t))"
proof -
  obtain path' options where tgt: "api_target (Login u p) = Inr (path', options)" by simp
  obtain req where req: "request fetch path' options b =
      receive (fetch req) (b\<lparr>local_storage := fst (getSession (local_storage b)), sent := sent b @ [req]\<rparr>)"
    using request_sends [OF api_target_headers [OF tgt] assms(1)] by metis
  define b' where "b' = b\<lparr>local_storage := saveSession (Some (JStr t)) (Some (JStr (stored_type ms)))
      (fst (getSession (local_storage b))), sent := sent b @ [req]\<rparr>"
  have run: "api_call_run fetch (Login u p) b = (b', Inr None)"
    using tgt req assms
    by (simp add: api_call_run_def receive_success finish_call_def finish_login_token b'_def)
  let ?s = "session_object (Some (JStr t)) (Some (JStr (stored_type ms)))"
  have gs: "snd (getSession (local_storage b')) = Some ?s"
    using assms(8) by (simp add: b'_def getSession_saved json_truthy_def)
  have av: "auth_value ?s = stored_type ms @ [0x20] @ t"
    by (simp add: auth_value_def session_get_def opt_String_def)
  have "sendable (local_storage b')" using assms(10) by (simp add: sendable_def gs av)
  moreover have "ri_headers plain_get = []" by (simp add: plain_get_def)
  ultimately obtain req' where
    "request fetch' path plain_get b' =
      receive (fetch' req') (b'\<lparr>local_storage := fst (getSession (local_storage b')), sent := sent b' @ [req']\<rparr>)"
    and "header_of (js ''Authorization'') (rq_headers req') = sent_auth (local_storage b')"
    using request_sends [of plain_get b' fetch' path] by metis
  then show ?thesis
    using run gs av by (intro exI [of _ b'] exI [of _ req']) (simp add: sent_auth_def)
qed

theorem login_authorizes_later_requests_witness:
  "\<exists>b' req. api_call_run
      (\<lambda>q. Response \<lparr>status = 200, statusText = [], body = Inr (stringify (JObj [(js ''token'', JStr (js ''jwt''))]))\<rparr>)
      (Login (js ''admin'') (js ''pw'')) \<lparr>local_storage = Map.empty, events = [], sent = [], saved_files = []\<rparr> = (b', Inr None) \<and>
    sent (fst (request (\<lambda>q. Rejected []) (js ''/api/tokens'') plain_get b')) = sent b' @ [req] \<and>
    header_of (js ''Authorization'') (rq_headers req) = Some (js ''Bearer jwt'')"
proof -
  let ?ms = "[(js ''token'', JStr (js ''jwt''))]"
  let ?r = "\<lparr>status = 200, statusText = [], body = Inr (stringify (JObj ?ms))\<rparr>"
  have ty: "stored_type ?ms = js ''Bearer''" by (simp add: stored_type_def)
  have hn: "header_normalize (js ''Bearer'' @ [0x20] @ js ''jwt'') = js ''Bearer jwt''"
    by (simp add: header_normalize_def http_ws_def js_def)
  have ok: "header_value_ok (js ''Bearer jwt'')" by (simp add: header_value_ok_def js_def)
  have "JSON_parse (stringify (JObj ?ms)) = Some (JObj ?ms)" by (rule parse_stringify_json) simp
  then show ?thesis
    using login_authorizes_later_requests [of "\<lparr>local_storage = Map.empty, events = [], sent = [], saved_files = []\<rparr>"
        "\<lambda>q. Response ?r" ?r "stringify (JObj ?ms)" ?ms "js ''jwt''" "js ''admin''" "js ''pw''"
        "\<lambda>q. Rejected []" "js ''/api/tokens''"] ok
    unfolding ty hn by (auto simp: sendable_def response_ok_def)
qed

text \<open>
  The path of \<open>updateSetting\<close> is \<open>/api/settings/\<close> followed by exactly one segment: the
  encoded key has no slash, question mark or number sign, and it decodes to the key.
\<close>

lemma setting_key_stays_in_its_segment:
  assumes "api_target (UpdateSetting key v) = Inr (path, options)"
  shows "\<exists>e. path = js ''/api/settings/'' @ e \<and> {0x2F, 0x3F, 0x23} \<inter> set e = {} \<and>
    decodeURIComponent e = Some key"
proof -
  from assms obtain e where e: "encodeURIComponent key = Some e" "path = js ''/api/settings/'' @ e"
    by (auto split: option.splits)
  have "c \<notin> {0x2F, 0x3F, 0x23}" if "c \<in> set e" for c
    using segment_unit_no_delim [OF encodeURIComponent_units [OF e(1) that]] by auto
  then show ?thesis using e decode_encode by blast
qed

text \<open>
  Every call of the client goes to a path below \<open>/api/\<close>, with one of the methods GET,
  POST, PUT, PATCH and DELETE, and has a JSON body unless it is a GET or a DELETE or a POST
  without arguments.
\<close>

lemma api_calls_stay_under_api:
  assumes "api_target c = Inr (path, options)"
  shows "startsWith path (js ''/api/'') \<and> ri_headers options = [] \<and>
    ri_method options \<in> {None, Some (js ''POST''), Some (js ''PUT''), Some (js ''PATCH''), Some (js ''DELETE'')} \<and>
    (ri_body options = None \<or> (\<exists>v. ri_body options = Some (stringify v)))"
  using assms
  by (cases c) (auto simp: with_body_def with_method_def plain_get_def download_path_def startsWith_iff js_def split: option.splits)

end
