(* ===== verification/Async_Hook.thy ===== *)
theory Async_Hook
  imports Api_Client
begin

text \<open>
  The loading hook of the pages (\<open>web/dashboard/src/hooks/useAsync.ts\<close>). Its state is the
  record the hook returns; a load is two steps, the start and the settlement of its
  promise, and any number of loads may be under way: a change of the dependencies, a click
  on reload and a timer each start one without waiting for the others. The model numbers
  the loads in the order of their starts.
\<close>

subsection \<open>Errors as texts\<close>

definition msg_missing_endpoint :: js_string where
  "msg_missing_endpoint = [0x63A5, 0x53E3, 0x5C1A, 0x672A, 0x63D0, 0x4F9B, 0x6216, 0x8D44, 0x6E90, 0x4E0D,
    0x5B58, 0x5728]"

definition msg_failed :: js_string where
  "msg_failed = [0x8BF7, 0x6C42, 0x5931, 0x8D25]"

definition toMessage :: "exn \<Rightarrow> js_string" where
  "toMessage e =
     (case e of
        ApiError st m \<Rightarrow> if st = 404 then msg_missing_endpoint else m
      | NativeError m \<Rightarrow> m
      | NonError v \<Rightarrow> msg_failed)"

subsection \<open>The state of the hook\<close>

record 'a async_state =
  data :: "'a option"
  loading :: bool
  error :: "js_string option"

definition initial_state :: "'a async_state" where
  "initial_state = \<lparr>data = None, loading = True, error = None\<rparr>"

definition load_begin :: "'a async_state \<Rightarrow> 'a async_state" where
  "load_begin s = s\<lparr>loading := True, error := None\<rparr>"

definition load_settle :: "'a result \<Rightarrow> 'a async_state" where
  "load_settle r =
     (case r of
        Inr d \<Rightarrow> \<lparr>data = Some d, loading = False, error = None\<rparr>
      | Inl e \<Rightarrow> \<lparr>data = None, loading = False, error = Some (toMessage e)\<rparr>)"

subsection \<open>Overlapping loads\<close>

record 'a hook =
  view :: "'a async_state"
  started :: nat
  in_flight :: "nat list"

datatype 'a hook_event = Begin | Settle nat "'a result"

definition mounted :: "'a hook" where
  "mounted = \<lparr>view = initial_state, started = 0, in_flight = []\<rparr>"

text \<open>A load settles once; a settlement of a load that is not under way does nothing.\<close>

fun hook_step :: "'a hook \<Rightarrow> 'a hook_event \<Rightarrow> 'a hook" where
  "hook_step h Begin =
     h\<lparr>view := load_begin (view h), started := Suc (started h), in_flight := in_flight h @ [started h]\<rparr>"
| "hook_step h (Settle i r) =
     (if i \<in> set (in_flight h)
      then h\<lparr>view := load_settle r, in_flight := removeAll i (in_flight h)\<rparr> else h)"

definition hook_run :: "'a hook \<Rightarrow> 'a hook_event list \<Rightarrow> 'a hook" where
  "hook_run = foldl hook_step"

lemma hook_run_simps [simp]:
  "hook_run h [] = h" "hook_run h (e # es) = hook_run (hook_step h e) es"
  "hook_run h (es @ es') = hook_run (hook_run h es) es'"
  by (simp_all add: hook_run_def)

subsection \<open>Invariant\<close>

definition hook_inv :: "'a hook \<Rightarrow> bool" where
  "hook_inv h \<longleftrightarrow>
     (loading (view h) \<longrightarrow> error (view h) = None) \<and>
     (\<not> loading (view h) \<longrightarrow> (data (view h) = None) = (error (view h) \<noteq> None)) \<and>
     (0 < started h \<and> in_flight h = [] \<longrightarrow> \<not> loading (view h)) \<and>
     distinct (in_flight h) \<and> (\<forall>i \<in> set (in_flight h). i < started h)"

lemma hook_inv_mounted: "hook_inv mounted"
  by (simp add: hook_inv_def mounted_def initial_state_def)

lemma hook_inv_step: "hook_inv h \<Longrightarrow> hook_inv (hook_step h e)"
  by (cases e) (auto simp: hook_inv_def load_begin_def load_settle_def distinct_removeAll less_SucI split: sum.splits)

lemma hook_inv_run: "hook_inv h \<Longrightarrow> hook_inv (hook_run h es)"
  by (induction es arbitrary: h) (auto simp: hook_inv_step)

subsection \<open>Properties\<close>

text \<open>
  C39. After any sequence of starts and settlements: while a load is shown as running there is
  no error text; once nothing is shown as running there is exactly one of data and error;
  and when every started load has settled the page no longer shows a running load.
\<close>

theorem hook_state_is_consistent:
  "(loading (view (hook_run mounted es)) \<longrightarrow> error (view (hook_run mounted es)) = None) \<and>
   (\<not> loading (view (hook_run mounted es)) \<longrightarrow>
      (data (view (hook_run mounted es)) = None) = (error (view (hook_run mounted es)) \<noteq> None)) \<and>
   (0 < started (hook_run mounted es) \<and> in_flight (hook_run mounted es) = [] \<longrightarrow>
      \<not> loading (view (hook_run mounted es)))"
  using hook_inv_run [OF hook_inv_mounted] by (auto simp: hook_inv_def)

theorem hook_state_is_consistent_witness:
  "\<not> loading (view (hook_run mounted [Begin, Settle 0 (Inr (7 :: nat))]))"
  using hook_state_is_consistent [of "[Begin, Settle 0 (Inr (7 :: nat))]"] by (simp add: mounted_def)

text \<open>
  A load that starts when none is under way and settles before another starts determines
  what is shown: its data, or the text of its error and no data.
\<close>

lemma lone_load_shows_its_result:
  "in_flight h = [] \<Longrightarrow>
   view (hook_run h [Begin, Settle (started h) r]) =
     (case r of
        Inr d \<Rightarrow> \<lparr>data = Some d, loading = False, error = None\<rparr>
      | Inl e \<Rightarrow> \<lparr>data = None, loading = False, error = Some (toMessage e)\<rparr>)"
  by (simp add: load_settle_def split: sum.splits)

text \<open>
  Overlapping loads are not ordered: when a second load (say, for the next page of the
  log) has settled and the first one settles after it, the page shows the first load's
  data, which belongs to dependencies that are no longer the current ones, and nothing is
  under way that would correct it.
\<close>

lemma stale_answer_overwrites_newer:
  "\<exists>es. last es = Settle 0 (Inr old) \<and> Settle 1 (Inr new) \<in> set es \<and>
     data (view (hook_run mounted es)) = Some old \<and> \<not> loading (view (hook_run mounted es)) \<and>
     in_flight (hook_run mounted es) = [] \<and> started (hook_run mounted es) = 2"
  by (rule exI [of _ "[Begin, Begin, Settle 1 (Inr new), Settle 0 (Inr old)]"])
    (simp add: mounted_def load_settle_def)

text \<open>
  When \<open>fetch\<close> itself rejects, no message is localized: the text the user sees is the
  browser's own message, although the chain of \<open>mappedErrorMessage\<close> has an entry for
  \<open>failed to fetch\<close>, which only texts sent by the server can reach.
\<close>

lemma network_failure_text_is_not_localized:
  "snd (receive (Rejected m) b) = Inl e \<Longrightarrow> toMessage e = m"
  by (auto simp: receive_def toMessage_def)

end
