(* ===== verification/Dashboard_Types.thy ===== *)
theory Dashboard_Types
  imports Json
begin

text \<open>
  The interfaces of \<open>web/dashboard/src/types.ts\<close> as records. An optional property is an
  \<open>option\<close>; the counters and ports, which the server sends as JSON integers, are \<open>int\<close>. The
  field names carry a prefix, since a field of an Isabelle record is a constant.
\<close>

record session_user =
  su_sub :: "js_string option"
  su_username :: "js_string option"
  su_exp :: "int option"

record token =
  tk_id :: js_string
  tk_name :: js_string
  tk_prefix :: js_string
  tk_disabled :: bool
  tk_last_used :: "js_string option"
  tk_created_at :: js_string

record client =
  cl_id :: js_string
  cl_name :: js_string
  cl_device_id :: js_string
  cl_token_id :: js_string
  cl_status :: js_string
  cl_disabled :: bool
  cl_ip :: js_string
  cl_os :: js_string
  cl_version :: js_string
  cl_last_online :: js_string
  cl_created_at :: js_string

record traffic_summary =
  ts_upload :: int
  ts_download :: int

record tunnel =
  tn_id :: js_string
  tn_client_id :: js_string
  tn_name :: js_string
  tn_protocol :: js_string
  tn_visitor_token :: "js_string option"
  tn_local_host :: js_string
  tn_local_port :: int
  tn_remote_port :: int
  tn_domain :: js_string
  tn_status :: js_string
  tn_ip_allowlist :: "js_string list"
  tn_created_at :: js_string
  tn_updated_at :: js_string

record client_detail =
  cd_client :: client
  cd_tunnels :: "tunnel list"
  cd_connected_at :: "js_string option"
  cd_connected_seconds :: int
  cd_today :: traffic_summary
  cd_month :: traffic_summary

record dash_traffic_point =
  tpo_tunnel_id :: "js_string option"
  tpo_upload :: int
  tpo_download :: int
  tpo_created_at :: "js_string option"
  tpo_at :: "js_string option"

record traffic_target =
  tt_id :: js_string
  tt_name :: js_string
  tt_upload :: int
  tt_download :: int

record traffic_response =
  tr_summary :: traffic_summary
  tr_clients :: "traffic_target list"
  tr_tunnels :: "traffic_target list"
  tr_since :: js_string

record overview =
  ov_status :: js_string
  ov_uptime_seconds :: int
  ov_online_clients :: int
  ov_total_clients :: int
  ov_active_tunnels :: int
  ov_total_tunnels :: int
  ov_connections :: int
  ov_bandwidth_bps :: int
  ov_today_upload :: int
  ov_today_download :: int

record log_entry =
  le_id :: "js_string option"
  le_level :: js_string
  le_event :: "js_string option"
  le_message :: js_string
  le_source :: "js_string option"
  le_created_at :: "js_string option"

text \<open>The value of a setting is a string, a number or a boolean.\<close>

record setting_item =
  si_key :: js_string
  si_value :: json
  si_description :: "js_string option"
  si_mutable :: "bool option"

record transport_endpoint =
  te_enabled :: bool
  te_listen :: "js_string option"
  te_data_listen :: "js_string option"
  te_control_url :: "js_string option"
  te_websocket_url :: "js_string option"
  te_data_address :: "js_string option"

record transport_certificate =
  tc_domain :: "js_string option"
  tc_issuer :: "js_string option"
  tc_not_after :: "js_string option"
  tc_status :: "js_string option"
  tc_error :: "js_string option"
  tc_details :: "js_string option"

record transport_certbot =
  cb_available :: bool
  cb_message :: "js_string option"
  cb_version :: "js_string option"

record transport_auto_subdomain =
  as_enabled :: bool
  as_base_domain :: "js_string option"
  as_suffix_example :: "js_string option"

record transport_status =
  st_plain :: transport_endpoint
  st_compatibility_plain :: transport_endpoint
  st_tls :: transport_endpoint
  st_certbot :: transport_certbot
  st_certificate :: "transport_certificate option"
  st_auto_subdomain :: "transport_auto_subdomain option"

record relay_node =
  rn_id :: js_string
  rn_address :: js_string
  rn_control_address :: "js_string option"
  rn_connections :: int
  rn_healthy :: bool
  rn_last_seen :: js_string

record relay_assignment =
  ra_tunnel_id :: js_string
  ra_node_id :: js_string
  ra_address :: js_string

end
