(* ===== verification/Dash_Format.thy ===== *)
theory Dash_Format
  imports Dashboard_Types
begin

text \<open>
  The display helpers of the dashboard: \<open>utils/format.ts\<close>, \<open>display/status.ts\<close> and the
  components \<open>StatusTag\<close> and \<open>Page\<close>.

  \<^item> A counter is a \<open>number\<close>; \<open>Math.floor(Math.log(b) / Math.log(1024))\<close> is the exact
    \<open>log1024_floor\<close>, which \<open>log1024_floor_log\<close> identifies with the floor of the real
    logarithm (ECMAScript leaves the rounding of \<open>Math.log\<close> to the implementation).
  \<^item> Reading a date and printing it in the user's locale are parameters: \<open>parse\<close> is
    \<open>new Date(v).getTime()\<close>, \<open>None\<close> for an invalid date, and \<open>locale\<close> prints a time value.
  \<^item> \<open>statusLabels\<close> is an object literal; its own keys are modelled, not the keys every
    object inherits.
  \<^item> A component is the record of the values its JSX puts on the screen.
\<close>

subsection \<open>Dates\<close>

type_synonym parse_date = "js_string \<Rightarrow> int option"
type_synonym locale_date = "int \<Rightarrow> js_string"

definition dash :: js_string where
  "dash = js ''-''"

definition formatDate :: "parse_date \<Rightarrow> locale_date \<Rightarrow> js_string option \<Rightarrow> js_string" where
  "formatDate parse locale v =
     (if \<not> truthy_opt v then dash
      else case parse (the v) of None \<Rightarrow> dash | Some t \<Rightarrow> locale t)"

subsection \<open>Sizes, rates, durations\<close>

fun log1024_nat :: "nat \<Rightarrow> nat" where
  "log1024_nat n = (if n < 1024 then 0 else Suc (log1024_nat (n div 1024)))"

declare log1024_nat.simps [simp del]

definition log1024_floor :: "rat \<Rightarrow> int" where
  "log1024_floor x =
     (if 1 \<le> x then int (log1024_nat (nat \<lfloor>x\<rfloor>))
      else - int (Suc (log1024_nat (nat (\<lceil>1 / x\<rceil> - 1)))))"

definition byte_units :: "js_string list" where
  "byte_units = [js ''B'', js ''KB'', js ''MB'', js ''GB'', js ''TB'']"

text \<open>\<open>units[index]\<close> in a template literal.\<close>

definition unit_text :: "int \<Rightarrow> js_string" where
  "unit_text index =
     (if 0 \<le> index \<and> nat index < length byte_units then byte_units ! nat index else js ''undefined'')"

text \<open>\<open>1024 ** index\<close>\<close>

definition pow1024 :: "int \<Rightarrow> rat" where
  "pow1024 i = (if 0 \<le> i then 1024 ^ nat i else 1 / 1024 ^ nat (- i))"

definition formatBytes :: "number \<Rightarrow> js_string" where
  "formatBytes bytes =
     (case bytes of
        Fin x \<Rightarrow>
          (if x \<le> 0 then js ''0 B''
           else
             (let index = min (log1024_floor x) (int (length byte_units) - 1) in
              toFixed (x / pow1024 index) (if index = 0 then 0 else 1) @ [0x20] @ unit_text index))
      | _ \<Rightarrow> js ''0 B'')"

definition bytes_text :: "int \<Rightarrow> js_string" where
  "bytes_text n = formatBytes (Fin (of_int n))"

definition per_second :: js_string where
  "per_second = [0x2F, 0x79D2]"

definition formatRate :: "number \<Rightarrow> js_string" where
  "formatRate bytesPerSecond = formatBytes bytesPerSecond @ per_second"

definition txt_days :: js_string where
  "txt_days = [0x5929, 0x20]"
definition txt_hours :: js_string where
  "txt_hours = [0x5C0F, 0x65F6]"
definition txt_minutes :: js_string where
  "txt_minutes = [0x5206, 0x949F]"
definition txt_seconds :: js_string where
  "txt_seconds = [0x79D2]"

definition formatDuration :: "number \<Rightarrow> js_string" where
  "formatDuration seconds =
     (case seconds of
        Fin x \<Rightarrow>
          (if x < 0 then dash
           else
             (let whole = \<lfloor>x\<rfloor>; days = whole div 86400; hours = whole mod 86400 div 3600;
                  minutes = whole mod 3600 div 60 in
              if days > 0 then int_text days @ txt_days @ int_text hours @ txt_hours
              else if hours > 0 then int_text hours @ txt_hours @ [0x20] @ int_text minutes @ txt_minutes
              else if minutes > 0 then int_text minutes @ txt_minutes
              else int_text whole @ txt_seconds))
      | _ \<Rightarrow> dash)"

definition isOnline :: "js_string \<Rightarrow> bool option \<Rightarrow> bool" where
  "isOnline s disabled =
     (if disabled = Some True then False
      else List.member [js ''online'', js ''running'', js ''active''] (toLowerCase s))"

definition sumBy :: "'a list \<Rightarrow> ('a \<Rightarrow> int) \<Rightarrow> int" where
  "sumBy items selector = foldl (\<lambda>total item. total + selector item) 0 items"

subsection \<open>Status labels\<close>

definition label_unknown :: js_string where
  "label_unknown = [0x672A, 0x77E5]"

definition statusLabels :: "(js_string \<times> js_string) list" where
  "statusLabels =
    [(js ''active'', [0x6D3B, 0x8DC3]), (js ''disabled'', [0x5DF2, 0x7981, 0x7528]),
     (js ''error'', [0x9519, 0x8BEF]), (js ''healthy'', [0x5065, 0x5EB7]),
     (js ''offline'', [0x79BB, 0x7EBF]), (js ''online'', [0x5728, 0x7EBF]),
     (js ''running'', [0x8FD0, 0x884C, 0x4E2D]), (js ''stopped'', [0x5DF2, 0x505C, 0x6B62]),
     (js ''unknown'', label_unknown), (js ''warn'', [0x8B66, 0x544A])]"

definition statusText :: "js_string option \<Rightarrow> js_string" where
  "statusText v =
     (if \<not> truthy_opt v then label_unknown
      else case map_of statusLabels (toLowerCase (the v)) of None \<Rightarrow> label_unknown | Some l \<Rightarrow> l)"

record tag_view =
  tag_color :: js_string
  tag_text :: js_string

definition StatusTag :: "js_string \<Rightarrow> tag_view" where
  "StatusTag v =
     (let normalized = toLowerCase v in
      \<lparr>tag_color = (if normalized = js ''online'' \<or> normalized = js ''running'' then js ''green''
                   else if normalized = js ''disabled'' then js ''red'' else js ''default''),
       tag_text = statusText (Some v)\<rparr>)"

subsection \<open>The page shell\<close>

record page_view =
  pg_title :: js_string
  pg_reload_button :: bool
  pg_alert :: "js_string option"
  pg_spinning :: bool

definition Page :: "js_string \<Rightarrow> bool option \<Rightarrow> js_string option \<Rightarrow> bool \<Rightarrow> page_view" where
  "Page title is_loading err has_reload =
     \<lparr>pg_title = title, pg_reload_button = has_reload,
      pg_alert = (if truthy_opt err then err else None),
      pg_spinning = (is_loading = Some True)\<rparr>"

subsection \<open>The index of a size\<close>

lemma log1024_nat_bounds:
  "0 < n \<Longrightarrow> 1024 ^ log1024_nat n \<le> n \<and> n < 1024 ^ Suc (log1024_nat n)"
proof (induction n rule: log1024_nat.induct)
  case (1 n)
  show ?case
  proof (cases "n < 1024")
    case True
    with 1(2) show ?thesis by (subst (1 2) log1024_nat.simps) simp
  next
    case False
    then have IH: "1024 ^ log1024_nat (n div 1024) \<le> n div 1024"
      "n div 1024 < 1024 ^ Suc (log1024_nat (n div 1024))"
      using 1(1) by (auto simp: div_greater_zero_iff)
    from IH(1) have "1024 * 1024 ^ log1024_nat (n div 1024) \<le> n" by linarith
    moreover from IH(2) have "n < 1024 * 1024 ^ Suc (log1024_nat (n div 1024))" by linarith
    ultimately show ?thesis using False by (subst (1 2) log1024_nat.simps) simp
  qed
qed

lemma log1024_floor_ge1:
  assumes "1 \<le> x"
  defines "k \<equiv> log1024_nat (nat \<lfloor>x\<rfloor>)"
  shows "log1024_floor x = int k" "1024 ^ k \<le> x" "x < 1024 ^ Suc k"
proof -
  show "log1024_floor x = int k" using assms by (simp add: log1024_floor_def)
  have pos: "0 < nat \<lfloor>x\<rfloor>" using assms(1) by simp
  have fl: "of_nat (nat \<lfloor>x\<rfloor>) = (of_int \<lfloor>x\<rfloor> :: rat)" using assms(1) by simp
  have "of_nat (1024 ^ k) \<le> (of_nat (nat \<lfloor>x\<rfloor>) :: rat)"
    using log1024_nat_bounds [OF pos] unfolding k_def of_nat_le_iff by blast
  also have "\<dots> \<le> x" unfolding fl by simp
  finally show "1024 ^ k \<le> x" by simp
  have "nat \<lfloor>x\<rfloor> + 1 \<le> 1024 ^ Suc k"
    using log1024_nat_bounds [OF pos] unfolding k_def by linarith
  then have "of_nat (nat \<lfloor>x\<rfloor> + 1) \<le> (of_nat (1024 ^ Suc k) :: rat)" unfolding of_nat_le_iff .
  moreover have "x < of_nat (nat \<lfloor>x\<rfloor> + 1)" using fl by simp linarith
  ultimately show "x < 1024 ^ Suc k" by simp
qed

lemma log1024_floor_lt1:
  assumes "0 < x" and "x < 1"
  defines "k \<equiv> Suc (log1024_nat (nat (\<lceil>1 / x\<rceil> - 1)))"
  shows "log1024_floor x = - int k" "1 \<le> x * 1024 ^ k" "x * 1024 ^ k < 1024"
proof -
  show "log1024_floor x = - int k" using assms by (simp add: log1024_floor_def)
  let ?m = "nat (\<lceil>1 / x\<rceil> - 1)"
  have y: "1 < 1 / x" using assms by (simp add: field_simps)
  then have m: "0 < ?m" by linarith
  then have "int ?m = \<lceil>1 / x\<rceil> - 1" by linarith
  then have om: "of_nat ?m = (of_int \<lceil>1 / x\<rceil> - 1 :: rat)"
    by (metis of_int_1 of_int_diff of_int_of_nat_eq)
  have "?m + 1 \<le> 1024 ^ k" using log1024_nat_bounds [OF m] unfolding k_def by linarith
  then have "of_nat (?m + 1) \<le> (of_nat (1024 ^ k) :: rat)" unfolding of_nat_le_iff .
  moreover have "of_nat (?m + 1) = (of_int \<lceil>1 / x\<rceil> :: rat)" using om by simp
  ultimately have "1 / x \<le> of_nat (1024 ^ k)" using le_of_int_ceiling [of "1 / x"] by linarith
  then have "1 / x \<le> 1024 ^ k" by simp
  then show "1 \<le> x * 1024 ^ k" using assms by (simp add: field_simps)
  have "of_nat (1024 ^ (k - 1)) \<le> (of_nat ?m :: rat)"
    using log1024_nat_bounds [OF m] unfolding k_def of_nat_le_iff by simp
  moreover have "of_nat ?m < 1 / x" using om ceiling_correct [of "1 / x"] by linarith
  ultimately have "of_nat (1024 ^ (k - 1)) < 1 / x" by (rule le_less_trans)
  then have "1024 ^ (k - 1) < 1 / x" by simp
  moreover have "(1024 :: rat) ^ k = 1024 * 1024 ^ (k - 1)" by (simp add: k_def)
  ultimately show "x * 1024 ^ k < 1024" using assms by (simp add: field_simps)
qed

lemma log1024_floor_log:
  assumes "0 < x"
  shows "log1024_floor x = \<lfloor>log 1024 (of_rat x)\<rfloor>"
proof (cases "1 \<le> x")
  case True
  note b = log1024_floor_ge1 [OF True]
  let ?k = "log1024_nat (nat \<lfloor>x\<rfloor>)"
  have "(1024 :: real) ^ ?k \<le> of_rat x" "of_rat x < (1024 :: real) ^ Suc ?k"
    using b(2,3) by (metis of_rat_less_eq of_rat_numeral_eq of_rat_power,
        metis of_rat_less of_rat_numeral_eq of_rat_power)
  then have "\<lfloor>log 1024 (of_rat x)\<rfloor> = int ?k"
    using assms by (simp add: floor_log_eq_powr_iff powr_realpow powr_add)
  then show ?thesis using b(1) by simp
next
  case False
  then have "x < 1" by simp
  note b = log1024_floor_lt1 [OF assms this]
  define k where "k = Suc (log1024_nat (nat (\<lceil>1 / x\<rceil> - 1)))"
  have "of_rat (x * 1024 ^ k) \<ge> (1 :: real)" "of_rat (x * 1024 ^ k) < (1024 :: real)"
    using b(2,3) unfolding k_def [symmetric]
    by (metis of_rat_1 of_rat_less_eq, metis of_rat_less of_rat_numeral_eq)
  then have "1 \<le> of_rat x * (1024 :: real) ^ k" "of_rat x * (1024 :: real) ^ k < 1024"
    by (simp_all add: of_rat_mult of_rat_power)
  then have "\<lfloor>log 1024 (of_rat x)\<rfloor> = - int k"
    using assms by (simp add: floor_log_eq_powr_iff powr_realpow powr_diff powr_minus field_simps)
  then show ?thesis using b(1) by (simp add: k_def)
qed

lemma pow1024_nat [simp]: "pow1024 (int k) = 1024 ^ k"
  by (simp add: pow1024_def)

subsection \<open>Properties\<close>

text \<open>
  A size of at least one byte is shown in the unit B, KB, MB, GB or TB whose value it
  reaches without reaching the next one (TB for everything above), divided by that unit,
  without decimals for B and with one decimal otherwise. The index is the floor of the
  real logarithm to base 1024, capped at 4.
\<close>

lemma size_has_the_fitting_unit:
  assumes "1 \<le> x"
  shows "\<exists>k \<le> 4. formatBytes (Fin x) = toFixed (x / 1024 ^ k) (if k = 0 then 0 else 1) @ [0x20] @ byte_units ! k \<and>
    1024 ^ k \<le> x \<and> (k < 4 \<longrightarrow> x < 1024 ^ Suc k) \<and> int k = min \<lfloor>log 1024 (of_rat x)\<rfloor> 4"
proof -
  note b = log1024_floor_ge1 [OF assms]
  define n where "n = log1024_nat (nat \<lfloor>x\<rfloor>)"
  define k where "k = min n 4"
  have idx: "min (log1024_floor x) (int (length byte_units) - 1) = int k"
    using b(1) by (simp add: k_def n_def byte_units_def)
  have "k < length byte_units" by (simp add: k_def byte_units_def)
  then have "formatBytes (Fin x) = toFixed (x / 1024 ^ k) (if k = 0 then 0 else 1) @ [0x20] @ byte_units ! k"
    using assms by (simp add: formatBytes_def idx Let_def unit_text_def)
  moreover have "(1024 :: rat) ^ k \<le> 1024 ^ n" by (rule power_increasing) (simp_all add: k_def)
  then have "1024 ^ k \<le> x" using b(2) unfolding n_def by (rule order_trans)
  moreover have "k < 4 \<longrightarrow> x < 1024 ^ Suc k"
    using b(3) unfolding n_def [symmetric] k_def by auto
  moreover have "int k = min \<lfloor>log 1024 (of_rat x)\<rfloor> 4"
    using idx assms by (simp add: byte_units_def log1024_floor_log)
  ultimately show ?thesis by (intro exI [of _ k]) (simp add: k_def)
qed

text \<open>
  A positive amount below one byte gets a negative index, and the text ends in the word
  \<open>undefined\<close> instead of a unit.
\<close>

lemma fraction_of_a_byte_has_no_unit:
  assumes "0 < x" and "x < 1"
  shows "\<exists>t. formatBytes (Fin x) = t @ [0x20] @ js ''undefined''"
proof -
  note b = log1024_floor_lt1 [OF assms]
  have "log1024_floor x < 0" using b(1) by simp
  then show ?thesis using assms by (simp add: formatBytes_def Let_def unit_text_def byte_units_def min_def)
qed

text \<open>
  A duration of at least zero seconds is shown by its two largest parts: the hours of the
  day are below 24 and the minutes of the hour below 60, and the shown parts account for
  all whole seconds but less than one hour, one minute or, below a minute, none.
\<close>

lemma duration_is_decomposed:
  assumes "0 \<le> x"
  shows "\<exists>d h m s. \<lfloor>x\<rfloor> = 86400 * d + 3600 * h + 60 * m + s \<and> 0 \<le> d \<and> 0 \<le> h \<and> h < 24 \<and>
    0 \<le> m \<and> m < 60 \<and> 0 \<le> s \<and> s < 60 \<and>
    formatDuration (Fin x) =
      (if 0 < d then int_text d @ txt_days @ int_text h @ txt_hours
       else if 0 < h then int_text h @ txt_hours @ [0x20] @ int_text m @ txt_minutes
       else if 0 < m then int_text m @ txt_minutes
       else int_text s @ txt_seconds)"
proof -
  define n where "n = \<lfloor>x\<rfloor>"
  define d where "d = n div 86400"
  define h where "h = n mod 86400 div 3600"
  define m where "m = n mod 3600 div 60"
  define s where "s = n mod 60"
  have n: "0 \<le> n" using assms by (simp add: n_def)
  have split: "n = 86400 * d + 3600 * h + 60 * m + s"
  proof -
    have "n mod 86400 mod 3600 = n mod 3600" "n mod 3600 mod 60 = n mod 60"
      by (simp_all add: mod_mod_cancel)
    then show ?thesis
      unfolding d_def h_def m_def s_def by (metis add.assoc mult_div_mod_eq)
  qed
  have b: "n mod 86400 \<le> 86399" "n mod 3600 \<le> 3599" using zle_diff1_eq by fastforce+
  have "h \<le> 86399 div 3600" "m \<le> 3599 div 60"
    unfolding h_def m_def using zdiv_mono1 [OF b(1), of 3600] zdiv_mono1 [OF b(2), of 60] by simp_all
  then have hm: "h < 24" "m < 60" by simp_all
  have nn: "0 \<le> d" "0 \<le> h" "0 \<le> m" "0 \<le> s" "s < 60"
    using n by (simp_all add: d_def h_def m_def s_def pos_imp_zdiv_nonneg_iff)
  have "formatDuration (Fin x) =
      (if 0 < d then int_text d @ txt_days @ int_text h @ txt_hours
       else if 0 < h then int_text h @ txt_hours @ [0x20] @ int_text m @ txt_minutes
       else if 0 < m then int_text m @ txt_minutes
       else int_text n @ txt_seconds)"
    using assms unfolding formatDuration_def Let_def number.case n_def [symmetric]
      d_def [symmetric] h_def [symmetric] m_def [symmetric] by simp
  moreover have "n = s" if "\<not> 0 < d" "\<not> 0 < h" "\<not> 0 < m" using that split nn by linarith
  ultimately have "formatDuration (Fin x) =
      (if 0 < d then int_text d @ txt_days @ int_text h @ txt_hours
       else if 0 < h then int_text h @ txt_hours @ [0x20] @ int_text m @ txt_minutes
       else if 0 < m then int_text m @ txt_minutes
       else int_text s @ txt_seconds)" by simp
  with split nn hm show ?thesis unfolding n_def by blast
qed

text \<open>
  A tag is green exactly for \<open>online\<close> and \<open>running\<close> and red exactly for \<open>disabled\<close>, without
  regard to case, and its text is always one of the ten labels; an entry that is disabled
  is never shown as online by \<open>isOnline\<close>.
\<close>

lemma status_tag_matches_status:
  "(tag_color (StatusTag v) = js ''green'') = (toLowerCase v \<in> {js ''online'', js ''running''}) \<and>
   (tag_color (StatusTag v) = js ''red'') = (toLowerCase v = js ''disabled'') \<and>
   tag_text (StatusTag v) \<in> snd ` set statusLabels \<and>
   (tag_color (StatusTag v) = js ''green'' \<longrightarrow> isOnline v None) \<and> \<not> isOnline v (Some True)"
proof -
  have "statusText (Some v) \<in> snd ` set statusLabels"
  proof (cases "map_of statusLabels (toLowerCase v)")
    case None
    then show ?thesis by (auto simp: statusText_def truthy_opt_def statusLabels_def)
  next
    case (Some l)
    then have "l \<in> snd ` set statusLabels" by (metis image_eqI map_of_SomeD snd_conv)
    moreover have "label_unknown \<in> snd ` set statusLabels" by (simp add: statusLabels_def)
    ultimately show ?thesis using Some by (simp add: statusText_def truthy_opt_def)
  qed
  then show ?thesis by (auto simp: StatusTag_def isOnline_def Let_def)
qed

end
