(* ===== verification/Transport_Settings.thy ===== *)
theory Transport_Settings
  imports Machines Async_Hook Dash_Format
begin

text \<open>
  The settings of the transport (\<open>web/dashboard/src/settings/\<close>): the pure helpers
  \<open>transportDisplay.ts\<close>, \<open>autoSubdomain.ts\<close> and \<open>settingsRows.ts\<close>, and the component
  \<open>TransportSettings.tsx\<close> with its parts. The component is a state and one step per
  handler; a handler that waits for the server is two steps, one up to the request and one
  that takes the outcome. The state keeps the API calls made and the toasts shown. The form
  library validates required fields before \<open>onFinish\<close>; a submitted form is the argument of
  the step.
\<close>

subsection \<open>Certificate states (transportDisplay.ts)\<close>

definition lower_opt :: "js_string option \<Rightarrow> js_string" where
  "lower_opt v = (case v of None \<Rightarrow> [] | Some s \<Rightarrow> toLowerCase s)"

definition certificate_status :: "transport_status option \<Rightarrow> js_string option" where
  "certificate_status s = Option.bind s (\<lambda>t. Option.bind (st_certificate t) tc_status)"

definition certificatePending :: "transport_status option \<Rightarrow> bool" where
  "certificatePending s =
     (let v = lower_opt (certificate_status s) in
      v = js ''pending'' \<or> v = js ''running'' \<or> v = js ''issuing'')"

definition txt_issued :: js_string where
  "txt_issued = [0x5DF2, 0x7B7E, 0x53D1]"
definition txt_issuing :: js_string where
  "txt_issuing = [0x7B7E, 0x53D1, 0x4E2D]"
definition txt_issue_failed :: js_string where
  "txt_issue_failed = [0x7B7E, 0x53D1, 0x5931, 0x8D25]"
definition txt_unbound :: js_string where
  "txt_unbound = [0x672A, 0x7ED1, 0x5B9A]"

definition certificateStateLabel :: "js_string option \<Rightarrow> js_string" where
  "certificateStateLabel s =
     (let v = lower_opt s in
      if v = js ''valid'' \<or> v = js ''issued'' \<or> v = js ''success'' then txt_issued
      else if v = js ''pending'' \<or> v = js ''running'' \<or> v = js ''issuing'' then txt_issuing
      else if v = js ''failed'' \<or> v = js ''error'' then txt_issue_failed
      else txt_unbound)"

definition certificateTagColor :: "js_string option \<Rightarrow> js_string" where
  "certificateTagColor s =
     (case s of
        None \<Rightarrow> js ''default''
      | Some x \<Rightarrow>
          (let v = toLowerCase x in
           if v = js ''valid'' \<or> v = js ''issued'' \<or> v = js ''success'' then js ''green''
           else if v = js ''pending'' \<or> v = js ''running'' \<or> v = js ''issuing'' then js ''blue''
           else if v = js ''failed'' \<or> v = js ''error'' then js ''red''
           else js ''default''))"

subsection \<open>Endpoints (transportDisplay.ts)\<close>

definition any_address :: js_string where
  "any_address = js ''0.0.0.0:''"

definition server_ip :: js_string where
  "server_ip = [0x670D, 0x52A1, 0x5668, 0x49, 0x50, 0x3A]"

text \<open>\<open>replace\<close> with a string replaces the first occurrence, here the prefix just found.\<close>

definition normalizeListen :: "js_string \<Rightarrow> js_string" where
  "normalizeListen listen =
     (if \<not> startsWith listen any_address then listen
      else server_ip @ drop (length any_address) listen)"

definition valueOrFallback :: "js_string option \<Rightarrow> js_string option \<Rightarrow> js_string \<Rightarrow> js_string \<Rightarrow> js_string" where
  "valueOrFallback v listen scheme path =
     (if truthy_opt v then the v
      else if \<not> truthy_opt listen then dash
      else scheme @ js ''://'' @ normalizeListen (the listen) @ path)"

record endpoint_row =
  er_key :: js_string
  er_label :: js_string
  er_value :: js_string

definition opt_field :: "('r \<Rightarrow> 'v option) \<Rightarrow> 'r option \<Rightarrow> 'v option" where
  "opt_field f r = Option.bind r f"

definition data_value :: "transport_endpoint option \<Rightarrow> js_string" where
  "data_value e = str_or (opt_field te_data_address e) (str_or (opt_field te_data_listen e) dash)"

definition plain_rows :: "transport_endpoint option \<Rightarrow> endpoint_row list" where
  "plain_rows plain =
     [\<lparr>er_key = js ''http'', er_label = [0x63A7, 0x5236, 0x53F0, 0x20, 0x48, 0x54, 0x54, 0x50],
        er_value = valueOrFallback (opt_field te_control_url plain) (opt_field te_listen plain) (js ''http'') []\<rparr>,
      \<lparr>er_key = js ''ws'', er_label = js ''Agent WS'',
        er_value = valueOrFallback (opt_field te_websocket_url plain) (opt_field te_listen plain) (js ''ws'') (js ''/agent/connect'')\<rparr>,
      \<lparr>er_key = js ''plain-data'', er_label = [0x660E, 0x6587, 0x6570, 0x636E, 0x901A, 0x9053],
        er_value = data_value plain\<rparr>]"

definition tls_rows :: "transport_endpoint \<Rightarrow> endpoint_row list" where
  "tls_rows tls =
     [\<lparr>er_key = js ''https'', er_label = [0x63A7, 0x5236, 0x53F0, 0x20, 0x48, 0x54, 0x54, 0x50, 0x53],
        er_value = valueOrFallback (te_control_url tls) (te_listen tls) (js ''https'') []\<rparr>,
      \<lparr>er_key = js ''wss'', er_label = js ''Agent WSS'',
        er_value = valueOrFallback (te_websocket_url tls) (te_listen tls) (js ''wss'') (js ''/agent/connect'')\<rparr>,
      \<lparr>er_key = js ''tls-data'', er_label = [0x54, 0x4C, 0x53, 0x20, 0x6570, 0x636E, 0x901A, 0x9053],
        er_value = data_value (Some tls)\<rparr>]"

definition endpointRows :: "transport_status option \<Rightarrow> endpoint_row list" where
  "endpointRows s =
     (let rows = plain_rows (map_option st_plain s) in
      case map_option st_tls s of
        None \<Rightarrow> rows
      | Some tls \<Rightarrow> if te_enabled tls then rows @ tls_rows tls else rows)"

definition tls_enabled :: "transport_status option \<Rightarrow> bool" where
  "tls_enabled s = (case s of None \<Rightarrow> False | Some t \<Rightarrow> te_enabled (st_tls t))"

definition plain_enabled :: "transport_status option \<Rightarrow> bool" where
  "plain_enabled s = (case s of None \<Rightarrow> False | Some t \<Rightarrow> te_enabled (st_compatibility_plain t))"

definition nextTLSState :: "transport_status option \<Rightarrow> bool" where
  "nextTLSState s = (\<not> tls_enabled s)"

definition nextPlainState :: "transport_status option \<Rightarrow> bool" where
  "nextPlainState s = (\<not> plain_enabled s)"

subsection \<open>Automatic subdomains (autoSubdomain.ts)\<close>

definition auto_on :: "transport_auto_subdomain option \<Rightarrow> bool" where
  "auto_on c = (case c of None \<Rightarrow> False | Some a \<Rightarrow> as_enabled a)"

definition base_domain :: "transport_auto_subdomain option \<Rightarrow> js_string option" where
  "base_domain c = Option.bind c as_base_domain"

definition autoSubdomainStatusText :: "transport_auto_subdomain option \<Rightarrow> js_string" where
  "autoSubdomainStatusText config =
     (if \<not> auto_on config then [0x672A, 0x5F00, 0x542F]
      else if \<not> truthy_opt (base_domain config) then [0x5F85, 0x914D, 0x7F6E, 0x6839, 0x57DF, 0x540D]
      else [0x5DF2, 0x5F00, 0x542F, 0xFF1A, 0x2A, 0x2E] @ the (base_domain config))"

definition hint_off :: js_string where
  "hint_off = [0x81EA, 0x52A8, 0x5B50, 0x57DF, 0x540D, 0x672A, 0x5F00, 0x542F, 0xFF0C, 0x48, 0x54,
    0x54, 0x50, 0x2F, 0x48, 0x54, 0x54, 0x50, 0x53, 0x20, 0x96A7, 0x9053, 0x4ECD,
    0x9700, 0x624B, 0x52A8, 0x586B, 0x5199, 0x57DF, 0x540D, 0x3002]"

definition hint_before :: js_string where
  "hint_before = [0x5DF2, 0x5F00, 0x542F, 0x81EA, 0x52A8, 0x5B50, 0x57DF, 0x540D, 0x3002, 0x65B0,
    0x5EFA, 0x20, 0x48, 0x54, 0x54, 0x50, 0x2F, 0x48, 0x54, 0x54, 0x50, 0x53, 0x20,
    0x96A7, 0x9053, 0x4E14, 0x57DF, 0x540D, 0x7559, 0x7A7A, 0x65F6, 0x5C06, 0x81EA,
    0x52A8, 0x5206, 0x914D, 0xFF0C, 0x4F8B, 0x5982, 0x20]"

definition hint_after :: js_string where
  "hint_after = [0xFF1B, 0x624B, 0x52A8, 0x586B, 0x5199, 0x57DF, 0x540D, 0x65F6, 0x4F18, 0x5148,
    0x4F7F, 0x7528, 0x663E, 0x5F0F, 0x57DF, 0x540D, 0x3002]"

definition autoSubdomainHint :: "transport_auto_subdomain option \<Rightarrow> js_string" where
  "autoSubdomainHint config =
     (if \<not> auto_on config \<or> \<not> truthy_opt (base_domain config) then hint_off
      else hint_before @ str_or (Option.bind config as_suffix_example) (js ''app.'' @ the (base_domain config)) @ hint_after)"

definition shouldSuggestAutoDomain :: "js_string option \<Rightarrow> transport_auto_subdomain option \<Rightarrow> bool" where
  "shouldSuggestAutoDomain protocol config =
     (auto_on config \<and> truthy_opt (base_domain config) \<and>
      (case protocol of
         None \<Rightarrow> False
       | Some p \<Rightarrow> toLowerCase p = js ''http'' \<or> toLowerCase p = js ''https''))"

subsection \<open>Setting rows (settingsRows.ts)\<close>

definition PLAIN_WS_SETTING_KEY :: js_string where
  "PLAIN_WS_SETTING_KEY = js ''server.plain_enabled''"

definition TRANSPORT_SETTING_KEYS :: "js_string list" where
  "TRANSPORT_SETTING_KEYS =
     [PLAIN_WS_SETTING_KEY, js ''server.plain_listen'', js ''server.plain_data_listen'',
      js ''server.listen'', js ''server.data_listen'', js ''server.tls.enabled'',
      js ''server.tls.cert_file'', js ''server.tls.key_file'']"

record settings_rows =
  plainWsSetting :: "setting_item option"
  rows :: "setting_item list"

definition splitSettingsRows :: "setting_item list \<Rightarrow> settings_rows" where
  "splitSettingsRows items =
     \<lparr>plainWsSetting = List.find (\<lambda>i. si_key i = PLAIN_WS_SETTING_KEY) items,
      rows = filter (\<lambda>i. \<not> List.member TRANSPORT_SETTING_KEYS (si_key i)) items\<rparr>"

definition settingSaveMessage :: "js_string \<Rightarrow> js_string" where
  "settingSaveMessage key =
     (if key = js ''server.p2p_enabled'' then [0x50, 0x32, 0x50, 0x20, 0x8BBE, 0x7F6E, 0x5DF2, 0x4FDD, 0x5B58, 0x5E76, 0x7ACB,
    0x5373, 0x751F, 0x6548]
      else [0x8BBE, 0x7F6E, 0x5DF2, 0x4FDD, 0x5B58, 0xFF0C, 0x91CD, 0x542F, 0x20, 0x4E, 0x72,
    0x79, 0x6E, 0x65, 0x74, 0x20, 0x540E, 0x751F, 0x6548])"

definition on_off :: "bool \<Rightarrow> js_string" where
  "on_off enabled = (if enabled then [0x5F00, 0x542F] else [0x5173, 0x95ED])"

definition plainWsSaveMessage :: "bool \<Rightarrow> js_string" where
  "plainWsSaveMessage enabled = [0x517C, 0x5BB9, 0x660E, 0x6587, 0x8BBF, 0x95EE, 0x5DF2] @ on_off enabled @ [0xFF0C, 0x914D, 0x7F6E, 0x5DF2, 0x70ED, 0x66F4, 0x65B0]"

subsection \<open>The component (TransportSettings.tsx)\<close>

datatype toast = Success js_string | Failure js_string

record transport_ui =
  ui_status :: "transport_status option"
  ui_loading :: bool
  ui_busy :: "js_string option"
  ui_cert_submitting :: bool
  ui_auto_submitting :: bool
  ui_calls :: "api_call list"
  ui_toasts :: "toast list"

definition transport_initial :: transport_ui where
  "transport_initial =
     \<lparr>ui_status = None, ui_loading = True, ui_busy = None, ui_cert_submitting = False,
      ui_auto_submitting = False, ui_calls = [], ui_toasts = []\<rparr>"

definition ui_call :: "api_call \<Rightarrow> transport_ui \<Rightarrow> transport_ui" where
  "ui_call c s = s\<lparr>ui_calls := ui_calls s @ [c]\<rparr>"

definition ui_toast :: "toast \<Rightarrow> transport_ui \<Rightarrow> transport_ui" where
  "ui_toast t s = s\<lparr>ui_toasts := ui_toasts s @ [t]\<rparr>"

definition ui_load_begin :: "bool \<Rightarrow> transport_ui \<Rightarrow> transport_ui" where
  "ui_load_begin silent s = ui_call GetTransport (if silent then s else s\<lparr>ui_loading := True\<rparr>)"

definition ui_load_end :: "bool \<Rightarrow> transport_status result \<Rightarrow> transport_ui \<Rightarrow> transport_ui" where
  "ui_load_end silent r s =
     (let s' = (case r of Inr t \<Rightarrow> s\<lparr>ui_status := Some t\<rparr> | Inl e \<Rightarrow> ui_toast (Failure (toMessage e)) s)
      in if silent then s' else s'\<lparr>ui_loading := False\<rparr>)"

text \<open>The interval of \<open>POLL_MS\<close> exists exactly while the shown certificate is pending; \<open>None\<close> means that there is none.\<close>

definition ui_poll :: "transport_ui \<Rightarrow> transport_ui option" where
  "ui_poll s = (if certificatePending (ui_status s) then Some (ui_load_begin True s) else None)"

definition ui_run_begin :: "js_string \<Rightarrow> api_call \<Rightarrow> transport_ui \<Rightarrow> transport_ui" where
  "ui_run_begin key c s = ui_call c (s\<lparr>ui_busy := Some key\<rparr>)"

definition ui_run_end :: "js_string \<Rightarrow> transport_status result \<Rightarrow> transport_ui \<Rightarrow> transport_ui" where
  "ui_run_end success r s =
     (case r of
        Inr t \<Rightarrow> ui_toast (Success success) (s\<lparr>ui_status := Some t\<rparr>)
      | Inl e \<Rightarrow> ui_toast (Failure (toMessage e)) s)\<lparr>ui_busy := None\<rparr>"

definition tls_message :: "bool \<Rightarrow> js_string" where
  "tls_message enabled = [0x54, 0x4C, 0x53, 0x20, 0x5DF2] @ on_off enabled @ [0xFF0C, 0x48, 0x54, 0x54, 0x50, 0x53, 0x2F, 0x57, 0x53, 0x53, 0x20, 0x914D, 0x7F6E,
    0x5DF2, 0x70ED, 0x66F4, 0x65B0]"

definition toggleTLS :: "transport_ui \<Rightarrow> transport_ui \<times> js_string" where
  "toggleTLS s =
     (let enabled = nextTLSState (ui_status s) in
      (ui_run_begin (js ''tls'') (SetTransportTLS enabled) s, tls_message enabled))"

definition togglePlain :: "transport_ui \<Rightarrow> transport_ui \<times> js_string" where
  "togglePlain s =
     (let enabled = nextPlainState (ui_status s) in
      (ui_run_begin (js ''plain'') (SetTransportPlain enabled) s, plainWsSaveMessage enabled))"

definition cert_submit_begin :: "js_string \<Rightarrow> js_string \<Rightarrow> transport_ui \<Rightarrow> transport_ui" where
  "cert_submit_begin domain email s =
     ui_call (RequestCertificate (js_trim domain) (js_trim email)) (s\<lparr>ui_cert_submitting := True\<rparr>)"

definition cert_submit_end :: "transport_status result \<Rightarrow> transport_ui \<Rightarrow> transport_ui" where
  "cert_submit_end r s =
     (case r of
        Inr t \<Rightarrow> ui_toast (Success [0x8BC1, 0x4E66, 0x7533, 0x8BF7, 0x5DF2, 0x63D0, 0x4EA4, 0xFF0C, 0x6B63, 0x5728,
    0x7B49, 0x5F85, 0x20, 0x43, 0x65, 0x72, 0x74, 0x62, 0x6F, 0x74, 0x20, 0x7B7E, 0x53D1]) (s\<lparr>ui_status := Some t\<rparr>)
      | Inl e \<Rightarrow> ui_toast (Failure (toMessage e)) s)\<lparr>ui_cert_submitting := False\<rparr>"

definition auto_submit_begin :: "bool \<Rightarrow> js_string \<Rightarrow> transport_ui \<Rightarrow> transport_ui" where
  "auto_submit_begin enabled domain s =
     (let baseDomain = js_trim domain in
      if enabled \<and> \<not> truthy baseDomain then ui_toast (Failure msg_base_domain) s
      else ui_call (SetAutoSubdomain enabled baseDomain) (s\<lparr>ui_auto_submitting := True\<rparr>))"

definition auto_submit_end :: "bool \<Rightarrow> transport_status result \<Rightarrow> transport_ui \<Rightarrow> transport_ui" where
  "auto_submit_end enabled r s =
     (case r of
        Inr t \<Rightarrow> ui_toast (Success ([0x81EA, 0x52A8, 0x5B50, 0x57DF, 0x540D, 0x5DF2] @ on_off enabled @ [0xFF0C, 0x914D, 0x7F6E, 0x5DF2, 0x70ED, 0x66F4, 0x65B0])) (s\<lparr>ui_status := Some t\<rparr>)
      | Inl e \<Rightarrow> ui_toast (Failure (toMessage e)) s)\<lparr>ui_auto_submitting := False\<rparr>"

subsection \<open>What the parts show\<close>

definition EndpointSummary :: "transport_ui \<Rightarrow> endpoint_row list" where
  "EndpointSummary s =
     (if ui_loading s \<and> ui_status s = None
      then [\<lparr>er_key = js ''loading'', er_label = [0x52A0, 0x8F7D, 0x4E2D], er_value = [0x6B63, 0x5728, 0x8BFB, 0x53D6, 0x8BBF, 0x95EE, 0x5730, 0x5740, 0x2E, 0x2E, 0x2E]\<rparr>]
      else endpointRows (ui_status s))"

record switch_view =
  sw_checked :: bool
  sw_loading :: bool
  sw_disabled :: bool

definition cert_ready :: "transport_status option \<Rightarrow> bool" where
  "cert_ready s = truthy_opt (Option.bind s (\<lambda>t. Option.bind (st_certificate t) tc_domain))"

definition TLSControls :: "transport_ui \<Rightarrow> switch_view" where
  "TLSControls s =
     \<lparr>sw_checked = tls_enabled (ui_status s), sw_loading = (ui_busy s = Some (js ''tls'')),
      sw_disabled = (\<not> cert_ready (ui_status s) \<and> \<not> tls_enabled (ui_status s))\<rparr>"

definition PlainCompatControl :: "transport_ui \<Rightarrow> switch_view" where
  "PlainCompatControl s =
     \<lparr>sw_checked = plain_enabled (ui_status s), sw_loading = (ui_busy s = Some (js ''plain'')), sw_disabled = False\<rparr>"

record alert_view =
  al_message :: js_string
  al_description :: "js_string option"

definition CertificateError :: "js_string option \<Rightarrow> js_string option \<Rightarrow> alert_view option" where
  "CertificateError msg details =
     (if \<not> truthy_opt msg then None
      else Some \<lparr>al_message = the msg, al_description = (if truthy_opt details then details else None)\<rparr>)"

record certificate_form_view =
  cf_state_color :: js_string
  cf_state_label :: js_string
  cf_certbot_ok :: bool
  cf_unavailable_text :: "js_string option"
  cf_error :: "alert_view option"
  cf_domain :: js_string
  cf_issuer :: js_string
  cf_not_after :: js_string
  cf_inputs_disabled :: bool
  cf_button_loading :: bool
  cf_button_disabled :: bool

definition msg_no_certbot :: js_string where
  "msg_no_certbot = [0x670D, 0x52A1, 0x5668, 0x672A, 0x68C0, 0x6D4B, 0x5230, 0x20, 0x43, 0x65, 0x72,
    0x74, 0x62, 0x6F, 0x74, 0xFF0C, 0x65E0, 0x6CD5, 0x81EA, 0x52A8, 0x7533, 0x8BF7,
    0x20, 0x4C, 0x65, 0x74, 0x27, 0x73, 0x20, 0x45, 0x6E, 0x63, 0x72, 0x79, 0x70, 0x74,
    0x20, 0x8BC1, 0x4E66, 0x3002]"

text \<open>\<open>print_date\<close> is \<open>new Date(v).toLocaleString("zh-CN")\<close>.\<close>

definition CertificateForm :: "(js_string \<Rightarrow> js_string) \<Rightarrow> transport_ui \<Rightarrow> certificate_form_view" where
  "CertificateForm print_date s =
     (let cert = Option.bind (ui_status s) st_certificate;
          certbot = map_option st_certbot (ui_status s);
          unavailable = (case certbot of None \<Rightarrow> False | Some c \<Rightarrow> \<not> cb_available c);
          pending = certificatePending (ui_status s);
          field = (\<lambda>f. opt_field f cert) in
      \<lparr>cf_state_color = certificateTagColor (field tc_status),
       cf_state_label = certificateStateLabel (field tc_status),
       cf_certbot_ok = (case certbot of None \<Rightarrow> False | Some c \<Rightarrow> cb_available c),
       cf_unavailable_text = (if unavailable then Some (str_or (Option.bind certbot cb_message) msg_no_certbot) else None),
       cf_error = CertificateError (field tc_error) (field tc_details),
       cf_domain = str_or (field tc_domain) dash,
       cf_issuer = str_or (field tc_issuer) dash,
       cf_not_after = (if truthy_opt (field tc_not_after) then print_date (the (field tc_not_after)) else dash),
       cf_inputs_disabled = (unavailable \<or> pending),
       cf_button_loading = (ui_busy s = Some (js ''certificate'') \<or> pending \<or> ui_cert_submitting s),
       cf_button_disabled = unavailable\<rparr>)"

record auto_subdomain_view =
  av_color :: js_string
  av_text :: js_string
  av_field_enabled :: bool
  av_field_domain :: js_string
  av_switch_loading :: bool
  av_example :: "js_string option"

text \<open>The effect of the component fills the form fields from the configuration whenever it changes.\<close>

definition AutoSubdomainControl :: "transport_ui \<Rightarrow> auto_subdomain_view" where
  "AutoSubdomainControl s =
     (let config = Option.bind (ui_status s) st_auto_subdomain in
      \<lparr>av_color = (if auto_on config then js ''green'' else js ''default''),
       av_text = autoSubdomainStatusText config,
       av_field_enabled = auto_on config,
       av_field_domain = str_or (base_domain config) [],
       av_switch_loading = (ui_busy s = Some (js ''auto-subdomain'') \<or> ui_auto_submitting s),
       av_example = (let e = Option.bind config as_suffix_example in if truthy_opt e then e else None)\<rparr>)"

subsection \<open>The component as a state machine\<close>

text \<open>
  What waits for an answer of the server. The switches act only when they are neither
  disabled nor loading; the timer fires when there is one; any request
  in flight may be the next to settle, with any outcome.
\<close>

datatype transport_op = LoadOp bool | RunOp js_string js_string | CertOp | AutoOp bool

fun settle_op :: "transport_op \<Rightarrow> transport_status result \<Rightarrow> transport_ui \<Rightarrow> transport_ui" where
  "settle_op (LoadOp silent) r s = ui_load_end silent r s"
| "settle_op (RunOp key success) r s = ui_run_end success r s"
| "settle_op CertOp r s = cert_submit_end r s"
| "settle_op (AutoOp enabled) r s = auto_submit_end enabled r s"

definition usable :: "switch_view \<Rightarrow> bool" where
  "usable v = (\<not> sw_disabled v \<and> \<not> sw_loading v)"

definition transport_mounted :: "transport_ui \<times> transport_op list" where
  "transport_mounted = (ui_load_begin False transport_initial, [LoadOp False])"

inductive transport_answered :: "transport_ui \<times> transport_op list \<Rightarrow> transport_ui \<times> transport_op list \<Rightarrow> bool" where
  settle: "transport_answered (u, ps @ op # qs) (settle_op op r u, ps @ qs)"

inductive transport_step :: "transport_ui \<times> transport_op list \<Rightarrow> transport_ui \<times> transport_op list \<Rightarrow> bool" where
  poll: "ui_poll u = Some u' \<Longrightarrow> transport_step (u, ps) (u', LoadOp True # ps)"
| tls: "usable (TLSControls u) \<Longrightarrow> toggleTLS u = (u', msg) \<Longrightarrow>
    transport_step (u, ps) (u', RunOp (js ''tls'') msg # ps)"
| plain: "usable (PlainCompatControl u) \<Longrightarrow> togglePlain u = (u', msg) \<Longrightarrow>
    transport_step (u, ps) (u', RunOp (js ''plain'') msg # ps)"
| cert: "transport_step (u, ps) (cert_submit_begin domain email u, CertOp # ps)"
| auto_refused: "enabled \<and> \<not> truthy (js_trim domain) \<Longrightarrow>
    transport_step (u, ps) (auto_submit_begin enabled domain u, ps)"
| auto_sent: "\<not> (enabled \<and> \<not> truthy (js_trim domain)) \<Longrightarrow>
    transport_step (u, ps) (auto_submit_begin enabled domain u, AutoOp enabled # ps)"
| answered: "transport_answered s t \<Longrightarrow> transport_step s t"

inductive transport_reachable :: "transport_ui \<times> transport_op list \<Rightarrow> bool" where
  mounted: "transport_reachable transport_mounted"
| step: "transport_reachable s \<Longrightarrow> transport_step s t \<Longrightarrow> transport_reachable t"

lemmas ui_op_defs = ui_load_begin_def ui_load_end_def ui_run_begin_def ui_run_end_def
  toggleTLS_def togglePlain_def cert_submit_begin_def cert_submit_end_def auto_submit_begin_def
  auto_submit_end_def ui_call_def ui_toast_def Let_def

subsection \<open>Lemmas on the states\<close>

lemma ui_poll_Some [simp]: "ui_poll u = Some u' \<longleftrightarrow> certificatePending (ui_status u) \<and> u' = ui_load_begin True u"
  by (auto simp: ui_poll_def)

text \<open>Each indicator of the page belongs to a kind of request in flight.\<close>

definition indicators_justified :: "transport_ui \<times> transport_op list \<Rightarrow> bool" where
  "indicators_justified s =
     (let (u, ps) = s in
      (ui_loading u \<longrightarrow> List.member ps (LoadOp False)) \<and>
      (\<forall>k. ui_busy u = Some k \<longrightarrow> k \<in> {js ''tls'', js ''plain''} \<and> (\<exists>m. RunOp k m \<in> set ps)) \<and>
      (ui_cert_submitting u \<longrightarrow> List.member ps CertOp) \<and>
      (ui_auto_submitting u \<longrightarrow> list_ex (\<lambda>p. case p of AutoOp e \<Rightarrow> True | _ \<Rightarrow> False) ps))"

lemma pending_auto: "(case p of AutoOp e \<Rightarrow> True | _ \<Rightarrow> False) \<longleftrightarrow> (\<exists>e. p = AutoOp e)"
  by (cases p) auto

lemma settle_op_justified:
  assumes "indicators_justified (u, ps @ op # qs)"
  shows "indicators_justified (settle_op op r u, ps @ qs)"
proof (cases op)
  case (LoadOp silent)
  then show ?thesis
    using assms by (cases r) (auto simp: indicators_justified_def ui_op_defs)
next
  case (RunOp k m)
  then show ?thesis
    using assms by (cases r) (auto simp: indicators_justified_def ui_op_defs)
next
  case CertOp
  then show ?thesis
    using assms by (cases r) (auto simp: indicators_justified_def ui_op_defs)
next
  case (AutoOp e)
  then show ?thesis
    using assms by (cases r) (auto simp: indicators_justified_def ui_op_defs)
qed

lemma answered_justified: "transport_answered s t \<Longrightarrow> indicators_justified s \<Longrightarrow> indicators_justified t"
  by (induction rule: transport_answered.induct) (rule settle_op_justified)

lemma step_justified:
  assumes "transport_step s t" "indicators_justified s"
  shows "indicators_justified t"
  using assms
proof (cases rule: transport_step.cases)
  case answered
  then show ?thesis
    using assms(2) answered_justified by blast
qed (auto simp: indicators_justified_def ui_op_defs)

lemma reachable_justified: "transport_reachable s \<Longrightarrow> indicators_justified s"
proof (induction rule: transport_reachable.induct)
  case mounted
  show ?case
    by (simp add: transport_mounted_def transport_initial_def indicators_justified_def ui_op_defs)
next
  case (step s t)
  then show ?case
    using step_justified by blast
qed

lemma settle_op_calls [simp]: "ui_calls (settle_op op r u) = ui_calls u"
  by (cases op; cases r) (simp_all add: ui_op_defs)

lemma usable_tls_on: "usable (TLSControls u) \<Longrightarrow> nextTLSState (ui_status u) \<Longrightarrow> cert_ready (ui_status u)"
  by (simp add: usable_def TLSControls_def nextTLSState_def)

lemma step_new_call:
  assumes "transport_step (u, ps) (u', ps')" "ui_calls u' = ui_calls u @ [c]"
  shows "(c = GetTransport \<and> certificatePending (ui_status u))
    \<or> (\<exists>enabled. c = SetTransportTLS enabled \<and> enabled = nextTLSState (ui_status u) \<and> (enabled \<longrightarrow> cert_ready (ui_status u)))
    \<or> (\<exists>enabled. c = SetTransportPlain enabled \<and> enabled = nextPlainState (ui_status u))
    \<or> (\<exists>domain email. c = RequestCertificate (js_trim domain) (js_trim email))
    \<or> (\<exists>enabled domain. c = SetAutoSubdomain enabled (js_trim domain) \<and> (enabled \<longrightarrow> js_trim domain \<noteq> []))"
  using assms(1)
proof (cases rule: transport_step.cases)
  case (tls msg)
  then show ?thesis
    using assms(2) usable_tls_on [of u] by (auto simp: ui_op_defs)
next
  case answered
  then show ?thesis
    using assms(2) by (auto elim: transport_answered.cases)
qed (use assms(2) in \<open>auto simp: ui_op_defs split: if_splits\<close>)

lemma normalizeListen_public: "\<not> startsWith (normalizeListen l) any_address"
  by (simp add: normalizeListen_def startsWith_iff any_address_def server_ip_def js_def)


lemma fallback_hides_any_address:
  assumes "\<not> truthy_opt url" "path = [] \<or> hd path \<notin> set any_address"
  shows "\<not> startsWith (valueOrFallback url listen scheme path) (scheme @ js ''://'' @ any_address)"
proof
  assume *: "startsWith (valueOrFallback url listen scheme path) (scheme @ js ''://'' @ any_address)"
  have "truthy_opt listen"
  proof (rule ccontr)
    assume "\<not> truthy_opt listen"
    then have "length (valueOrFallback url listen scheme path) = 1"
      using assms(1) by (simp add: valueOrFallback_def dash_def js_def)
    with * show False
      by (auto simp: startsWith_iff js_def any_address_def)
  qed
  with * obtain t where "normalizeListen (the listen) @ path = any_address @ t"
    using assms(1) by (auto simp: valueOrFallback_def startsWith_iff)
  then consider u where "normalizeListen (the listen) = any_address @ u"
    | u where "any_address = normalizeListen (the listen) @ u" "path = u @ t" "u \<noteq> []"
    by (auto simp: append_eq_append_conv2) (metis append_Nil2)
  then show False
  proof cases
    case 1
    then show False
      using normalizeListen_public [of "the listen"] by (simp add: startsWith_iff)
  next
    case 2
    from 2(1) [THEN arg_cong, of set] have "set u \<subseteq> set any_address"
      by simp
    moreover have "path \<noteq> []" "hd path = hd u"
      using 2 by (simp_all add: hd_append)
    ultimately have "path \<noteq> []" "hd path \<in> set any_address"
      using \<open>u \<noteq> []\<close> by (auto dest: hd_in_set)
    then show False
      using assms(2) by blast
  qed
qed

subsection \<open>Answers come to an end\<close>

definition ops_in_flight :: "transport_ui \<times> transport_op list \<Rightarrow> nat" where
  "ops_in_flight s = length (snd s)"

definition transport_quiet :: "transport_ui \<times> transport_op list \<Rightarrow> bool" where
  "transport_quiet s \<longleftrightarrow> \<not> ui_loading (fst s) \<and> ui_busy (fst s) = None \<and> \<not> ui_cert_submitting (fst s) \<and>
     \<not> ui_auto_submitting (fst s)"

interpretation transport_answers: settling transport_answered ops_in_flight transport_reachable transport_quiet
proof
  fix s :: "transport_ui \<times> transport_op list"
  assume "0 < ops_in_flight s"
  then obtain u op qs where "s = (u, [] @ op # qs)"
    by (cases s; cases "snd s") (auto simp: ops_in_flight_def)
  then show "\<exists>t. transport_answered s t"
    using transport_answered.settle by blast
next
  fix s
  assume "transport_reachable s" "ops_in_flight s = 0"
  moreover from this(1) have "indicators_justified s"
    by (rule reachable_justified)
  ultimately show "transport_quiet s"
    by (auto simp: ops_in_flight_def transport_quiet_def indicators_justified_def split: prod.splits)
qed (auto elim: transport_answered.cases intro: transport_reachable.step transport_step.answered simp: ops_in_flight_def)

subsection \<open>Properties\<close>

text \<open>
  C22. In every state the page can reach, whatever the user clicks and in whatever
  order the server answers, each spinner is shown only while a request of its own kind is in flight: that of the
  TLS switch, of the switch for plain access, of the form for subdomains, the note that the addresses
  are being read. The button of the certificate form has one besides while the certificate shown is being issued,
  and only then without a request.
\<close>

theorem no_spinner_outlives_its_request:
  assumes "transport_reachable (u, ps)"
  shows "(EndpointSummary u \<noteq> endpointRows (ui_status u) \<longrightarrow> LoadOp False \<in> set ps)
    \<and> (sw_loading (TLSControls u) \<longrightarrow> (\<exists>m. RunOp (js ''tls'') m \<in> set ps))
    \<and> (sw_loading (PlainCompatControl u) \<longrightarrow> (\<exists>m. RunOp (js ''plain'') m \<in> set ps))
    \<and> (av_switch_loading (AutoSubdomainControl u) \<longrightarrow> (\<exists>e. AutoOp e \<in> set ps))
    \<and> (cf_button_loading (CertificateForm print_date u) \<longrightarrow> CertOp \<in> set ps \<or> certificatePending (ui_status u))
    \<and> (ps = [] \<longrightarrow> \<not> ui_loading u \<and> ui_busy u = None \<and> \<not> ui_cert_submitting u \<and> \<not> ui_auto_submitting u)"
proof -
  have keys: "js ''certificate'' \<notin> {js ''tls'', js ''plain''}" "js ''auto-subdomain'' \<notin> {js ''tls'', js ''plain''}"
    by simp_all
  show ?thesis
    using reachable_justified [OF assms] keys
    by (cases "ui_busy u")
      (auto simp: indicators_justified_def list_ex_iff pending_auto TLSControls_def EndpointSummary_def CertificateForm_def
        PlainCompatControl_def AutoSubdomainControl_def Let_def)
qed

text \<open>The first request of the page fails.\<close>

lemma first_load_failed_reachable:
  "transport_reachable (settle_op (LoadOp False) (Inl (NativeError (js ''down''))) (fst transport_mounted), [])"
  using transport_reachable.step [OF transport_reachable.mounted, of "(_, [] @ [])"]
    transport_step.answered [OF transport_answered.settle
      [of "fst transport_mounted" "[]" "LoadOp False" "[]" "Inl (NativeError (js ''down''))"]]
  by (simp add: transport_mounted_def)

theorem no_spinner_outlives_its_request_witness:
  "\<not> ui_loading (settle_op (LoadOp False) (Inl (NativeError (js ''down''))) (fst transport_mounted))"
  using no_spinner_outlives_its_request [OF first_load_failed_reachable] by simp

text \<open>
  C23. From every state the page can reach it comes to rest once the server has answered: each
  answer settles one request and starts none, and when the last one is settled, whatever the
  answers were, nothing is busy, and the switches can be used again as far as the
  certificate allows.
\<close>

theorem transport_page_settles:
  assumes "transport_reachable s"
  shows "(\<exists>u. transport_answered\<^sup>*\<^sup>* s (u, []))
    \<and> (\<forall>n t. (transport_answered ^^ n) s t \<longrightarrow> n \<le> length (snd s))
    \<and> (\<forall>u. transport_answered\<^sup>*\<^sup>* s (u, []) \<longrightarrow>
        \<not> ui_loading u \<and> \<not> ui_cert_submitting u \<and> \<not> ui_auto_submitting u \<and>
        usable (PlainCompatControl u) \<and> (cert_ready (ui_status u) \<or> tls_enabled (ui_status u) \<longrightarrow> usable (TLSControls u)))"
proof (intro conjI allI impI)
  show "\<exists>u. transport_answered\<^sup>*\<^sup>* s (u, [])"
    using transport_answers.drains [of s] by (auto simp: ops_in_flight_def)
  show "n \<le> length (snd s)" if "(transport_answered ^^ n) s t" for n t
    using transport_answers.chain_bounded [OF that] by (simp add: ops_in_flight_def)
next
  fix u
  assume "transport_answered\<^sup>*\<^sup>* s (u, [])"
  then have "transport_quiet (u, [])"
    using transport_answers.rests_quiet [OF assms] by (simp add: ops_in_flight_def)
  then show "\<not> ui_loading u" "\<not> ui_cert_submitting u" "\<not> ui_auto_submitting u" "usable (PlainCompatControl u)"
    by (auto simp: transport_quiet_def usable_def PlainCompatControl_def)
  show "usable (TLSControls u)" if "cert_ready (ui_status u) \<or> tls_enabled (ui_status u)"
    using that \<open>transport_quiet (u, [])\<close> by (auto simp: transport_quiet_def usable_def TLSControls_def PlainCompatControl_def)
qed

theorem transport_page_settles_witness:
  "\<exists>u. transport_answered\<^sup>*\<^sup>* transport_mounted (u, [])"
  using transport_page_settles [OF transport_reachable.mounted] by blast

text \<open>
  C24. The page asks the server to turn TLS on only while it shows a certificate with a
  domain and TLS is off, and to turn it off only while it is on; it asks for automatic
  subdomains only with a non-blank base domain; and it reads the status again by itself
  only while the certificate is being issued.
\<close>

theorem transport_changes_are_guarded:
  assumes "transport_step (u, ps) (u', ps')" "ui_calls u' = ui_calls u @ [c]"
  shows "(c = SetTransportTLS True \<longrightarrow> cert_ready (ui_status u) \<and> \<not> tls_enabled (ui_status u))
    \<and> (c = SetTransportTLS False \<longrightarrow> tls_enabled (ui_status u))
    \<and> (c = SetTransportPlain on \<longrightarrow> on = (\<not> plain_enabled (ui_status u)))
    \<and> (c = SetAutoSubdomain True base \<longrightarrow> base \<noteq> [])
    \<and> (c = GetTransport \<longrightarrow> certificatePending (ui_status u))"
  using step_new_call [OF assms] by (auto simp: nextTLSState_def nextPlainState_def)

definition sample_endpoint :: "bool \<Rightarrow> transport_endpoint" where
  "sample_endpoint on =
     \<lparr>te_enabled = on, te_listen = Some (js ''0.0.0.0:8080''), te_data_listen = None, te_control_url = None,
      te_websocket_url = None, te_data_address = None\<rparr>"

definition sample_status :: "js_string \<Rightarrow> transport_status" where
  "sample_status cert_status =
     \<lparr>st_plain = sample_endpoint True, st_compatibility_plain = sample_endpoint False, st_tls = sample_endpoint False,
      st_certbot = \<lparr>cb_available = True, cb_message = None, cb_version = None\<rparr>,
      st_certificate = Some \<lparr>tc_domain = Some (js ''example.com''), tc_issuer = None, tc_not_after = None,
        tc_status = Some cert_status, tc_error = None, tc_details = None\<rparr>,
      st_auto_subdomain = None\<rparr>"

theorem transport_changes_are_guarded_witness:
  "cert_ready (ui_status (transport_initial\<lparr>ui_status := Some (sample_status (js ''valid''))\<rparr>))"
proof -
  let ?u = "transport_initial\<lparr>ui_status := Some (sample_status (js ''valid''))\<rparr>"
  have "transport_step (?u, []) (fst (toggleTLS ?u), [RunOp (js ''tls'') (snd (toggleTLS ?u))])"
    by (rule transport_step.tls)
      (simp_all add: usable_def TLSControls_def sample_status_def sample_endpoint_def cert_ready_def
        truthy_opt_def transport_initial_def js_def tls_enabled_def)
  from transport_changes_are_guarded [OF this, of "SetTransportTLS True"] show ?thesis
    by (simp add: ui_op_defs nextTLSState_def tls_enabled_def sample_status_def sample_endpoint_def)
qed

text \<open>
  The state of the certificate is shown consistently: the page polls exactly
  when the tag is blue and reads "issuing", the tag is green exactly when it reads "issued",
  red exactly when it reads "failed", and "unbound" is grey; letter case does not matter.
\<close>

lemma certificate_state_is_shown_consistently:
  "(certificatePending s \<longleftrightarrow> certificateTagColor (certificate_status s) = js ''blue'')
   \<and> (certificatePending s \<longleftrightarrow> certificateStateLabel (certificate_status s) = txt_issuing)
   \<and> (certificateTagColor v = js ''green'' \<longleftrightarrow> certificateStateLabel v = txt_issued)
   \<and> (certificateTagColor v = js ''red'' \<longleftrightarrow> certificateStateLabel v = txt_issue_failed)
   \<and> (certificateTagColor v = js ''default'' \<longleftrightarrow> certificateStateLabel v = txt_unbound)"
  by (auto simp: certificatePending_def certificateTagColor_def certificateStateLabel_def lower_opt_def
      Let_def txt_issued_def txt_issuing_def txt_issue_failed_def txt_unbound_def split: option.splits)

text \<open>
  The endpoint table has the three plain rows, and the three TLS rows exactly when
  TLS is on. A configured URL is shown as it is; without one the listen address is shown,
  and a wildcard address is never presented as a host to connect to.
\<close>

lemma endpoints_follow_the_configuration:
  "map er_key (endpointRows s) =
     [js ''http'', js ''ws'', js ''plain-data''] @
     (if tls_enabled s then [js ''https'', js ''wss'', js ''tls-data''] else [])
   \<and> (truthy_opt url \<longrightarrow> valueOrFallback url listen scheme path = the url)
   \<and> (\<not> truthy_opt url \<longrightarrow> valueOrFallback url (Some (any_address @ port)) scheme path
        = scheme @ js ''://'' @ server_ip @ port @ path)
   \<and> (\<not> truthy_opt url \<and> (path = [] \<or> path = js ''/agent/connect'') \<longrightarrow>
        \<not> startsWith (valueOrFallback url listen scheme path) (scheme @ js ''://'' @ any_address))"
proof -
  have keys: "map er_key (endpointRows s) =
     [js ''http'', js ''ws'', js ''plain-data''] @
     (if tls_enabled s then [js ''https'', js ''wss'', js ''tls-data''] else [])"
    by (auto simp: endpointRows_def plain_rows_def tls_rows_def tls_enabled_def Let_def split: option.splits)
  have shown: "valueOrFallback url (Some (any_address @ port)) scheme path = scheme @ js ''://'' @ server_ip @ port @ path"
    if "\<not> truthy_opt url"
    using that by (simp add: valueOrFallback_def truthy_opt_def normalizeListen_def startsWith_iff any_address_def js_def)
  have "\<not> startsWith (valueOrFallback url listen scheme path) (scheme @ js ''://'' @ any_address)"
    if "\<not> truthy_opt url" "path = [] \<or> path = js ''/agent/connect''"
    using that fallback_hides_any_address [of url path] by (auto simp: any_address_def js_def)
  then show ?thesis
    using keys shown by (simp add: valueOrFallback_def)
qed

text \<open>
  The two switches share one busy field, so the first answer unlocks both: there is a
  reachable state in which the request of the compatibility switch is still in flight and
  the switch already accepts another click.
\<close>

lemma switch_unlocks_before_its_answer:
  "\<exists>u ps m. transport_reachable (u, ps) \<and> RunOp (js ''plain'') m \<in> set ps \<and> usable (PlainCompatControl u)"
proof -
  let ?t = "sample_status (js ''valid'')"
  define u1 where "u1 = settle_op (LoadOp False) (Inr ?t) (fst transport_mounted)"
  define u2 where "u2 = fst (toggleTLS u1)"
  define u3 where "u3 = fst (togglePlain u2)"
  define tls where "tls = RunOp (js ''tls'') (snd (toggleTLS u1))"
  define plain where "plain = RunOp (js ''plain'') (snd (togglePlain u2))"
  have status: "ui_status u1 = Some ?t" "ui_busy u1 = None" "ui_busy u2 = Some (js ''tls'')" "ui_status u2 = Some ?t"
    by (simp_all add: u1_def u2_def transport_mounted_def transport_initial_def ui_op_defs)
  have "transport_reachable (u1, [])"
    using transport_reachable.step [OF transport_reachable.mounted, of "(u1, [])"]
      transport_step.answered [OF transport_answered.settle [of "fst transport_mounted" "[]" "LoadOp False" "[]" "Inr ?t"]]
    by (simp add: transport_mounted_def u1_def)
  moreover have "transport_step (u1, []) (u2, [tls])"
    unfolding tls_def u2_def by (rule transport_step.tls)
      (simp_all add: status usable_def TLSControls_def cert_ready_def sample_status_def truthy_opt_def js_def)
  moreover have "transport_step (u2, [tls]) (u3, [plain, tls])"
    unfolding plain_def u3_def by (rule transport_step.plain)
      (simp_all add: status usable_def PlainCompatControl_def js_def)
  moreover have "transport_step (u3, [plain] @ tls # []) (settle_op tls (Inr ?t) u3, [plain] @ [])"
    by (rule transport_step.answered [OF transport_answered.settle])
  ultimately have "transport_reachable (settle_op tls (Inr ?t) u3, [plain])"
    by (metis append_Cons append_Nil transport_reachable.step)
  moreover have "usable (PlainCompatControl (settle_op tls (Inr ?t) u3))"
    by (simp add: tls_def usable_def PlainCompatControl_def ui_run_end_def)
  ultimately show ?thesis
    unfolding plain_def by fastforce
qed

end
