(* ===== verification/Dash_Pages.thy ===== *)
theory Dash_Pages
  imports Transport_Settings
begin

text \<open>
  What the pages of the dashboard share, and the first two pages:
  \<open>web/dashboard/src/pages/ClientsPage.tsx\<close> and \<open>TokensPage.tsx\<close>.

  A page is a record: the loading hook of its data, the API calls it made, the toasts it
  showed and its own fields. A handler that awaits an answer is split at the await: one
  operation up to the call, one that takes the outcome. A handler without a \<open>catch\<close> whose
  call is rejected stops there. Two contracts are stated as locales:
  \<open>reloading_action\<close>, a change that reads the list again once it succeeded, and
  \<open>latest_only\<close>, answers numbered by tickets of which only the newest counts.
\<close>

subsection \<open>Pages\<close>

record 'a page_base =
  pb_hook :: "'a hook"
  pb_calls :: "api_call list"
  pb_toasts :: "toast list"

definition page_call :: "api_call \<Rightarrow> ('a, 'm) page_base_scheme \<Rightarrow> ('a, 'm) page_base_scheme" where
  "page_call c s = s\<lparr>pb_calls := pb_calls s @ [c]\<rparr>"

definition page_toast :: "toast \<Rightarrow> ('a, 'm) page_base_scheme \<Rightarrow> ('a, 'm) page_base_scheme" where
  "page_toast t s = s\<lparr>pb_toasts := pb_toasts s @ [t]\<rparr>"

text \<open>\<open>state.reload()\<close>: a load starts, with the calls of the page's loader.\<close>

definition page_reload :: "api_call list \<Rightarrow> ('a, 'm) page_base_scheme \<Rightarrow> ('a, 'm) page_base_scheme" where
  "page_reload cs s = s\<lparr>pb_hook := hook_step (pb_hook s) Begin, pb_calls := pb_calls s @ cs\<rparr>"

definition page_loaded :: "nat \<Rightarrow> 'a result \<Rightarrow> ('a, 'm) page_base_scheme \<Rightarrow> ('a, 'm) page_base_scheme" where
  "page_loaded i r s = s\<lparr>pb_hook := hook_step (pb_hook s) (Settle i r)\<rparr>"

definition page_data :: "('a, 'm) page_base_scheme \<Rightarrow> 'a option" where
  "page_data s = data (view (pb_hook s))"

definition page_shell :: "js_string \<Rightarrow> ('a, 'm) page_base_scheme \<Rightarrow> page_view" where
  "page_shell title s = Page title (Some (loading (view (pb_hook s)))) (error (view (pb_hook s))) True"

definition list_or_empty :: "'a list option \<Rightarrow> 'a list" where
  "list_or_empty v = (case v of None \<Rightarrow> [] | Some xs \<Rightarrow> xs)"

lemmas page_defs = page_call_def page_toast_def page_reload_def page_loaded_def

subsection \<open>Contracts\<close>

locale reloading_action =
  fixes settle :: "'r result \<Rightarrow> 's \<Rightarrow> 's"
    and calls :: "'s \<Rightarrow> api_call list"
    and loads :: "api_call list"
  assumes on_success: "calls (settle (Inr v) s) = calls s @ loads"
    and on_failure: "calls (settle (Inl e) s) = calls s"
begin

lemma reloads_per_success:
  "calls (fold settle rs s) = calls s @ concat (map (\<lambda>r. if isl r then [] else loads) rs)"
proof (induction rs arbitrary: s)
  case (Cons r rs)
  then show ?case
    by (cases r) (simp_all add: on_success on_failure)
qed simp

end

locale latest_only =
  fixes step :: "'s \<Rightarrow> 'e \<Rightarrow> 's"
    and counter :: "'s \<Rightarrow> nat"
    and shown :: "'s \<Rightarrow> 'd option"
    and outstanding :: "'s \<Rightarrow> nat set"
    and opens :: "'e \<Rightarrow> bool"
    and closes :: "'e \<Rightarrow> bool"
    and delivers :: "'e \<Rightarrow> nat \<Rightarrow> 'd \<Rightarrow> bool"
  assumes open_step: "opens e \<Longrightarrow> counter (step s e) = Suc (counter s) \<and> shown (step s e) = shown s \<and>
      outstanding (step s e) = insert (Suc (counter s)) (outstanding s)"
    and close_step: "closes e \<Longrightarrow> counter (step s e) = Suc (counter s) \<and> shown (step s e) = None \<and>
      outstanding (step s e) = outstanding s"
    and other_step: "\<not> opens e \<Longrightarrow> \<not> closes e \<Longrightarrow> counter (step s e) = counter s \<and>
      outstanding (step s e) \<subseteq> outstanding s \<and>
      (shown (step s e) = shown s \<or>
        (\<exists>d. delivers e (counter s) d \<and> counter s \<in> outstanding s \<and> shown (step s e) = Some d))"
begin

definition tickets_ok :: "'s \<Rightarrow> bool" where
  "tickets_ok s \<longleftrightarrow> (\<forall>n \<in> outstanding s. n \<le> counter s)"

lemma tickets_ok_step: "tickets_ok s \<Longrightarrow> tickets_ok (step s e)"
  using open_step [of e s] close_step [of e s] other_step [of e s]
  by (cases "opens e"; cases "closes e") (auto simp: tickets_ok_def)

lemma tickets_ok_run: "tickets_ok s \<Longrightarrow> tickets_ok (foldl step s es)"
  by (induction es arbitrary: s) (auto simp: tickets_ok_step)

lemma nothing_outstanding:
  assumes "shown s = None" "\<forall>n \<in> outstanding s. n < counter s" "\<forall>e \<in> set es. \<not> opens e"
  shows "shown (foldl step s es) = None"
  using assms
proof (induction es arbitrary: s)
  case (Cons e es)
  have "shown (step s e) = None \<and> (\<forall>n \<in> outstanding (step s e). n < counter (step s e))"
  proof (cases "closes e")
    case True
    then show ?thesis
      using close_step [of e s] Cons.prems(2) by (auto simp: less_SucI)
  next
    case False
    then show ?thesis
      using other_step [of e s] Cons.prems by auto
  qed
  then show ?case
    using Cons.IH Cons.prems(3) by simp
qed simp

lemma closed_stays_closed:
  assumes "tickets_ok s" "closes e" "\<forall>e \<in> set es. \<not> opens e"
  shows "shown (foldl step s (e # es)) = None"
  using nothing_outstanding [of "step s e" es] close_step [OF assms(2), of s] assms(1,3)
  by (auto simp: tickets_ok_def less_Suc_eq_le)

lemma only_current_ticket_shown:
  assumes "\<forall>e \<in> set es. \<not> opens e \<and> \<not> closes e"
  shows "shown (foldl step s es) = shown s \<or>
    (\<exists>e \<in> set es. \<exists>d. delivers e (counter s) d \<and> shown (foldl step s es) = Some d)"
  using assms
proof (induction es arbitrary: s)
  case (Cons e es)
  then have "counter (step s e) = counter s"
    and now: "shown (step s e) = shown s \<or> (\<exists>d. delivers e (counter s) d \<and> shown (step s e) = Some d)"
    using other_step [of e s] by auto
  then show ?case
    using Cons.IH [of "step s e"] Cons.prems by auto
qed simp

lemma latest_is_shown:
  assumes "opens e" "\<forall>e \<in> set es. \<not> opens e \<and> \<not> closes e"
  shows "shown (foldl step s (e # es)) = shown s \<or>
    (\<exists>e' \<in> set es. \<exists>d. delivers e' (Suc (counter s)) d \<and> shown (foldl step s (e # es)) = Some d)"
  using only_current_ticket_shown [OF assms(2), of "step s e"] open_step [OF assms(1), of s] by auto

end

subsection \<open>Cells of tables and descriptions\<close>

datatype cell = Text js_string | Tagged tag_view

type_synonym description = "(js_string \<times> js_string \<times> cell) list"

definition client_status_tag :: "client \<Rightarrow> tag_view" where
  "client_status_tag c = StatusTag (if cl_disabled c then js ''disabled'' else cl_status c)"

definition host_port :: "tunnel \<Rightarrow> js_string" where
  "host_port t = tn_local_host t @ js '':'' @ int_text (tn_local_port t)"

definition or_dash :: "js_string \<Rightarrow> js_string" where
  "or_dash s = (if truthy s then s else dash)"

subsection \<open>The clients page (ClientsPage.tsx)\<close>

record clients_page = "client list page_base" +
  cp_detail :: "client_detail option"
  cp_editing :: "client option"
  cp_token_value :: "js_string option"
  cp_detail_request :: nat
  cp_pending :: "nat list"

definition clients_initial :: clients_page where
  "clients_initial =
     \<lparr>pb_hook = mounted, pb_calls = [], pb_toasts = [], cp_detail = None, cp_editing = None,
      cp_token_value = None, cp_detail_request = 0, cp_pending = []\<rparr>"

text \<open>\<open>cp_pending\<close> lists the tickets (\<open>request\<close>) of the activations of \<open>loadDetail\<close> that wait.\<close>

definition loadDetail :: "client \<Rightarrow> clients_page \<Rightarrow> clients_page" where
  "loadDetail c s =
     (let ticket = Suc (cp_detail_request s) in
      page_call (GetClient (cl_id c)) (s\<lparr>cp_detail_request := ticket, cp_pending := cp_pending s @ [ticket]\<rparr>))"

definition loadDetail_answer :: "nat \<Rightarrow> client_detail result \<Rightarrow> clients_page \<Rightarrow> clients_page" where
  "loadDetail_answer ticket r s =
     (if ticket \<notin> set (cp_pending s) then s
      else
        (let s' = s\<lparr>cp_pending := removeAll ticket (cp_pending s)\<rparr> in
         case r of
           Inl e \<Rightarrow> s'
         | Inr d \<Rightarrow> if ticket = cp_detail_request s then s'\<lparr>cp_detail := Some d\<rparr> else s'))"

definition closeDetail :: "clients_page \<Rightarrow> clients_page" where
  "closeDetail s = s\<lparr>cp_detail_request := Suc (cp_detail_request s), cp_detail := None\<rparr>"

definition saveEdit :: "js_string \<Rightarrow> bool \<Rightarrow> clients_page \<Rightarrow> clients_page" where
  "saveEdit name disabled s =
     (case cp_editing s of
        None \<Rightarrow> s
      | Some c \<Rightarrow> page_call (UpdateClient (cl_id c) (Some name) (Some disabled)) s)"

definition saveEdit_answer :: "unit result \<Rightarrow> clients_page \<Rightarrow> clients_page" where
  "saveEdit_answer r s =
     (case r of Inl e \<Rightarrow> s | Inr u \<Rightarrow> page_reload [ListClients] (s\<lparr>cp_editing := None\<rparr>))"

definition removeClient :: "client \<Rightarrow> clients_page \<Rightarrow> clients_page" where
  "removeClient c s = page_call (DeleteClient (cl_id c)) s"

definition removeClient_answer :: "unit result \<Rightarrow> clients_page \<Rightarrow> clients_page" where
  "removeClient_answer r s =
     (case r of Inl e \<Rightarrow> s
      | Inr u \<Rightarrow> page_reload [ListClients] (page_toast (Success [0x5BA2, 0x6237, 0x7AEF, 0x5DF2, 0x5220, 0x9664]) s))"

definition resetToken :: "client \<Rightarrow> clients_page \<Rightarrow> clients_page" where
  "resetToken c s = page_call (ResetClientToken (cl_id c)) s"

definition resetToken_answer :: "js_string result \<Rightarrow> clients_page \<Rightarrow> clients_page" where
  "resetToken_answer r s = (case r of Inl e \<Rightarrow> s | Inr v \<Rightarrow> s\<lparr>cp_token_value := Some v\<rparr>)"

datatype clients_event =
    ViewClient client | DetailAnswer nat "client_detail result" | CloseDetail
  | EditClient client | CancelEdit | SaveEdit js_string bool | UpdateAnswer "unit result"
  | RemoveConfirmed client | DeleteAnswer "unit result"
  | ResetToken client | ResetAnswer "js_string result" | CloseToken
  | ClientsReload | ClientsLoaded nat "client list result"

fun clients_step :: "clients_page \<Rightarrow> clients_event \<Rightarrow> clients_page" where
  "clients_step s (ViewClient c) = loadDetail c s"
| "clients_step s (DetailAnswer n r) = loadDetail_answer n r s"
| "clients_step s CloseDetail = closeDetail s"
| "clients_step s (EditClient c) = s\<lparr>cp_editing := Some c\<rparr>"
| "clients_step s CancelEdit = s\<lparr>cp_editing := None\<rparr>"
| "clients_step s (SaveEdit n d) = saveEdit n d s"
| "clients_step s (UpdateAnswer r) = saveEdit_answer r s"
| "clients_step s (RemoveConfirmed c) = removeClient c s"
| "clients_step s (DeleteAnswer r) = removeClient_answer r s"
| "clients_step s (ResetToken c) = resetToken c s"
| "clients_step s (ResetAnswer r) = resetToken_answer r s"
| "clients_step s CloseToken = s\<lparr>cp_token_value := None\<rparr>"
| "clients_step s ClientsReload = page_reload [ListClients] s"
| "clients_step s (ClientsLoaded i r) = page_loaded i r s"

record client_row =
  cr_name :: js_string
  cr_status :: tag_view
  cr_ip :: js_string
  cr_os :: js_string
  cr_version :: js_string
  cr_last_online :: js_string

definition row_of_client :: "parse_date \<Rightarrow> locale_date \<Rightarrow> client \<Rightarrow> client_row" where
  "row_of_client parse locale c =
     \<lparr>cr_name = cl_name c, cr_status = client_status_tag c, cr_ip = cl_ip c, cr_os = cl_os c,
      cr_version = cl_version c, cr_last_online = formatDate parse locale (Some (cl_last_online c))\<rparr>"

record drawer_view =
  dv_items :: description
  dv_tunnels :: "(js_string \<times> js_string \<times> js_string \<times> tag_view) list"

definition trafficTotal :: "traffic_summary \<Rightarrow> js_string" where
  "trafficTotal v = bytes_text (ts_upload v + ts_download v)"

definition ClientDrawer :: "parse_date \<Rightarrow> locale_date \<Rightarrow> client_detail option \<Rightarrow> drawer_view option" where
  "ClientDrawer parse locale detail =
     (case detail of
        None \<Rightarrow> None
      | Some d \<Rightarrow>
          (let c = cd_client d in
           Some \<lparr>dv_items =
             [(js ''id'', js ''ID'', Text (cl_id c)),
              (js ''device'', [0x8BBE, 0x5907, 0x20, 0x49, 0x44], Text (cl_device_id c)),
              (js ''status'', [0x72B6, 0x6001], Tagged (client_status_tag c)),
              (js ''system'', [0x7CFB, 0x7EDF], Text (or_dash (cl_os c) @ js '' / '' @ or_dash (cl_version c))),
              (js ''ip'', js ''IP'', Text (or_dash (cl_ip c))),
              (js ''connected'', [0x5DF2, 0x8FDE, 0x63A5, 0x65F6, 0x957F],
                Text (if truthy_opt (cd_connected_at d) then formatDuration (Fin (of_int (cd_connected_seconds d)))
                      else [0x79BB, 0x7EBF])),
              (js ''today'', [0x4ECA, 0x65E5, 0x6D41, 0x91CF], Text (trafficTotal (cd_today d))),
              (js ''month'', [0x672C, 0x6708, 0x6D41, 0x91CF], Text (trafficTotal (cd_month d))),
              (js ''last'', [0x6700, 0x540E, 0x5728, 0x7EBF], Text (formatDate parse locale (Some (cl_last_online c))))],
             dv_tunnels = map (\<lambda>t. (tn_name t, tn_protocol t, host_port t, StatusTag (tn_status t))) (cd_tunnels d)\<rparr>))"

text \<open>The editor shows the name and the switch of the client it was opened with.\<close>

definition ClientEditor :: "client option \<Rightarrow> (js_string \<times> bool) option" where
  "ClientEditor c = map_option (\<lambda>c. (cl_name c, cl_disabled c)) c"

record clients_view =
  cv_page :: page_view
  cv_rows :: "client_row list"
  cv_drawer :: "drawer_view option"
  cv_editor :: "(js_string \<times> bool) option"
  cv_token :: "js_string option"

definition ClientsPage :: "parse_date \<Rightarrow> locale_date \<Rightarrow> clients_page \<Rightarrow> clients_view" where
  "ClientsPage parse locale s =
     \<lparr>cv_page = page_shell [0x5BA2, 0x6237, 0x7AEF] s,
      cv_rows = map (row_of_client parse locale) (list_or_empty (page_data s)),
      cv_drawer = ClientDrawer parse locale (cp_detail s), cv_editor = ClientEditor (cp_editing s),
      cv_token = (if truthy_opt (cp_token_value s) then cp_token_value s else None)\<rparr>"

subsection \<open>The tokens page (TokensPage.tsx)\<close>

record tokens_page = "token list page_base" +
  tp_open :: bool
  tp_created :: "js_string option"
  tp_form_name :: js_string

definition tokens_initial :: tokens_page where
  "tokens_initial =
     \<lparr>pb_hook = mounted, pb_calls = [], pb_toasts = [], tp_open = False, tp_created = None, tp_form_name = []\<rparr>"

text \<open>\<open>validateFields\<close> rejects an empty required field, and the handler stops.\<close>

definition createToken :: "tokens_page \<Rightarrow> tokens_page" where
  "createToken s = (if tp_form_name s = [] then s else page_call (CreateToken (tp_form_name s)) s)"

definition createToken_answer :: "js_string result \<Rightarrow> tokens_page \<Rightarrow> tokens_page" where
  "createToken_answer r s =
     (case r of Inl e \<Rightarrow> s
      | Inr v \<Rightarrow> page_reload [ListTokens] (s\<lparr>tp_created := Some v, tp_open := False, tp_form_name := []\<rparr>))"

definition removeToken :: "token \<Rightarrow> tokens_page \<Rightarrow> tokens_page" where
  "removeToken t s = page_call (DeleteToken (tk_id t)) s"

definition removeToken_answer :: "unit result \<Rightarrow> tokens_page \<Rightarrow> tokens_page" where
  "removeToken_answer r s =
     (case r of Inl e \<Rightarrow> s
      | Inr u \<Rightarrow> page_reload [ListTokens] (page_toast (Success [0x4EE4, 0x724C, 0x5DF2, 0x5220, 0x9664]) s))"

definition switchToken :: "token \<Rightarrow> bool \<Rightarrow> tokens_page \<Rightarrow> tokens_page" where
  "switchToken t v s = page_call (SetTokenDisabled (tk_id t) v) s"

definition switchToken_answer :: "unit result \<Rightarrow> tokens_page \<Rightarrow> tokens_page" where
  "switchToken_answer r s = (case r of Inl e \<Rightarrow> s | Inr u \<Rightarrow> page_reload [ListTokens] s)"

datatype tokens_event =
    OpenCreate | CancelCreate | NameTyped js_string | CreateConfirmed | CreateAnswer "js_string result"
  | RemoveTokenConfirmed token | RemoveTokenAnswer "unit result" | TokenSwitched token bool | SwitchAnswer "unit result"
  | ClosePlain | TokensReload | TokensLoaded nat "token list result"

fun tokens_step :: "tokens_page \<Rightarrow> tokens_event \<Rightarrow> tokens_page" where
  "tokens_step s OpenCreate = s\<lparr>tp_open := True\<rparr>"
| "tokens_step s CancelCreate = s\<lparr>tp_open := False\<rparr>"
| "tokens_step s (NameTyped n) = s\<lparr>tp_form_name := n\<rparr>"
| "tokens_step s CreateConfirmed = createToken s"
| "tokens_step s (CreateAnswer r) = createToken_answer r s"
| "tokens_step s (RemoveTokenConfirmed t) = removeToken t s"
| "tokens_step s (RemoveTokenAnswer r) = removeToken_answer r s"
| "tokens_step s (TokenSwitched t v) = switchToken t v s"
| "tokens_step s (SwitchAnswer r) = switchToken_answer r s"
| "tokens_step s ClosePlain = s\<lparr>tp_created := None\<rparr>"
| "tokens_step s TokensReload = page_reload [ListTokens] s"
| "tokens_step s (TokensLoaded i r) = page_loaded i r s"

record token_row =
  kr_name :: js_string
  kr_prefix :: js_string
  kr_disabled :: bool
  kr_last_used :: js_string
  kr_created_at :: js_string

record tokens_view =
  kv_page :: page_view
  kv_rows :: "token_row list"
  kv_creating :: bool
  kv_plain :: "js_string option"

definition TokensPage :: "parse_date \<Rightarrow> locale_date \<Rightarrow> tokens_page \<Rightarrow> tokens_view" where
  "TokensPage parse locale s =
     \<lparr>kv_page = page_shell [0x4EE4, 0x724C] s,
      kv_rows = map (\<lambda>t. \<lparr>kr_name = tk_name t, kr_prefix = tk_prefix t, kr_disabled = tk_disabled t,
          kr_last_used = formatDate parse locale (tk_last_used t),
          kr_created_at = formatDate parse locale (Some (tk_created_at t))\<rparr>) (list_or_empty (page_data s)),
      kv_creating = tp_open s,
      kv_plain = (if truthy_opt (tp_created s) then tp_created s else None)\<rparr>"

subsection \<open>The pages meet the contracts\<close>

fun views_client :: "clients_event \<Rightarrow> bool" where
  "views_client (ViewClient c) = True"
| "views_client _ = False"

fun delivers_detail :: "clients_event \<Rightarrow> nat \<Rightarrow> client_detail \<Rightarrow> bool" where
  "delivers_detail (DetailAnswer m r) n d = (m = n \<and> r = Inr d)"
| "delivers_detail _ n d = False"

lemmas clients_defs = loadDetail_def loadDetail_answer_def closeDetail_def saveEdit_def saveEdit_answer_def
  removeClient_def removeClient_answer_def resetToken_def resetToken_answer_def page_defs Let_def

lemmas tokens_defs = createToken_def createToken_answer_def removeToken_def removeToken_answer_def
  switchToken_def switchToken_answer_def page_defs

interpretation drawer: latest_only clients_step cp_detail_request cp_detail "\<lambda>s. set (cp_pending s)"
  views_client "\<lambda>e. e = CloseDetail" delivers_detail
proof
  fix e s
  assume "views_client e"
  then show "cp_detail_request (clients_step s e) = Suc (cp_detail_request s) \<and> cp_detail (clients_step s e) = cp_detail s \<and>
      set (cp_pending (clients_step s e)) = insert (Suc (cp_detail_request s)) (set (cp_pending s))"
    by (cases e) (simp_all add: clients_defs)
next
  fix e s
  assume "e = CloseDetail"
  then show "cp_detail_request (clients_step s e) = Suc (cp_detail_request s) \<and> cp_detail (clients_step s e) = None \<and>
      set (cp_pending (clients_step s e)) = set (cp_pending s)"
    by (simp add: clients_defs)
next
  fix e s
  assume "\<not> views_client e" "e \<noteq> CloseDetail"
  then show "cp_detail_request (clients_step s e) = cp_detail_request s \<and>
      set (cp_pending (clients_step s e)) \<subseteq> set (cp_pending s) \<and>
      (cp_detail (clients_step s e) = cp_detail s \<or>
        (\<exists>d. delivers_detail e (cp_detail_request s) d \<and> cp_detail_request s \<in> set (cp_pending s) \<and>
             cp_detail (clients_step s e) = Some d))"
    by (cases e) (auto simp: clients_defs split: option.splits sum.splits)
qed

interpretation client_update: reloading_action saveEdit_answer pb_calls "[ListClients]"
  by unfold_locales (simp_all add: clients_defs)

interpretation client_delete: reloading_action removeClient_answer pb_calls "[ListClients]"
  by unfold_locales (simp_all add: clients_defs)

interpretation token_create: reloading_action createToken_answer pb_calls "[ListTokens]"
  by unfold_locales (simp_all add: tokens_defs)

interpretation token_delete: reloading_action removeToken_answer pb_calls "[ListTokens]"
  by unfold_locales (simp_all add: tokens_defs)

interpretation token_switch: reloading_action switchToken_answer pb_calls "[ListTokens]"
  by unfold_locales (simp_all add: tokens_defs)

lemma initial_tickets: "drawer.tickets_ok clients_initial"
  by (simp add: drawer.tickets_ok_def clients_initial_def)

subsection \<open>Properties\<close>

text \<open>
  Once the user closes the client drawer it stays closed until a client is viewed again,
  whichever requests for details were under way and in whatever order they are answered.
\<close>

lemma closed_drawer_stays_closed:
  assumes "\<forall>e \<in> set later. \<not> views_client e"
  shows "cp_detail (foldl clients_step clients_initial (earlier @ CloseDetail # later)) = None"
  using drawer.closed_stays_closed [OF drawer.tickets_ok_run [OF initial_tickets] refl assms] by simp

definition sample_client :: "js_string \<Rightarrow> client" where
  "sample_client i =
     \<lparr>cl_id = i, cl_name = i, cl_device_id = [], cl_token_id = [], cl_status = js ''online'', cl_disabled = False,
      cl_ip = [], cl_os = [], cl_version = [], cl_last_online = [], cl_created_at = []\<rparr>"

definition sample_detail :: "js_string \<Rightarrow> client_detail" where
  "sample_detail i =
     \<lparr>cd_client = sample_client i, cd_tunnels = [], cd_connected_at = None, cd_connected_seconds = 0,
      cd_today = \<lparr>ts_upload = 0, ts_download = 0\<rparr>, cd_month = \<lparr>ts_upload = 0, ts_download = 0\<rparr>\<rparr>"

text \<open>
  C21. After a client is viewed, and until another one is viewed or the drawer is closed, the
  drawer changes only to an answer to that very request: a late answer for a client viewed
  before is dropped. The answer to that request is shown when it arrives.
\<close>

theorem drawer_shows_the_client_viewed_last:
  assumes "\<forall>e \<in> set later. \<not> views_client e \<and> e \<noteq> CloseDetail"
  shows "(cp_detail (foldl clients_step s (ViewClient c # later)) = cp_detail s \<or>
      (\<exists>d. DetailAnswer (Suc (cp_detail_request s)) (Inr d) \<in> set later \<and>
           cp_detail (foldl clients_step s (ViewClient c # later)) = Some d)) \<and>
    cp_detail (foldl clients_step s [ViewClient c, DetailAnswer (Suc (cp_detail_request s)) (Inr d)]) = Some d"
proof -
  have "\<exists>d. DetailAnswer n (Inr d) \<in> set later \<and> P d" if "e \<in> set later" "delivers_detail e n d" "P d" for e n d P
    using that delivers_detail.elims(2) by metis
  moreover have "cp_detail (foldl clients_step s [ViewClient c, DetailAnswer (Suc (cp_detail_request s)) (Inr d)]) = Some d"
    by (simp add: clients_defs)
  ultimately show ?thesis
    using drawer.latest_is_shown [of "ViewClient c" later s] assms by fastforce
qed

theorem drawer_shows_the_client_viewed_last_witness:
  "cp_detail (foldl clients_step clients_initial
     [ViewClient (sample_client (js ''a'')), ViewClient (sample_client (js ''b'')),
      DetailAnswer 1 (Inr (sample_detail (js ''a'')))]) = None"
  using drawer_shows_the_client_viewed_last [of "[DetailAnswer 1 (Inr (sample_detail (js ''a'')))]"
      "clients_step clients_initial (ViewClient (sample_client (js ''a'')))" "sample_client (js ''b'')"]
  by (auto simp: clients_defs clients_initial_def)

end
