(* ===== verification/Dash_Views.thy ===== *)
theory Dash_Views
  imports Dash_Pages
begin

text \<open>
  The remaining pages of \<open>web/dashboard/src/pages/\<close>: \<open>LogsPage.tsx\<close>, \<open>TrafficPage.tsx\<close>,
  \<open>SettingsPage.tsx\<close>, \<open>RelaysPage.tsx\<close> and \<open>OverviewPage.tsx\<close>. The loading hook of a page
  starts a load when a dependency changed; the updates of one handler are one change.
\<close>

subsection \<open>Logs (LogsPage.tsx)\<close>

record logs_data =
  ld_items :: "log_entry list"
  ld_total :: int

text \<open>The button \<open>clear\<close> opens a dialog whose \<open>onOk\<close> is a closure of that rendering: its \<open>state.reload\<close> loads with the
  filters of the moment in which the dialog was opened. \<open>lp_dialogs\<close> has these filters for the dialogs that can
  be confirmed, \<open>lp_clearing\<close> for those whose request is under way.\<close>

record logs_page = "logs_data page_base" +
  lp_query :: js_string
  lp_search :: js_string
  lp_level :: "js_string option"
  lp_page :: int
  lp_dialogs :: "log_filter list"
  lp_clearing :: "log_filter list"

definition logs_filter :: "logs_page \<Rightarrow> log_filter" where
  "logs_filter s = \<lparr>lf_keyword = Some (lp_query s), lf_level = lp_level s, lf_page = Some (lp_page s), lf_limit = None\<rparr>"

definition logs_call :: "logs_page \<Rightarrow> api_call" where
  "logs_call s = GetLogs (logs_filter s)"

definition logs_deps :: "logs_page \<Rightarrow> js_string \<times> js_string option \<times> int" where
  "logs_deps s = (lp_query s, lp_level s, lp_page s)"

definition logs_render :: "logs_page \<Rightarrow> logs_page \<Rightarrow> logs_page" where
  "logs_render old s = (if logs_deps s = logs_deps old then s else page_reload [logs_call s] s)"

definition logs_mounted :: logs_page where
  "logs_mounted =
     (let s = \<lparr>pb_hook = mounted, pb_calls = [], pb_toasts = [], lp_query = [], lp_search = [], lp_level = None,
               lp_page = 1, lp_dialogs = [], lp_clearing = []\<rparr>
      in page_reload [logs_call s] s)"

definition applySearch :: "js_string \<Rightarrow> logs_page \<Rightarrow> logs_page" where
  "applySearch v s = s\<lparr>lp_page := 1, lp_query := js_trim v\<rparr>"

definition searchTyped :: "js_string \<Rightarrow> logs_page \<Rightarrow> logs_page" where
  "searchTyped v s =
     (let s' = s\<lparr>lp_search := v\<rparr> in if truthy v then s' else applySearch [] s')"

definition levelChosen :: "js_string option \<Rightarrow> logs_page \<Rightarrow> logs_page" where
  "levelChosen l s = s\<lparr>lp_page := 1, lp_level := l\<rparr>"

definition clear :: "logs_page \<Rightarrow> logs_page" where
  "clear s = s\<lparr>lp_dialogs := lp_dialogs s @ [logs_filter s]\<rparr>"

definition clear_cancelled :: "nat \<Rightarrow> logs_page \<Rightarrow> logs_page" where
  "clear_cancelled i s = s\<lparr>lp_dialogs := remove_nth i (lp_dialogs s)\<rparr>"

definition clearLogs :: "nat \<Rightarrow> logs_page \<Rightarrow> logs_page" where
  "clearLogs i s =
     (if i < length (lp_dialogs s)
      then page_call ClearLogs
        (s\<lparr>lp_dialogs := remove_nth i (lp_dialogs s), lp_clearing := lp_clearing s @ [lp_dialogs s ! i]\<rparr>)
      else s)"

text \<open>After a failure the dialog is still open and can be confirmed again.\<close>

definition clearLogs_answer :: "nat \<Rightarrow> int result \<Rightarrow> logs_page \<Rightarrow> logs_page" where
  "clearLogs_answer i r s =
     (if i < length (lp_clearing s)
      then (let f = lp_clearing s ! i; s' = s\<lparr>lp_clearing := remove_nth i (lp_clearing s)\<rparr> in
            case r of
              Inl e \<Rightarrow> s'\<lparr>lp_dialogs := lp_dialogs s' @ [f]\<rparr>
            | Inr n \<Rightarrow> page_reload [GetLogs f] (page_toast (Success ([0x5DF2, 0x5220, 0x9664, 0x20] @ int_text n @ [0x20, 0x6761, 0x65E5, 0x5FD7])) s'))
      else s)"

definition download :: "logs_page \<Rightarrow> logs_page" where
  "download s =
     page_call (DownloadLogs \<lparr>lf_keyword = Some (lp_query s), lf_level = lp_level s, lf_page = None, lf_limit = None\<rparr>) s"

definition download_answer :: "unit result \<Rightarrow> logs_page \<Rightarrow> logs_page" where
  "download_answer r s = (case r of Inl e \<Rightarrow> page_toast (Failure (toMessage e)) s | Inr u \<Rightarrow> s)"

datatype logs_event =
    SearchSubmitted js_string | SearchTyped js_string | LevelChosen "js_string option" | PageChosen int
  | LogsReload | LogsLoaded nat "logs_data result"
  | ClearClicked | ClearCancelled nat | ClearConfirmed nat | ClearAnswer nat "int result" | DownloadClicked | DownloadAnswer "unit result"

fun logs_step :: "logs_page \<Rightarrow> logs_event \<Rightarrow> logs_page" where
  "logs_step s (SearchSubmitted v) = logs_render s (applySearch v s)"
| "logs_step s (SearchTyped v) = logs_render s (searchTyped v s)"
| "logs_step s (LevelChosen l) = logs_render s (levelChosen l s)"
| "logs_step s (PageChosen p) = logs_render s (s\<lparr>lp_page := p\<rparr>)"
| "logs_step s LogsReload = page_reload [logs_call s] s"
| "logs_step s (LogsLoaded i r) = page_loaded i r s"
| "logs_step s ClearClicked = clear s"
| "logs_step s (ClearCancelled i) = clear_cancelled i s"
| "logs_step s (ClearConfirmed i) = clearLogs i s"
| "logs_step s (ClearAnswer i r) = clearLogs_answer i r s"
| "logs_step s DownloadClicked = download s"
| "logs_step s (DownloadAnswer r) = download_answer r s"

definition levelOptions :: "(js_string \<times> js_string) list" where
  "levelOptions =
     [(js ''debug'', [0x8C03, 0x8BD5]), (js ''info'', [0x4FE1, 0x606F]), (js ''warn'', [0x8B66, 0x544A]), (js ''error'', [0x9519, 0x8BEF])]"

definition levelText :: "js_string \<Rightarrow> js_string" where
  "levelText v = (case map_of levelOptions v of None \<Rightarrow> v | Some l \<Rightarrow> l)"

definition level_color :: "js_string \<Rightarrow> js_string" where
  "level_color level =
     (if level = js ''error'' then js ''red'' else if level = js ''warn'' then js ''orange''
      else if level = js ''info'' then js ''blue'' else js ''default'')"

record log_row =
  lr_key :: js_string
  lr_level :: tag_view
  lr_event :: js_string
  lr_message :: js_string
  lr_created_at :: js_string

definition row_of_log :: "parse_date \<Rightarrow> locale_date \<Rightarrow> nat \<Rightarrow> log_entry \<Rightarrow> log_row" where
  "row_of_log parse locale i e =
     \<lparr>lr_key = str_or (le_id e)
        ((case le_created_at e of None \<Rightarrow> js ''undefined'' | Some d \<Rightarrow> d) @ js ''-'' @ nat_text i),
      lr_level = \<lparr>tag_color = level_color (le_level e), tag_text = levelText (le_level e)\<rparr>,
      lr_event = str_or (le_event e) dash, lr_message = le_message e,
      lr_created_at = formatDate parse locale (le_created_at e)\<rparr>"

record logs_view =
  lv_page :: page_view
  lv_search :: js_string
  lv_rows :: "log_row list"
  lv_current :: int
  lv_page_size :: int
  lv_total :: int

definition LogsPage :: "parse_date \<Rightarrow> locale_date \<Rightarrow> logs_page \<Rightarrow> logs_view" where
  "LogsPage parse locale s =
     (let rows = list_or_empty (map_option ld_items (page_data s)) in
      \<lparr>lv_page = page_shell [0x65E5, 0x5FD7] s, lv_search = lp_search s,
       lv_rows = map (\<lambda>i. row_of_log parse locale i (rows ! i)) [0..<length rows],
       lv_current = lp_page s, lv_page_size = 100,
       lv_total = (case page_data s of None \<Rightarrow> 0 | Some d \<Rightarrow> ld_total d)\<rparr>)"

subsection \<open>Traffic (TrafficPage.tsx)\<close>

record traffic_page = "traffic_response page_base" +
  fp_range :: traffic_range

definition traffic_mounted :: traffic_page where
  "traffic_mounted =
     page_reload [GetTraffic Today] \<lparr>pb_hook = mounted, pb_calls = [], pb_toasts = [], fp_range = Today\<rparr>"

definition rangeChosen :: "traffic_range \<Rightarrow> traffic_page \<Rightarrow> traffic_page" where
  "rangeChosen r s = (if r = fp_range s then s else page_reload [GetTraffic r] (s\<lparr>fp_range := r\<rparr>))"

datatype traffic_event = RangeChosen traffic_range | TrafficReload | TrafficLoaded nat "traffic_response result"

fun traffic_step :: "traffic_page \<Rightarrow> traffic_event \<Rightarrow> traffic_page" where
  "traffic_step s (RangeChosen r) = rangeChosen r s"
| "traffic_step s TrafficReload = page_reload [GetTraffic (fp_range s)] s"
| "traffic_step s (TrafficLoaded i r) = page_loaded i r s"

definition TrafficTable :: "traffic_target list \<Rightarrow> (js_string \<times> js_string \<times> js_string \<times> js_string) list" where
  "TrafficTable targets =
     map (\<lambda>r. (tt_name r, bytes_text (tt_upload r), bytes_text (tt_download r), bytes_text (tt_upload r + tt_download r))) targets"

record traffic_view =
  fv_page :: page_view
  fv_upload :: js_string
  fv_download :: js_string
  fv_total :: js_string
  fv_clients :: "(js_string \<times> js_string \<times> js_string \<times> js_string) list"
  fv_tunnels :: "(js_string \<times> js_string \<times> js_string \<times> js_string) list"

definition TrafficPage :: "traffic_page \<Rightarrow> traffic_view" where
  "TrafficPage s =
     (let summary = (case page_data s of None \<Rightarrow> \<lparr>ts_upload = 0, ts_download = 0\<rparr> | Some d \<Rightarrow> tr_summary d) in
      \<lparr>fv_page = page_shell [0x6D41, 0x91CF] s, fv_upload = bytes_text (ts_upload summary),
       fv_download = bytes_text (ts_download summary),
       fv_total = bytes_text (ts_upload summary + ts_download summary),
       fv_clients = TrafficTable (list_or_empty (map_option tr_clients (page_data s))),
       fv_tunnels = TrafficTable (list_or_empty (map_option tr_tunnels (page_data s)))\<rparr>)"

subsection \<open>Settings (SettingsPage.tsx)\<close>

record settings_page = "setting_item list page_base" +
  gp_password_form :: "js_string \<times> js_string"

definition submitPassword :: "settings_page \<Rightarrow> settings_page" where
  "submitPassword s =
     page_call (ChangePassword (fst (gp_password_form s)) (snd (gp_password_form s))) s"

definition submitPassword_answer :: "unit result \<Rightarrow> settings_page \<Rightarrow> settings_page" where
  "submitPassword_answer r s =
     (case r of
        Inl e \<Rightarrow> page_toast (Failure (toMessage e)) s
      | Inr u \<Rightarrow> (page_toast (Success [0x7BA1, 0x7406, 0x5458, 0x5BC6, 0x7801, 0x5DF2, 0x4FEE, 0x6539]) s)\<lparr>gp_password_form := ([], [])\<rparr>)"

definition saveValue :: "setting_item \<Rightarrow> json \<Rightarrow> settings_page \<Rightarrow> settings_page" where
  "saveValue item v s = page_call (UpdateSetting (si_key item) v) s"

definition saveValue_answer :: "js_string \<Rightarrow> unit result \<Rightarrow> settings_page \<Rightarrow> settings_page" where
  "saveValue_answer key r s =
     (case r of
        Inl e \<Rightarrow> page_toast (Failure (toMessage e)) s
      | Inr u \<Rightarrow> page_reload [GetSettings] (page_toast (Success (settingSaveMessage key)) s))"

datatype settings_event =
    PasswordTyped "js_string \<times> js_string" | PasswordSubmitted | PasswordAnswer "unit result"
  | ValueSaved setting_item json | ValueAnswer js_string "unit result"
  | SettingsReload | SettingsLoaded nat "setting_item list result"

fun settings_step :: "settings_page \<Rightarrow> settings_event \<Rightarrow> settings_page" where
  "settings_step s (PasswordTyped f) = s\<lparr>gp_password_form := f\<rparr>"
| "settings_step s PasswordSubmitted = submitPassword s"
| "settings_step s (PasswordAnswer r) = submitPassword_answer r s"
| "settings_step s (ValueSaved item v) = saveValue item v s"
| "settings_step s (ValueAnswer key r) = saveValue_answer key r s"
| "settings_step s SettingsReload = page_reload [GetSettings] s"
| "settings_step s (SettingsLoaded i r) = page_loaded i r s"

record value_editor_view =
  ve_switch :: bool
  ve_disabled :: bool
  ve_initial :: json

definition ValueEditor :: "setting_item \<Rightarrow> value_editor_view" where
  "ValueEditor item =
     \<lparr>ve_switch = (case si_value item of JBool b \<Rightarrow> True | _ \<Rightarrow> False),
      ve_disabled = (si_mutable item \<noteq> Some True), ve_initial = si_value item\<rparr>"

definition SettingsPage :: "settings_page \<Rightarrow> page_view \<times> (js_string \<times> value_editor_view \<times> js_string) list" where
  "SettingsPage s =
     (page_shell [0x8BBE, 0x7F6E] s,
      map (\<lambda>i. (si_key i, ValueEditor i, str_or (si_description i) dash))
        (rows (splitSettingsRows (list_or_empty (page_data s)))))"

subsection \<open>Relays (RelaysPage.tsx)\<close>

record relays_page = "relay_node list page_base" +
  rp_assignments :: "relay_assignment list hook"

text \<open>Both hooks load again: every five seconds, and on the reload button.\<close>

definition relays_reload :: "relays_page \<Rightarrow> relays_page" where
  "relays_reload s =
     page_call GetRelayAssignments ((page_reload [GetRelays] s)\<lparr>rp_assignments := hook_step (rp_assignments s) Begin\<rparr>)"

datatype relays_event =
    RelaysTimer | RelaysReload | NodesLoaded nat "relay_node list result" | AssignmentsLoaded nat "relay_assignment list result"

fun relays_step :: "relays_page \<Rightarrow> relays_event \<Rightarrow> relays_page" where
  "relays_step s RelaysTimer = relays_reload s"
| "relays_step s RelaysReload = relays_reload s"
| "relays_step s (NodesLoaded i r) = page_loaded i r s"
| "relays_step s (AssignmentsLoaded i r) = s\<lparr>rp_assignments := hook_step (rp_assignments s) (Settle i r)\<rparr>"

definition relay_health_tag :: "relay_node \<Rightarrow> tag_view" where
  "relay_health_tag n =
     \<lparr>tag_color = (if rn_healthy n then js ''green'' else js ''red''),
      tag_text = Dash_Format.statusText (Some (if rn_healthy n then js ''healthy'' else js ''offline''))\<rparr>"

record relays_view =
  rv_page :: page_view
  rv_nodes :: "(js_string \<times> js_string \<times> tag_view \<times> int \<times> js_string) list"
  rv_assignments :: "(js_string \<times> js_string \<times> js_string) list"

definition RelaysPage :: "parse_date \<Rightarrow> locale_date \<Rightarrow> relays_page \<Rightarrow> relays_view" where
  "RelaysPage parse locale s =
     (let nodes = view (pb_hook s); assignments = view (rp_assignments s) in
      \<lparr>rv_page = Page [0x4E2D, 0x7EE7] (Some (loading nodes \<or> loading assignments))
         (if truthy_opt (error nodes) then error nodes else error assignments) True,
       rv_nodes = map (\<lambda>n. (rn_id n, rn_address n, relay_health_tag n, rn_connections n,
           formatDate parse locale (Some (rn_last_seen n)))) (list_or_empty (data nodes)),
       rv_assignments = map (\<lambda>a. (ra_tunnel_id a, ra_node_id a, ra_address a)) (list_or_empty (data assignments))\<rparr>)"

subsection \<open>Overview (OverviewPage.tsx)\<close>

record overview_data =
  od_overview :: overview
  od_clients :: "client list"
  od_tunnels :: "tunnel list"

type_synonym overview_page = "overview_data page_base"

definition overview_reload :: "overview_page \<Rightarrow> overview_page" where
  "overview_reload s = page_reload [GetOverview, ListClients, ListTunnels] s"

text \<open>\<open>Promise.all\<close> rejects with the error that arrives first; \<open>arrivals\<close> is the order in which the
  three promises settle.\<close>

datatype overview_part = OverviewPart | ClientsPart | TunnelsPart

definition failure :: "'a result \<Rightarrow> exn option" where
  "failure r = (case r of Inl e \<Rightarrow> Some e | Inr v \<Rightarrow> None)"

fun part_error :: "overview result \<Rightarrow> client list result \<Rightarrow> tunnel list result \<Rightarrow> overview_part \<Rightarrow> exn option" where
  "part_error o' c t OverviewPart = failure o'"
| "part_error o' c t ClientsPart = failure c"
| "part_error o' c t TunnelsPart = failure t"

definition all_of ::
  "overview_part list \<Rightarrow> overview result \<Rightarrow> client list result \<Rightarrow> tunnel list result \<Rightarrow> overview_data result" where
  "all_of arrivals o' c t =
     (case List.find (\<lambda>p. part_error o' c t p \<noteq> None) (arrivals @ [OverviewPart, ClientsPart, TunnelsPart]) of
        Some p \<Rightarrow> Inl (the (part_error o' c t p))
      | None \<Rightarrow> Inr \<lparr>od_overview = projr o', od_clients = projr c, od_tunnels = projr t\<rparr>)"

datatype overview_event =
    OverviewReload | OverviewLoaded nat "overview_part list" "overview result" "client list result" "tunnel list result"

fun overview_step :: "overview_page \<Rightarrow> overview_event \<Rightarrow> overview_page" where
  "overview_step s OverviewReload = overview_reload s"
| "overview_step s (OverviewLoaded i arrivals o' c t) = page_loaded i (all_of arrivals o' c t) s"

definition Metric :: "js_string \<Rightarrow> js_string \<Rightarrow> js_string \<times> js_string" where
  "Metric title v = (title, v)"

definition metrics :: "overview option \<Rightarrow> (js_string \<times> js_string) list" where
  "metrics o' =
     (let num = (\<lambda>f. case o' of None \<Rightarrow> 0 | Some x \<Rightarrow> f x) in
      [Metric [0x670D, 0x52A1, 0x72B6, 0x6001] (Dash_Format.statusText (Some (case o' of None \<Rightarrow> js ''unknown'' | Some x \<Rightarrow> ov_status x))),
       Metric [0x5728, 0x7EBF, 0x5BA2, 0x6237, 0x7AEF] (int_text (num ov_online_clients)),
       Metric [0x8FD0, 0x884C, 0x4E2D, 0x96A7, 0x9053] (int_text (num ov_active_tunnels)),
       Metric [0x54, 0x43, 0x50, 0x20, 0x8FDE, 0x63A5, 0x6570] (int_text (num ov_connections)),
       Metric [0x5B9E, 0x65F6, 0x5E26, 0x5BBD] (formatRate (Fin (of_int (num ov_bandwidth_bps)))),
       Metric [0x4ECA, 0x65E5, 0x6D41, 0x91CF] (bytes_text (num ov_today_upload + num ov_today_download))])"

record overview_view =
  ow_page :: page_view
  ow_metrics :: "(js_string \<times> js_string) list"
  ow_clients :: "(js_string \<times> js_string \<times> tag_view \<times> js_string) list"
  ow_tunnels :: "(js_string \<times> js_string \<times> int \<times> tag_view) list"

definition OverviewPage :: "parse_date \<Rightarrow> locale_date \<Rightarrow> overview_page \<Rightarrow> overview_view" where
  "OverviewPage parse locale s =
     \<lparr>ow_page = page_shell [0x6982, 0x89C8] s, ow_metrics = metrics (map_option od_overview (page_data s)),
      ow_clients = map (\<lambda>c. (cl_name c, cl_ip c, client_status_tag c, formatDate parse locale (Some (cl_last_online c))))
        (take 6 (list_or_empty (map_option od_clients (page_data s)))),
      ow_tunnels = map (\<lambda>t. (tn_name t, tn_protocol t, tn_remote_port t, StatusTag (tn_status t)))
        (take 6 (list_or_empty (map_option od_tunnels (page_data s))))\<rparr>"

subsection \<open>The pages meet the contract of a reloading action\<close>

interpretation setting_save: reloading_action "saveValue_answer key" pb_calls "[GetSettings]" for key
  by unfold_locales (simp_all add: saveValue_answer_def page_defs)

subsection \<open>Lemmas\<close>

text \<open>The overview is shown exactly when the three requests succeeded.\<close>

lemma find_part:
  "List.find P (ps @ [OverviewPart, ClientsPart, TunnelsPart]) = None \<longleftrightarrow> \<not> P OverviewPart \<and> \<not> P ClientsPart \<and> \<not> P TunnelsPart"
  by (auto simp: find_None_iff) (metis overview_part.exhaust)

lemma all_of_succeeds:
  "all_of arrivals o' c t = Inr d \<longleftrightarrow>
     o' = Inr (od_overview d) \<and> c = Inr (od_clients d) \<and> t = Inr (od_tunnels d)"
proof -
  have "all_of arrivals o' c t = Inr d \<longleftrightarrow>
      List.find (\<lambda>p. part_error o' c t p \<noteq> None) (arrivals @ [OverviewPart, ClientsPart, TunnelsPart]) = None \<and>
      d = \<lparr>od_overview = projr o', od_clients = projr c, od_tunnels = projr t\<rparr>"
    by (auto simp: all_of_def split: option.splits)
  also have "\<dots> \<longleftrightarrow> o' = Inr (od_overview d) \<and> c = Inr (od_clients d) \<and> t = Inr (od_tunnels d)"
    unfolding find_part by (cases o'; cases c; cases t) (auto simp: failure_def)
  finally show ?thesis .
qed

definition is_load :: "api_call \<Rightarrow> bool" where
  "is_load c = (case c of GetLogs f \<Rightarrow> True | _ \<Rightarrow> False)"

text \<open>The last request for entries is for the filters shown, and the dialogs have them too.\<close>

definition loads_current :: "logs_page \<Rightarrow> bool" where
  "loads_current s \<longleftrightarrow>
     (\<exists>cs. filter is_load (pb_calls s) = cs @ [logs_call s]) \<and> js_trim (lp_query s) = lp_query s \<and>
     set (lp_dialogs s) \<union> set (lp_clearing s) \<subseteq> {logs_filter s}"

lemma logs_call_load [simp]: "is_load (logs_call s)"
  by (simp add: is_load_def logs_call_def)

lemma logs_deps_filter: "logs_deps s = logs_deps t \<longleftrightarrow> logs_filter s = logs_filter t"
  by (auto simp: logs_deps_def logs_filter_def)

text \<open>A rendering after a change of the filters loads with the new ones.\<close>

lemma loads_current_render:
  assumes "loads_current old" "pb_calls s = pb_calls old" "js_trim (lp_query s) = lp_query s"
    and "lp_dialogs s = lp_dialogs old" "lp_clearing s = lp_clearing old"
    and "logs_deps (logs_render old s) \<noteq> logs_deps old \<longrightarrow> lp_dialogs old = [] \<and> lp_clearing old = []"
  shows "loads_current (logs_render old s)"
proof (cases "logs_deps s = logs_deps old")
  case True
  then show ?thesis
    using assms by (simp add: logs_render_def loads_current_def logs_deps_filter logs_call_def)
next
  case False
  then show ?thesis
    using assms
    by (simp add: logs_render_def loads_current_def page_reload_def logs_call_def logs_filter_def logs_deps_def is_load_def)
qed

lemma loads_current_same:
  assumes "loads_current s" "filter is_load (pb_calls t) = filter is_load (pb_calls s) \<or> (\<exists>cs. filter is_load (pb_calls t) = cs @ [logs_call s])"
    and "logs_deps t = logs_deps s" "set (lp_dialogs t) \<union> set (lp_clearing t) \<subseteq> {logs_filter s}"
  shows "loads_current t"
  using assms by (auto simp: loads_current_def logs_deps_filter logs_call_def) (simp add: logs_deps_def flip: logs_deps_filter)+

lemma loads_current_step:
  assumes "loads_current s" "logs_deps (logs_step s e) \<noteq> logs_deps s \<longrightarrow> lp_dialogs s = [] \<and> lp_clearing s = []"
  shows "loads_current (logs_step s e)"
proof -
  have trim: "js_trim (lp_query s) = lp_query s" and set: "set (lp_dialogs s) \<subseteq> {logs_filter s}" "set (lp_clearing s) \<subseteq> {logs_filter s}"
    using assms(1) by (simp_all add: loads_current_def)
  have rem: "set (remove_nth i (lp_dialogs s)) \<subseteq> {logs_filter s}" "set (remove_nth i (lp_clearing s)) \<subseteq> {logs_filter s}" for i
    using set set_remove_nth by fastforce+
  have nth: "lp_dialogs s ! i = logs_filter s" if "i < length (lp_dialogs s)" for i
    using that set(1) nth_mem by fastforce
  have nth': "lp_clearing s ! i = logs_filter s" if "i < length (lp_clearing s)" for i
    using that set(2) nth_mem by fastforce
  show ?thesis
  proof (cases e)
    case (SearchTyped v)
    then show ?thesis
      using assms loads_current_render [of s "searchTyped v s"]
      by (auto simp: searchTyped_def applySearch_def loads_current_def Let_def js_trim_def)
  next
    case (ClearAnswer i r)
    then show ?thesis
      using assms(1) set rem(2) [of i] nth' [of i]
      by (cases r) (auto intro!: loads_current_same [OF assms(1)]
          simp: clearLogs_answer_def Let_def page_defs logs_deps_def logs_call_def is_load_def)
  next
    case (ClearConfirmed i)
    then show ?thesis
      using assms(1) set rem(1) [of i] nth [of i]
      by (auto intro!: loads_current_same [OF assms(1)] simp: clearLogs_def page_defs logs_deps_def is_load_def)
  next
    case (ClearCancelled i)
    then show ?thesis
      using assms(1) set rem(1) [of i]
      by (auto intro!: loads_current_same [OF assms(1)] simp: clear_cancelled_def logs_deps_def)
  next
    case (DownloadAnswer r)
    then show ?thesis
      using set by (cases r) (auto intro!: loads_current_same [OF assms(1)] simp: download_answer_def page_toast_def logs_deps_def)
  next
    case LogsReload
    then show ?thesis
      using set by (auto intro!: loads_current_same [OF assms(1)] simp: page_defs logs_deps_def logs_call_def is_load_def)
  next
    case ClearClicked
    then show ?thesis
      using set by (auto intro!: loads_current_same [OF assms(1)] simp: clear_def logs_deps_def)
  next
    case (LogsLoaded i r)
    then show ?thesis
      using set by (auto intro!: loads_current_same [OF assms(1)] simp: page_defs logs_deps_def)
  next
    case DownloadClicked
    then show ?thesis
      using set by (auto intro!: loads_current_same [OF assms(1)] simp: download_def page_defs logs_deps_def is_load_def)
  qed (use assms trim in \<open>auto intro!: loads_current_render simp: applySearch_def levelChosen_def\<close>)
qed

text \<open>The filters are not changed while a dialog is open or its request is under way.\<close>

fun undisturbed :: "logs_page \<Rightarrow> logs_event list \<Rightarrow> bool" where
  "undisturbed s [] \<longleftrightarrow> True"
| "undisturbed s (e # es) \<longleftrightarrow>
     (logs_deps (logs_step s e) \<noteq> logs_deps s \<longrightarrow> lp_dialogs s = [] \<and> lp_clearing s = []) \<and> undisturbed (logs_step s e) es"

lemma loads_current_run: "loads_current s \<Longrightarrow> undisturbed s es \<Longrightarrow> loads_current (foldl logs_step s es)"
  by (induction es arbitrary: s) (simp_all add: loads_current_step)

lemma loads_current_mounted: "loads_current logs_mounted"
  by (simp add: logs_mounted_def Let_def loads_current_def page_reload_def logs_call_def logs_filter_def is_load_def js_trim_def)

subsection \<open>Properties\<close>



text \<open>
  The condition is needed. The dialog can be dismissed while its request is under way; if the level is changed
  before the answer comes, the entries are loaded again with the level of before.
\<close>

lemma clearing_reloads_with_old_filters:
  fixes n :: int
  assumes "lp_dialogs s = []" "lp_clearing s = []" "l \<noteq> lp_level s"
  defines "t \<equiv> foldl logs_step s [ClearClicked, ClearConfirmed 0, LevelChosen l, ClearAnswer 0 (Inr n)]"
  shows "lp_level t = l \<and> last (pb_calls t) = logs_call s \<and> logs_call s \<noteq> logs_call t"
  using assms(1-3)
  by (simp add: t_def clear_def clearLogs_def clearLogs_answer_def remove_nth_def page_defs logs_render_def logs_deps_def
      levelChosen_def logs_call_def logs_filter_def)

end
