(* ===== verification/Tunnels_Page.thy ===== *)
theory Tunnels_Page
  imports Dash_Pages
begin

text \<open>
  The tunnels page (\<open>web/dashboard/src/pages/TunnelsPage.tsx\<close>): the form of the editor and
  its effect on a change of the protocol, the payload \<open>normalize\<close> makes of it, the page's
  handlers, the endpoint column with the visitor link.

  A number field of the form is an \<open>int option\<close>, \<open>None\<close> the \<open>null\<close> of a cleared
  \<open>InputNumber\<close>. \<open>origin\<close> is \<open>window.location.origin\<close>; \<open>encodeURIComponent\<close> throws on a lone
  surrogate, and then the link is \<open>None\<close>.
\<close>

subsection \<open>The form\<close>

record tunnel_form =
  tf_name :: js_string
  tf_client_id :: js_string
  tf_protocol :: js_string
  tf_status :: js_string
  tf_local_host :: js_string
  tf_local_port :: "int option"
  tf_remote_port :: "int option"
  tf_domain :: js_string
  tf_ip_allowlist_text :: "js_string option"

definition visitor_webrtc :: js_string where
  "visitor_webrtc = js ''visitor_webrtc''"

definition tunnelProtocols :: "js_string list" where
  "tunnelProtocols = [js ''tcp'', js ''p2p'', js ''http'', js ''https'', js ''udp'', visitor_webrtc]"

definition comma :: js_string where
  "comma = js '',''"

text \<open>The payload: the fields of the form without the text of the list.\<close>

record tunnel_payload =
  pl_name :: js_string
  pl_client_id :: js_string
  pl_protocol :: js_string
  pl_status :: js_string
  pl_local_host :: js_string
  pl_local_port :: "int option"
  pl_remote_port :: "int option"
  pl_domain :: js_string
  pl_ip_allowlist :: "js_string list"

definition allowlist :: "js_string option \<Rightarrow> js_string list" where
  "allowlist txt =
     (case txt of None \<Rightarrow> [] | Some s \<Rightarrow> filter (\<lambda>x. truthy x) (map js_trim (js_split 0x2C s)))"

definition normalize :: "tunnel_form \<Rightarrow> tunnel_payload" where
  "normalize values =
     (let visitor = (tf_protocol values = visitor_webrtc) in
      \<lparr>pl_name = tf_name values, pl_client_id = tf_client_id values, pl_protocol = tf_protocol values,
       pl_status = (if truthy (tf_status values) then tf_status values else js ''stopped''),
       pl_local_host = tf_local_host values, pl_local_port = tf_local_port values,
       pl_remote_port = (if visitor then Some 0 else tf_remote_port values),
       pl_domain = (if visitor then [] else tf_domain values),
       pl_ip_allowlist = allowlist (tf_ip_allowlist_text values)\<rparr>)"

definition json_int :: "int option \<Rightarrow> json" where
  "json_int v = (case v of None \<Rightarrow> JNull | Some n \<Rightarrow> JNum (of_int n))"

definition payload_json :: "tunnel_payload \<Rightarrow> json" where
  "payload_json p = members
     [(''name'', Some (JStr (pl_name p))), (''client_id'', Some (JStr (pl_client_id p))),
      (''protocol'', Some (JStr (pl_protocol p))), (''status'', Some (JStr (pl_status p))),
      (''local_host'', Some (JStr (pl_local_host p))), (''local_port'', Some (json_int (pl_local_port p))),
      (''remote_port'', Some (json_int (pl_remote_port p))), (''domain'', Some (JStr (pl_domain p))),
      (''ip_allowlist'', Some (JArr (map JStr (pl_ip_allowlist p))))]"

definition needsRemotePort :: "js_string option \<Rightarrow> bool" where
  "needsRemotePort protocol =
     (protocol = Some (js ''tcp'') \<or> protocol = Some (js ''p2p'') \<or> protocol = Some (js ''udp''))"

definition emptyTunnel :: "js_string \<Rightarrow> js_string option \<Rightarrow> tunnel" where
  "emptyTunnel now clientID =
     \<lparr>tn_id = [], tn_client_id = (case clientID of None \<Rightarrow> [] | Some c \<Rightarrow> c), tn_name = [], tn_protocol = js ''tcp'',
      tn_visitor_token = None, tn_local_host = js ''127.0.0.1'', tn_local_port = 8080, tn_remote_port = 6000,
      tn_domain = [], tn_status = js ''stopped'', tn_ip_allowlist = [], tn_created_at = now, tn_updated_at = now\<rparr>"

subsection \<open>The editor\<close>

text \<open>\<open>initialValues\<close> of the form: the fields of the tunnel that the form has.\<close>

definition editor_initial :: "tunnel \<Rightarrow> tunnel_form" where
  "editor_initial t =
     \<lparr>tf_name = tn_name t, tf_client_id = tn_client_id t, tf_protocol = tn_protocol t, tf_status = tn_status t,
      tf_local_host = tn_local_host t, tf_local_port = Some (tn_local_port t), tf_remote_port = Some (tn_remote_port t),
      tf_domain = tn_domain t, tf_ip_allowlist_text = Some (js_join comma (tn_ip_allowlist t))\<rparr>"

definition protocol_effect :: "js_string \<Rightarrow> tunnel_form \<Rightarrow> tunnel_form" where
  "protocol_effect protocol f =
     (if protocol = visitor_webrtc then f\<lparr>tf_remote_port := Some 0, tf_domain := []\<rparr>
      else if tf_remote_port f = Some 0 then f\<lparr>tf_remote_port := Some 6000\<rparr> else f)"

text \<open>Opening the editor runs the effect for the tunnel's protocol, choosing another protocol
  runs it for that one. \<open>Form.useWatch(..) || tunnel.protocol\<close> falls back to the tunnel's
  protocol while the field is empty.\<close>

definition editor_open :: "tunnel \<Rightarrow> tunnel_form" where
  "editor_open t = protocol_effect (tn_protocol t) (editor_initial t)"

definition watched_protocol :: "tunnel option \<Rightarrow> tunnel_form \<Rightarrow> js_string option" where
  "watched_protocol t f =
     (if truthy (tf_protocol f) then Some (tf_protocol f) else map_option tn_protocol t)"

definition choose_protocol :: "js_string \<Rightarrow> tunnel_form \<Rightarrow> tunnel_form" where
  "choose_protocol p f =
     (if p = tf_protocol f then f else protocol_effect p (f\<lparr>tf_protocol := p\<rparr>))"

record editor_view =
  ev_title :: js_string
  ev_clients :: "(js_string \<times> js_string) list"
  ev_protocols :: "(js_string \<times> js_string) list"
  ev_notice :: "js_string option"
  ev_statuses :: "(js_string \<times> js_string) list"
  ev_port_required :: bool
  ev_port_disabled :: bool
  ev_port_min :: int
  ev_domain_help :: "js_string option"
  ev_domain_placeholder :: "js_string option"

definition protocol_label :: "js_string \<Rightarrow> js_string" where
  "protocol_label v =
     (if v = js ''p2p'' then js ''P2P'' else if v = visitor_webrtc then [0x8BBF, 0x5BA2, 0x20, 0x57, 0x65, 0x62, 0x52, 0x54, 0x43] else toUpperCase v)"

definition has_id :: "tunnel option \<Rightarrow> bool" where
  "has_id t = (case t of None \<Rightarrow> False | Some x \<Rightarrow> truthy (tn_id x))"

definition TunnelEditor ::
  "tunnel option \<Rightarrow> client list \<Rightarrow> transport_auto_subdomain option \<Rightarrow> tunnel_form \<Rightarrow> editor_view option" where
  "TunnelEditor t clients auto f =
     (let protocol = watched_protocol t f;
          suggest = (\<not> has_id t \<and> shouldSuggestAutoDomain protocol auto) in
      if t = None then None
      else Some
        \<lparr>ev_title = (if has_id t then [0x7F16, 0x8F91, 0x96A7, 0x9053] else [0x521B, 0x5EFA, 0x96A7, 0x9053]),
         ev_clients = map (\<lambda>c. (cl_id c, cl_name c)) clients,
         ev_protocols = map (\<lambda>v. (v, protocol_label v)) tunnelProtocols,
         ev_notice =
           (if protocol = Some (js ''p2p'') then Some [0x50, 0x32, 0x50, 0x20, 0x4F18, 0x5148, 0x901A, 0x8FC7, 0x516C, 0x7F51, 0x20, 0x55,
    0x44, 0x50, 0x20, 0x6253, 0x6D1E, 0x76F4, 0x8FDE, 0x20, 0x41, 0x67, 0x65, 0x6E,
    0x74, 0xFF0C, 0x5931, 0x8D25, 0x540E, 0x81EA, 0x52A8, 0x56DE, 0x9000, 0x20, 0x52,
    0x65, 0x6C, 0x61, 0x79, 0x3002]
            else if protocol = Some visitor_webrtc
            then Some [0x6D4F, 0x89C8, 0x5668, 0x6253, 0x5F00, 0x8BBF, 0x5BA2, 0x5730, 0x5740, 0x540E,
    0xFF0C, 0x901A, 0x8FC7, 0x20, 0x57, 0x65, 0x62, 0x52, 0x54, 0x43, 0x20, 0x44, 0x61,
    0x74, 0x61, 0x43, 0x68, 0x61, 0x6E, 0x6E, 0x65, 0x6C, 0x20, 0x76F4, 0x8FDE, 0x20,
    0x41, 0x67, 0x65, 0x6E, 0x74, 0xFF0C, 0x52A0, 0x8F7D, 0x672C, 0x5730, 0x5B8C,
    0x6574, 0x7F51, 0x9875, 0x53CA, 0x5176, 0x8D44, 0x6E90, 0x548C, 0x20, 0x41, 0x50,
    0x49, 0x20, 0x8BF7, 0x6C42, 0x3002]
            else None),
         ev_statuses = map (\<lambda>v. (v, Dash_Format.statusText (Some v))) [js ''stopped'', js ''running''],
         ev_port_required = needsRemotePort protocol,
         ev_port_disabled = (protocol = Some visitor_webrtc),
         ev_port_min = (if needsRemotePort protocol then 1 else 0),
         ev_domain_help = (if suggest then Some (autoSubdomainHint auto) else None),
         ev_domain_placeholder = (if suggest then Some [0x7559, 0x7A7A, 0x81EA, 0x52A8, 0x751F, 0x6210, 0xFF0C, 0x586B, 0x5199, 0x5219,
    0x4F18, 0x5148, 0x751F, 0x6548] else None)\<rparr>)"

subsection \<open>The endpoint column\<close>

definition visitorURL :: "js_string \<Rightarrow> tunnel \<Rightarrow> js_string option" where
  "visitorURL origin t =
     (if \<not> truthy_opt (tn_visitor_token t) then Some []
      else
        (case (encodeURIComponent (tn_id t), encodeURIComponent (the (tn_visitor_token t))) of
           (Some i, Some k) \<Rightarrow> Some (origin @ js ''/visitor/'' @ i @ js ''/'' @ k)
         | _ \<Rightarrow> None))"

datatype endpoint_cell = Plain js_string | Link js_string

definition TunnelEndpoint :: "js_string \<Rightarrow> tunnel \<Rightarrow> endpoint_cell option" where
  "TunnelEndpoint origin t =
     (if tn_protocol t \<noteq> visitor_webrtc
      then Some (Plain (if truthy (tn_domain t) then tn_domain t
                        else if tn_remote_port t \<noteq> 0 then int_text (tn_remote_port t) else dash))
      else map_option (\<lambda>url. if truthy url then Link url else Plain dash) (visitorURL origin t))"

subsection \<open>The page\<close>

record tunnels_data =
  td_tunnels :: "tunnel list"
  td_clients :: "client list"
  td_transport :: transport_status

record tunnels_page = "tunnels_data page_base" +
  up_editing :: "tunnel option"

definition tunnels_initial :: tunnels_page where
  "tunnels_initial = \<lparr>pb_hook = mounted, pb_calls = [], pb_toasts = [], up_editing = None\<rparr>"

text \<open>The loader awaits the tunnels, then the clients, then the transport.\<close>

definition tunnels_reload :: "tunnels_page \<Rightarrow> tunnels_page" where
  "tunnels_reload s = page_reload [ListTunnels] s"

definition tunnels_listed :: "tunnels_page \<Rightarrow> tunnels_page" where
  "tunnels_listed s = page_call ListClients s"

definition tunnel_clients_listed :: "tunnels_page \<Rightarrow> tunnels_page" where
  "tunnel_clients_listed s = page_call GetTransport s"

definition createClicked :: "js_string \<Rightarrow> tunnels_page \<Rightarrow> tunnels_page" where
  "createClicked now s =
     (let clients = list_or_empty (map_option td_clients (page_data s)) in
      s\<lparr>up_editing := Some (emptyTunnel now (case clients of [] \<Rightarrow> None | c # _ \<Rightarrow> Some (cl_id c)))\<rparr>)"

definition submitTunnel :: "tunnel_form \<Rightarrow> tunnels_page \<Rightarrow> tunnels_page" where
  "submitTunnel values s =
     (let payload = payload_json (normalize values) in
      if has_id (up_editing s) then page_call (UpdateTunnel (tn_id (the (up_editing s))) payload) s
      else page_call (CreateTunnel payload) s)"

definition submitTunnel_answer :: "unit result \<Rightarrow> tunnels_page \<Rightarrow> tunnels_page" where
  "submitTunnel_answer r s =
     (case r of Inl e \<Rightarrow> s | Inr u \<Rightarrow> tunnels_reload (s\<lparr>up_editing := None\<rparr>))"

definition toggleTunnel :: "tunnel \<Rightarrow> tunnels_page \<Rightarrow> tunnels_page" where
  "toggleTunnel t s =
     (if tn_status t = js ''running'' then page_call (StopTunnel (tn_id t)) s
      else page_call (StartTunnel (tn_id t)) s)"

definition toggleTunnel_answer :: "unit result \<Rightarrow> tunnels_page \<Rightarrow> tunnels_page" where
  "toggleTunnel_answer r s = (case r of Inl e \<Rightarrow> s | Inr u \<Rightarrow> tunnels_reload s)"

definition removeTunnel :: "tunnel \<Rightarrow> tunnels_page \<Rightarrow> tunnels_page" where
  "removeTunnel t s = page_call (DeleteTunnel (tn_id t)) s"

definition removeTunnel_answer :: "unit result \<Rightarrow> tunnels_page \<Rightarrow> tunnels_page" where
  "removeTunnel_answer r s =
     (case r of Inl e \<Rightarrow> s | Inr u \<Rightarrow> tunnels_reload (page_toast (Success [0x96A7, 0x9053, 0x5DF2, 0x5220, 0x9664]) s))"

datatype tunnels_event =
    CreateClicked js_string | EditClicked tunnel | EditorCancelled | FormSubmitted tunnel_form | SubmitAnswer "unit result"
  | ToggleClicked tunnel | ToggleAnswer "unit result" | RemoveTunnelConfirmed tunnel | RemoveTunnelAnswer "unit result"
  | TunnelsReload | TunnelsListed | TunnelClientsListed | TunnelsLoaded nat "tunnels_data result"

fun tunnels_step :: "tunnels_page \<Rightarrow> tunnels_event \<Rightarrow> tunnels_page" where
  "tunnels_step s (CreateClicked now) = createClicked now s"
| "tunnels_step s (EditClicked t) = s\<lparr>up_editing := Some t\<rparr>"
| "tunnels_step s EditorCancelled = s\<lparr>up_editing := None\<rparr>"
| "tunnels_step s (FormSubmitted values) = submitTunnel values s"
| "tunnels_step s (SubmitAnswer r) = submitTunnel_answer r s"
| "tunnels_step s (ToggleClicked t) = toggleTunnel t s"
| "tunnels_step s (ToggleAnswer r) = toggleTunnel_answer r s"
| "tunnels_step s (RemoveTunnelConfirmed t) = removeTunnel t s"
| "tunnels_step s (RemoveTunnelAnswer r) = removeTunnel_answer r s"
| "tunnels_step s TunnelsReload = tunnels_reload s"
| "tunnels_step s TunnelsListed = tunnels_listed s"
| "tunnels_step s TunnelClientsListed = tunnel_clients_listed s"
| "tunnels_step s (TunnelsLoaded i r) = page_loaded i r s"

text \<open>The buttons of a row: icon or text, what a click leads to, whether a dialog asks first.\<close>

definition Actions :: "tunnel \<Rightarrow> (js_string \<times> tunnels_event \<times> bool) list" where
  "Actions t =
     [(if tn_status t = js ''running'' then js ''Pause'' else js ''Play'', ToggleClicked t, False),
      ([0x7F16, 0x8F91], EditClicked t, False), (js ''Trash2'', RemoveTunnelConfirmed t, True)]"

record tunnel_row =
  ur_name :: js_string
  ur_protocol :: js_string
  ur_client :: js_string
  ur_local :: js_string
  ur_endpoint :: "endpoint_cell option"
  ur_status :: tag_view
  ur_actions :: "(js_string \<times> tunnels_event \<times> bool) list"

definition row_of_tunnel :: "js_string \<Rightarrow> tunnel \<Rightarrow> tunnel_row" where
  "row_of_tunnel origin t =
     \<lparr>ur_name = tn_name t, ur_protocol = toUpperCase (tn_protocol t), ur_client = tn_client_id t,
      ur_local = host_port t, ur_endpoint = TunnelEndpoint origin t, ur_status = StatusTag (tn_status t),
      ur_actions = Actions t\<rparr>"

definition TunnelsPage :: "js_string \<Rightarrow> tunnels_page \<Rightarrow> page_view \<times> tunnel_row list" where
  "TunnelsPage origin s =
     (page_shell [0x96A7, 0x9053] s, map (row_of_tunnel origin) (list_or_empty (map_option td_tunnels (page_data s))))"

lemmas tunnels_defs = submitTunnel_def submitTunnel_answer_def toggleTunnel_def toggleTunnel_answer_def
  removeTunnel_def removeTunnel_answer_def tunnels_reload_def page_defs Let_def

interpretation tunnel_submit: reloading_action submitTunnel_answer pb_calls "[ListTunnels]"
  by unfold_locales (simp_all add: tunnels_defs)

interpretation tunnel_toggle: reloading_action toggleTunnel_answer pb_calls "[ListTunnels]"
  by unfold_locales (simp_all add: tunnels_defs)

interpretation tunnel_delete: reloading_action removeTunnel_answer pb_calls "[ListTunnels]"
  by unfold_locales (simp_all add: tunnels_defs)

subsection \<open>Lemmas\<close>

text \<open>An entry that the editor can show and read back.\<close>

definition clean_entry :: "js_string \<Rightarrow> bool" where
  "clean_entry x \<longleftrightarrow> x \<noteq> [] \<and> js_trim x = x \<and> 0x2C \<notin> set x"

lemma set_js_trim: "set (js_trim s) \<subseteq> set s"
  unfolding js_trim_def by (metis set_dropWhileD set_rev subsetI)

lemma allowlist_clean: "x \<in> set (allowlist txt) \<Longrightarrow> clean_entry x"
  using set_js_trim js_split_no_sep
  by (fastforce simp: allowlist_def clean_entry_def split: option.splits)

lemma map_trim_clean: "\<forall>x \<in> set xs. clean_entry x \<Longrightarrow> filter (\<lambda>x. x \<noteq> []) (map js_trim xs) = xs"
  by (induction xs) (auto simp: clean_entry_def)

lemma allowlist_join:
  assumes "\<forall>x \<in> set xs. clean_entry x"
  shows "allowlist (Some (js_join comma xs)) = xs"
proof (cases "xs = []")
  case True
  then show ?thesis
    by (simp add: allowlist_def js_trim_def)
next
  case False
  have "comma = [0x2C]"
    by (simp add: comma_def js_def)
  then have "js_split 0x2C (js_join comma xs) = xs"
    using False assms js_split_join [of xs "0x2C"] by (simp add: clean_entry_def)
  then show ?thesis
    using assms by (simp add: allowlist_def map_trim_clean)
qed

lemma clean_allowlist: "allowlist (Some (js_join comma (allowlist txt))) = allowlist txt"
  using allowlist_join allowlist_clean by blast

definition payload_of :: "tunnel \<Rightarrow> tunnel_payload" where
  "payload_of t =
     \<lparr>pl_name = tn_name t, pl_client_id = tn_client_id t, pl_protocol = tn_protocol t, pl_status = tn_status t,
      pl_local_host = tn_local_host t, pl_local_port = Some (tn_local_port t), pl_remote_port = Some (tn_remote_port t),
      pl_domain = tn_domain t, pl_ip_allowlist = tn_ip_allowlist t\<rparr>"

lemma visitor_parts:
  assumes "visitorURL origin t = Some u" "u \<noteq> []"
  obtains i k token where "encodeURIComponent (tn_id t) = Some i" "tn_visitor_token t = Some token"
    "encodeURIComponent token = Some k" "u = origin @ js ''/visitor/'' @ i @ js ''/'' @ k"
  using assms by (auto simp: visitorURL_def truthy_opt_iff split: if_splits option.splits)

lemma encoded_no_slash: "encodeURIComponent s = Some e \<Longrightarrow> 0x2F \<notin> set e"
  using encodeURIComponent_units segment_unit_no_delim by fastforce

lemma segments_unique:
  assumes "0x2F \<notin> set i" "0x2F \<notin> set i'" "i @ js ''/'' @ k = i' @ js ''/'' @ k'"
  shows "i = i' \<and> k = k'"
proof -
  have slash: "js ''/'' = [0x2F :: 16 word]"
    by (simp add: js_def)
  have first: "takeWhile (\<lambda>c. c \<noteq> 0x2F) (x @ js ''/'' @ y) = x" if "0x2F \<notin> set x" for x y
    using that by (subst takeWhile_append2) (auto simp: slash)
  then show ?thesis
    using assms by (metis append_eq_append_conv)
qed

subsection \<open>Properties\<close>



text \<open>
  C36. Whatever was typed, the payload sent for a tunnel has an allow list of trimmed non-empty
  entries without commas, a status, and, for a visitor tunnel, remote port 0 and no domain;
  choosing the visitor protocol clears both fields in the form already, and leaving it
  restores a usable port.
\<close>

theorem payload_is_normal:
  "(\<forall>x. x \<in> set (pl_ip_allowlist (normalize f)) \<longrightarrow> clean_entry x)
   \<and> pl_status (normalize f) \<noteq> []
   \<and> (pl_protocol (normalize f) = visitor_webrtc \<longrightarrow>
        pl_remote_port (normalize f) = Some 0 \<and> pl_domain (normalize f) = [])
   \<and> (p \<noteq> tf_protocol f \<and> p \<noteq> visitor_webrtc \<longrightarrow> tf_remote_port (choose_protocol p f) \<noteq> Some 0)
   \<and> (p \<noteq> tf_protocol f \<and> p = visitor_webrtc \<longrightarrow>
        tf_remote_port (choose_protocol p f) = Some 0 \<and> tf_domain (choose_protocol p f) = [])"
  using allowlist_clean
  by (auto simp: normalize_def Let_def choose_protocol_def protocol_effect_def js_def)

theorem payload_is_normal_witness:
  "pl_remote_port (normalize ((editor_initial (emptyTunnel [] None))\<lparr>tf_protocol := visitor_webrtc\<rparr>)) = Some 0"
  using payload_is_normal [of "(editor_initial (emptyTunnel [] None))\<lparr>tf_protocol := visitor_webrtc\<rparr>"]
  by (simp add: normalize_def)

text \<open>
  Opening the editor on a tunnel of another protocol whose remote port is 0, as an HTTP
  tunnel may have, puts 6000 into the field: saving it unchanged changes the tunnel.
\<close>

lemma zero_port_is_rewritten_on_edit:
  assumes "tn_protocol t \<noteq> visitor_webrtc" and "tn_remote_port t = 0"
  shows "pl_remote_port (normalize (editor_open t)) = Some 6000 \<and> normalize (editor_open t) \<noteq> payload_of t"
proof -
  have "pl_remote_port (normalize (editor_open t)) = Some 6000"
    using assms by (simp add: normalize_def editor_open_def editor_initial_def protocol_effect_def Let_def)
  moreover have "pl_remote_port (payload_of t) = Some 0"
    using assms by (simp add: payload_of_def)
  ultimately show ?thesis
    by force
qed

text \<open>
  C34. A visitor link has the two segments after \<open>/visitor/\<close> that decode to the tunnel's id and
  its token, and no other tunnel or token has the same link.
\<close>

theorem visitor_link_identifies_the_tunnel:
  assumes "visitorURL origin t = Some u" and "u \<noteq> []"
  shows "(\<exists>i k. u = origin @ js ''/visitor/'' @ i @ js ''/'' @ k \<and> 0x2F \<notin> set i \<and> 0x2F \<notin> set k \<and>
      decodeURIComponent i = Some (tn_id t) \<and> decodeURIComponent k = tn_visitor_token t)
    \<and> (visitorURL origin t' = Some u \<longrightarrow> tn_id t' = tn_id t \<and> tn_visitor_token t' = tn_visitor_token t)"
proof -
  obtain i k token where p: "encodeURIComponent (tn_id t) = Some i" "tn_visitor_token t = Some token"
    "encodeURIComponent token = Some k" "u = origin @ js ''/visitor/'' @ i @ js ''/'' @ k"
    using visitor_parts [OF assms] by metis
  have "tn_id t' = tn_id t \<and> tn_visitor_token t' = tn_visitor_token t" if same: "visitorURL origin t' = Some u"
  proof -
    obtain i' k' token' where p': "encodeURIComponent (tn_id t') = Some i'" "tn_visitor_token t' = Some token'"
      "encodeURIComponent token' = Some k'" "u = origin @ js ''/visitor/'' @ i' @ js ''/'' @ k'"
      using visitor_parts [OF same assms(2)] by metis
    then have "i = i' \<and> k = k'"
      using p segments_unique encoded_no_slash by (metis same_append_eq)
    then show ?thesis
      using p p' encodeURIComponent_inj by metis
  qed
  moreover have "0x2F \<notin> set i" "0x2F \<notin> set k" "decodeURIComponent i = Some (tn_id t)"
    "decodeURIComponent k = tn_visitor_token t"
    using p encoded_no_slash decode_encode by simp_all
  ultimately show ?thesis
    using p(4) by blast
qed

theorem visitor_link_identifies_the_tunnel_witness:
  "\<exists>i k. js ''https://x/visitor/t%2F1/k'' = js ''https://x'' @ js ''/visitor/'' @ i @ js ''/'' @ k \<and>
     decodeURIComponent i = Some (js ''t/1'')"
proof -
  let ?t = "(emptyTunnel [] None)\<lparr>tn_id := js ''t/1'', tn_visitor_token := Some (js ''k'')\<rparr>"
  have e: "encodeURIComponent (js ''t/1'') = Some (js ''t%2F1'')" "encodeURIComponent (js ''k'') = Some (js ''k'')"
    by code_simp+
  have "visitorURL (js ''https://x'') ?t = Some (js ''https://x/visitor/t%2F1/k'')"
    by (simp add: visitorURL_def e truthy_opt_def) (simp add: js_def)
  moreover have "js ''https://x/visitor/t%2F1/k'' \<noteq> []"
    by (simp add: js_def)
  ultimately show ?thesis
    using visitor_link_identifies_the_tunnel [of "js ''https://x''" ?t "js ''https://x/visitor/t%2F1/k''"]
    by simp blast
qed

end
