(* ===== verification/Dashboard_App.thy ===== *)
theory Dashboard_App
  imports Machines Async_Hook
begin

text \<open>
  The shell of the dashboard (\<open>web/dashboard/src/App.tsx\<close>) and the login page
  (\<open>pages/LoginPage.tsx\<close>) on top of the API client and the session store. The calls of
  the client, the log download among them, are split at \<open>fetch\<close>, so that any number of requests can be
  under way while the user goes on. The machine
  \<open>app_step\<close> interleaves the user's actions and the server's answers in every order. A
  request of a page may come at any time, also after the console was left: a handler that
  awaits an answer goes on when its page is gone.

  The hypothesis on the server is \<open>login_answer_ok\<close>: a successful answer to a login carries
  a non-empty token and, if it has one, a textual token type.
\<close>

subsection \<open>The shell\<close>

definition pages :: "(js_string \<times> js_string) list" where
  "pages =
     [(js ''overview'', [0x6982, 0x89C8]), (js ''clients'', [0x5BA2, 0x6237, 0x7AEF]), (js ''tokens'', [0x4EE4, 0x724C]),
      (js ''tunnels'', [0x96A7, 0x9053]), (js ''relays'', [0x4E2D, 0x7EE7]), (js ''traffic'', [0x6D41, 0x91CF]),
      (js ''logs'', [0x65E5, 0x5FD7]), (js ''settings'', [0x8BBE, 0x7F6E])]"

record app =
  ap_browser :: browser
  ap_authenticated :: bool
  ap_active :: js_string
  ap_login_loading :: bool
  ap_login_error :: "js_string option"
  ap_pending :: "api_call list"

definition activePage :: "app \<Rightarrow> js_string" where
  "activePage a = (case List.find (\<lambda>p. fst p = ap_active a) pages of Some p \<Rightarrow> fst p | None \<Rightarrow> fst (hd pages))"

definition app_mounted :: "browser \<Rightarrow> app" where
  "app_mounted b =
     (let (st, session) = getSession (local_storage b) in
      \<lparr>ap_browser = b\<lparr>local_storage := st\<rparr>, ap_authenticated = (session \<noteq> None), ap_active = js ''overview'',
       ap_login_loading = False, ap_login_error = None, ap_pending = []\<rparr>)"

text \<open>A change of \<open>authenticated\<close> mounts or unmounts the login page with fresh state.\<close>

definition setAuthenticated :: "bool \<Rightarrow> app \<Rightarrow> app" where
  "setAuthenticated v a =
     (if ap_authenticated a = v then a
      else a\<lparr>ap_authenticated := v, ap_login_loading := False, ap_login_error := None\<rparr>)"

definition logout :: "app \<Rightarrow> app" where
  "logout a =
     setAuthenticated False
       (a\<lparr>ap_browser := (ap_browser a)\<lparr>local_storage := clearSession (local_storage (ap_browser a))\<rparr>\<rparr>)"

text \<open>The listener of \<open>nrynet:unauthorized\<close>, for the events dispatched between two states of the
  browser.\<close>

definition new_events :: "browser \<Rightarrow> browser \<Rightarrow> js_string list" where
  "new_events b b' = drop (length (events b)) (events b')"

definition on_events :: "browser \<Rightarrow> browser \<Rightarrow> app \<Rightarrow> app" where
  "on_events b b' a = (if List.member (new_events b b') unauthorized_event then setAuthenticated False a else a)"

subsection \<open>The login page\<close>

definition login_submit :: "js_string \<Rightarrow> js_string \<Rightarrow> app \<Rightarrow> app" where
  "login_submit username password a =
     (let a1 = a\<lparr>ap_login_loading := True, ap_login_error := None\<rparr>;
          (b, res) = api_send (Login username password) (ap_browser a1); a2 = a1\<lparr>ap_browser := b\<rparr> in
      case res of
        Inl e \<Rightarrow> a2\<lparr>ap_login_error := Some (toMessage e), ap_login_loading := False\<rparr>
      | Inr req \<Rightarrow> a2\<lparr>ap_pending := ap_pending a2 @ [Login username password]\<rparr>)"

definition login_answered :: "json option result \<Rightarrow> app \<Rightarrow> app" where
  "login_answered r a =
     (case r of
        Inr v \<Rightarrow> setAuthenticated True a
      | Inl e \<Rightarrow> a\<lparr>ap_login_error := Some (toMessage e)\<rparr>)\<lparr>ap_login_loading := False\<rparr>"

subsection \<open>Requests of the pages, answers\<close>

definition is_login :: "api_call \<Rightarrow> bool" where
  "is_login c = (case c of Login u p \<Rightarrow> True | _ \<Rightarrow> False)"

definition page_request :: "api_call \<Rightarrow> app \<Rightarrow> app" where
  "page_request c a =
     (let (b, res) = api_send c (ap_browser a); a' = a\<lparr>ap_browser := b\<rparr> in
      case res of Inl e \<Rightarrow> a' | Inr req \<Rightarrow> a'\<lparr>ap_pending := ap_pending a' @ [c]\<rparr>)"

definition app_answer :: "api_call \<Rightarrow> fetch_outcome \<Rightarrow> app \<Rightarrow> app" where
  "app_answer c outcome a =
     (let (b, res) = api_answer c outcome (ap_browser a);
          a' = on_events (ap_browser a) b (a\<lparr>ap_browser := b\<rparr>) in
      if is_login c then login_answered res a' else a')"

datatype app_view =
    LoginScreen "js_string option" bool
  | Shell js_string "js_string list"

definition DashboardApp :: "app \<Rightarrow> app_view" where
  "DashboardApp a =
     (if \<not> ap_authenticated a
      then LoginScreen (if truthy_opt (ap_login_error a) then ap_login_error a else None) (ap_login_loading a)
      else Shell (activePage a) (map snd pages))"

subsection \<open>The machine\<close>

definition token_answer :: "response \<Rightarrow> bool" where
  "token_answer r =
     (case body r of
        Inl e \<Rightarrow> True
      | Inr raw \<Rightarrow>
          (case JSON_parse raw of
             Some (JObj ms) \<Rightarrow>
               (case map_of ms (js ''token'') of Some (JStr t) \<Rightarrow> truthy t | _ \<Rightarrow> False) \<and>
               (case map_of ms (js ''token_type'') of None \<Rightarrow> True | Some (JStr ty) \<Rightarrow> True | _ \<Rightarrow> False)
           | _ \<Rightarrow> False))"

definition login_answer_ok :: "api_call \<Rightarrow> fetch_outcome \<Rightarrow> bool" where
  "login_answer_ok c outcome =
     (is_login c \<longrightarrow>
        (case outcome of Rejected m \<Rightarrow> True | Response r \<Rightarrow> response_ok r \<longrightarrow> status r \<noteq> 204 \<and> token_answer r))"

inductive app_answered :: "app \<Rightarrow> app \<Rightarrow> bool" where
  answer: "ap_pending a = cs @ c # ds \<Longrightarrow> login_answer_ok c outcome \<Longrightarrow>
    app_answered a (app_answer c outcome (a\<lparr>ap_pending := cs @ ds\<rparr>))"

inductive app_step :: "app \<Rightarrow> app \<Rightarrow> bool" where
  select: "ap_authenticated a \<Longrightarrow> app_step a (a\<lparr>ap_active := key\<rparr>)"
| leave: "ap_authenticated a \<Longrightarrow> app_step a (logout a)"
| login: "\<not> ap_authenticated a \<Longrightarrow> \<not> ap_login_loading a \<Longrightarrow> app_step a (login_submit u p a)"
| call: "\<not> is_login c \<Longrightarrow> app_step a (page_request c a)"
| answered: "app_answered a a' \<Longrightarrow> app_step a a'"

inductive app_reachable :: "app \<Rightarrow> bool" where
  start: "events b = [] \<Longrightarrow> sent b = [] \<Longrightarrow> app_reachable (app_mounted b)"
| step: "app_reachable a \<Longrightarrow> app_step a a' \<Longrightarrow> app_reachable a'"

subsection \<open>Lemmas\<close>

abbreviation stored :: "browser \<Rightarrow> json option" where
  "stored b \<equiv> snd (getSession (local_storage b))"

lemma api_answer_401:
  assumes "status r = 401"
  shows "stored (fst (api_answer c (Response r) b)) = None"
    and "new_events b (fst (api_answer c (Response r) b)) = [unauthorized_event]"
    and "\<exists>e. snd (api_answer c (Response r) b) = Inl e"
proof -
  have "\<not> response_ok r"
    using assms by (simp add: response_ok_def)
  then show "stored (fst (api_answer c (Response r) b)) = None"
    and "new_events b (fst (api_answer c (Response r) b)) = [unauthorized_event]"
    and "\<exists>e. snd (api_answer c (Response r) b) = Inl e"
    using assms by (simp_all add: api_answer_not_ok handleUnauthorized_401 new_events_def)
qed

lemma receive_not_ok:
  assumes "\<not> response_ok r"
  shows "\<exists>e. snd (receive (Response r) b) = Inl e"
  using assms by (auto simp: receive_def response_ok_def Let_def split: sum.splits)

lemma case_string: "(case v of Some (JStr t) \<Rightarrow> P t | _ \<Rightarrow> False) \<longleftrightarrow> (\<exists>t. v = Some (JStr t) \<and> P t)"
  by (auto split: option.splits json.splits)

lemma case_optional_string:
  "(case v of None \<Rightarrow> True | Some (JStr t) \<Rightarrow> True | _ \<Rightarrow> False) \<longleftrightarrow> v = None \<or> (\<exists>t. v = Some (JStr t))"
  by (auto split: option.splits json.splits)

lemma case_object: "(case v of Some (JObj ms) \<Rightarrow> P ms | _ \<Rightarrow> False) \<longleftrightarrow> (\<exists>ms. v = Some (JObj ms) \<and> P ms)"
  by (auto split: option.splits json.splits)

lemma login_answer_cases:
  assumes "login_answer_ok (Login u p) outcome" "\<And>r. outcome = Response r \<Longrightarrow> status r \<noteq> 401"
  obtains (failed) e where "api_answer (Login u p) outcome b = (b, Inl e)"
  | (stored) b' v where "api_answer (Login u p) outcome b = (b', Inr v)" "stored b' \<noteq> None" "events b' = events b"
proof -
  have same: "fst (receive outcome b) = b"
    using receive_not_401 assms(2) by blast
  show thesis
  proof (cases "snd (receive outcome b)")
    case (Inl e)
    then show thesis
      using same failed [of e] by (cases "receive outcome b") (auto simp: api_answer_def)
  next
    case (Inr q)
    then obtain r where r: "outcome = Response r" "response_ok r"
      using receive_not_ok by (cases outcome) (fastforce simp: receive_def)+
    with Inr obtain raw where "body r = Inr raw"
      by (cases "body r") (use r assms(1) in \<open>auto simp: receive_def readPayload_def login_answer_ok_def is_login_def\<close>)
    with r assms(1) obtain ms t where ms: "body r = Inr raw" "JSON_parse raw = Some (JObj ms)"
      "map_of ms (js ''token'') = Some (JStr t)" "t \<noteq> []" "status r \<noteq> 204"
      "map_of ms (js ''token_type'') = None \<or> (\<exists>ty. map_of ms (js ''token_type'') = Some (JStr ty))"
      by (auto simp: login_answer_ok_def is_login_def token_answer_def case_string case_optional_string case_object)
    let ?b = "b\<lparr>local_storage := saveSession (Some (JStr t)) (Some (JStr (stored_type ms))) (local_storage b)\<rparr>"
    have "api_answer (Login u p) outcome b = (?b, Inr None)"
      using receive_success [OF r(2) ms(5) ms(1,2)] finish_login_token [OF ms(3,6)]
      by (simp add: api_answer_def r(1) finish_call_def)
    moreover have "stored ?b \<noteq> None"
      using ms(4) by (simp add: getSession_saved json_truthy_def)
    ultimately show thesis
      using stored by simp
  qed
qed

lemma login_succeeds:
  assumes "login_answer_ok (Login u p) (Response r)" "response_ok r" "body r = Inr raw"
  shows "\<exists>v. snd (api_answer (Login u p) (Response r) b) = Inr v"
proof -
  obtain ms t where ms: "JSON_parse raw = Some (JObj ms)" "map_of ms (js ''token'') = Some (JStr t)" "status r \<noteq> 204"
    "map_of ms (js ''token_type'') = None \<or> (\<exists>ty. map_of ms (js ''token_type'') = Some (JStr ty))"
    using assms(1-3) by (auto simp: login_answer_ok_def is_login_def token_answer_def case_string case_optional_string case_object)
  then show ?thesis
    using receive_success [OF assms(2) ms(3) assms(3) ms(1)] finish_login_token [OF ms(2,4)]
    by (simp add: api_answer_def finish_call_def)
qed

subsection \<open>Invariant\<close>

definition app_inv :: "app \<Rightarrow> bool" where
  "app_inv a \<longleftrightarrow> (ap_authenticated a \<longleftrightarrow> stored (ap_browser a) \<noteq> None)"

lemma setAuthenticated_fields [simp]:
  "ap_authenticated (setAuthenticated v a) = v" "ap_browser (setAuthenticated v a) = ap_browser a"
  by (simp_all add: setAuthenticated_def)

lemma app_inv_mounted: "app_inv (app_mounted b)"
  by (auto simp: app_inv_def app_mounted_def getSession_again split: prod.splits) (metis getSession_again prod.sel)+

lemma login_submit_fields [simp]:
  "ap_authenticated (login_submit u p a) = ap_authenticated a"
  "ap_browser (login_submit u p a) = fst (api_send (Login u p) (ap_browser a))"
  by (auto simp: login_submit_def Let_def split: prod.splits sum.splits)

lemma page_request_fields [simp]:
  "ap_authenticated (page_request c a) = ap_authenticated a" "ap_active (page_request c a) = ap_active a"
  "ap_browser (page_request c a) = fst (api_send c (ap_browser a))"
  by (auto simp: page_request_def Let_def split: prod.splits sum.splits)

lemma app_inv_login: "app_inv a \<Longrightarrow> app_inv (login_submit u p a)"
  by (simp add: app_inv_def)

lemma app_inv_call: "app_inv a \<Longrightarrow> app_inv (page_request c a)"
  by (simp add: app_inv_def)

lemma login_answered_fields [simp]:
  "ap_browser (login_answered r a) = ap_browser a"
  "ap_authenticated (login_answered r a) = (ap_authenticated a \<or> \<not> isl r)"
  by (cases r; simp add: login_answered_def)+

lemma on_events_fields [simp]:
  "ap_browser (on_events b b' a) = ap_browser a"
  "ap_authenticated (on_events b b' a) = (ap_authenticated a \<and> unauthorized_event \<notin> set (new_events b b'))"
  by (auto simp: on_events_def)

lemma app_answer_fields:
  "ap_browser (app_answer c outcome a) = fst (api_answer c outcome (ap_browser a))"
  "ap_authenticated (app_answer c outcome a) =
     ((ap_authenticated a \<and>
       unauthorized_event \<notin> set (new_events (ap_browser a) (fst (api_answer c outcome (ap_browser a))))) \<or>
      (is_login c \<and> \<not> isl (snd (api_answer c outcome (ap_browser a)))))"
  by (auto simp: app_answer_def Let_def split: prod.splits)

lemma app_answer_auth:
  assumes "ap_authenticated a \<longleftrightarrow> stored (ap_browser a) \<noteq> None" "login_answer_ok c outcome"
  shows "ap_authenticated (app_answer c outcome a) \<longleftrightarrow> stored (ap_browser (app_answer c outcome a)) \<noteq> None"
proof (cases "\<exists>r. outcome = Response r \<and> status r = 401")
  case True
  then obtain r where r: "outcome = Response r" "status r = 401"
    by blast
  show ?thesis
    using api_answer_401 [OF r(2), where c = c and b = "ap_browser a"] by (auto simp: app_answer_fields r(1))
next
  case False
  show ?thesis
  proof (cases "is_login c")
    case True
    then obtain u p where c: "c = Login u p"
      by (auto simp: is_login_def split: api_call.splits)
    show ?thesis
      by (rule login_answer_cases [of u p outcome "ap_browser a"])
        (use False assms c in \<open>auto simp: app_answer_fields new_events_def is_login_def\<close>)
  next
    case other: False
    then show ?thesis
      using False assms api_answer_other [of outcome c "ap_browser a"]
      by (fastforce simp: app_answer_fields new_events_def is_login_def)
  qed
qed

lemma app_inv_answered: "app_answered a a' \<Longrightarrow> app_inv a \<Longrightarrow> app_inv a'"
proof (induction rule: app_answered.induct)
  case (answer a cs c ds outcome)
  then show ?case
    using app_answer_auth [of "a\<lparr>ap_pending := cs @ ds\<rparr>" c outcome]
    by (simp add: app_inv_def app_answer_fields(1))
qed

lemma app_inv_step: "app_step a a' \<Longrightarrow> app_inv a \<Longrightarrow> app_inv a'"
proof (induction rule: app_step.induct)
  case (select a key)
  then show ?case
    by (simp add: app_inv_def)
next
  case (leave a)
  then show ?case
    by (simp add: app_inv_def logout_def)
qed (auto simp: app_inv_login app_inv_call app_inv_answered)

lemma app_reachable_inv: "app_reachable a \<Longrightarrow> app_inv a"
  by (induction rule: app_reachable.induct) (auto simp: app_inv_mounted app_inv_step)

subsection \<open>Answers come to an end\<close>

definition login_held :: "app \<Rightarrow> bool" where
  "login_held a \<longleftrightarrow> (ap_login_loading a \<longrightarrow> list_ex is_login (ap_pending a))"

lemma app_answer_pending [simp]: "ap_pending (app_answer c outcome a) = ap_pending a"
  by (auto simp: app_answer_def login_answered_def on_events_def setAuthenticated_def Let_def
      split: prod.splits sum.splits)

lemma app_answer_login_loading:
  "is_login c \<Longrightarrow> \<not> ap_login_loading (app_answer c outcome a)"
  "ap_login_loading (app_answer c outcome a) \<Longrightarrow> ap_login_loading a"
  by (auto simp: app_answer_def login_answered_def on_events_def setAuthenticated_def Let_def
      split: prod.splits sum.splits if_splits)

lemma login_held_answered: "app_answered a a' \<Longrightarrow> login_held a \<Longrightarrow> login_held a'"
proof (induction rule: app_answered.induct)
  case (answer a cs c ds outcome)
  then show ?case
    using app_answer_login_loading [of c outcome "a\<lparr>ap_pending := cs @ ds\<rparr>"]
    by (cases "is_login c") (auto simp: login_held_def)
qed

lemma login_held_step: "app_step a a' \<Longrightarrow> login_held a \<Longrightarrow> login_held a'"
proof (induction rule: app_step.induct)
  case (answered a a')
  then show ?case
    by (simp add: login_held_answered)
qed (auto simp: login_held_def logout_def setAuthenticated_def login_submit_def page_request_def is_login_def Let_def
    split: prod.splits sum.splits)

lemma app_reachable_login_held: "app_reachable a \<Longrightarrow> login_held a"
proof (induction rule: app_reachable.induct)
  case (start b)
  then show ?case
    by (simp add: login_held_def app_mounted_def split: prod.splits)
qed (rule login_held_step)

definition pending_answers :: "app \<Rightarrow> nat" where
  "pending_answers a = length (ap_pending a)"

definition login_released :: "app \<Rightarrow> bool" where
  "login_released a \<longleftrightarrow> \<not> ap_login_loading a"

interpretation app_answers: settling app_answered pending_answers app_reachable login_released
proof
  fix a
  assume "0 < pending_answers a"
  then obtain c cs where "ap_pending a = [] @ c # cs"
    by (cases "ap_pending a") (auto simp: pending_answers_def)
  then have "app_answered a (app_answer c (Rejected []) (a\<lparr>ap_pending := [] @ cs\<rparr>))"
    by (rule app_answered.answer) (simp add: login_answer_ok_def)
  then show "\<exists>a'. app_answered a a'"
    by blast
next
  fix a
  assume "app_reachable a" "pending_answers a = 0"
  then show "login_released a"
    using app_reachable_login_held [of a] by (auto simp: login_held_def pending_answers_def login_released_def)
qed (auto elim: app_answered.cases intro: app_reachable.step app_step.answered simp: pending_answers_def)

subsection \<open>What a step sends\<close>

lemma api_send_cases:
  "sent (fst (api_send c b)) = sent b \<or>
   (\<exists>req. snd (api_send c b) = Inr req \<and> sent (fst (api_send c b)) = sent b @ [req])"
  using api_send_failed [of c b] api_send_sent [of c b] by (cases "snd (api_send c b)") auto

lemma step_sent:
  assumes "app_step a a'"
  shows "sent (ap_browser a') = sent (ap_browser a) \<or>
    (\<exists>c req. snd (api_send c (ap_browser a)) = Inr req \<and> sent (ap_browser a') = sent (ap_browser a) @ [req])"
  using assms
proof (cases rule: app_step.cases)
  case (login u p)
  then show ?thesis
    using api_send_cases [of "Login u p" "ap_browser a"] by auto
next
  case (call c)
  then show ?thesis
    using api_send_cases [of c "ap_browser a"] by auto
next
  case answered
  then show ?thesis
    by (auto elim!: app_answered.cases simp: app_answer_fields)
qed (auto simp: logout_def)

subsection \<open>Properties\<close>

definition empty_browser :: browser where
  "empty_browser = \<lparr>local_storage = Map.empty, events = [], sent = [], saved_files = []\<rparr>"

text \<open>
  C1. In every state the dashboard can reach, whatever the user does and in whatever order the
  server answers, the console is shown exactly when a session is stored, and the login
  screen otherwise.
\<close>

theorem console_is_shown_iff_session_is_stored:
  assumes "app_reachable a"
  shows "(\<exists>page menu. DashboardApp a = Shell page menu) \<longleftrightarrow> snd (getSession (local_storage (ap_browser a))) \<noteq> None"
  using app_reachable_inv [OF assms] by (simp add: app_inv_def DashboardApp_def)

theorem console_is_shown_iff_session_is_stored_witness:
  "\<not> (\<exists>page menu. DashboardApp (app_mounted empty_browser) = Shell page menu)"
  using console_is_shown_iff_session_is_stored [OF app_reachable.start [of empty_browser]]
  by (simp add: empty_browser_def app_mounted_def)

text \<open>
  C2. Every request the dashboard sends carries exactly the credential of the session that is
  stored at that moment; so every request sent while the console is shown has an
  \<open>Authorization\<close> header, whichever page it comes from.
\<close>

theorem console_requests_are_authorized:
  assumes "app_reachable a" and "app_step a a'"
    and "q \<in> set (drop (length (sent (ap_browser a))) (sent (ap_browser a')))"
  shows "header_of (js ''Authorization'') (rq_headers q) =
      map_option (\<lambda>s. header_normalize (auth_value s)) (snd (getSession (local_storage (ap_browser a))))
    \<and> (DashboardApp a = Shell page menu \<longrightarrow> (\<exists>v. header_of (js ''Authorization'') (rq_headers q) = Some v))"
proof -
  obtain c where "snd (api_send c (ap_browser a)) = Inr q"
    using step_sent [OF assms(2)] assms(3) by auto
  then have "header_of (js ''Authorization'') (rq_headers q) =
      map_option (\<lambda>s. header_normalize (auth_value s)) (snd (getSession (local_storage (ap_browser a))))"
    using api_send_sent by (simp add: sent_auth_def comp_def)
  then show ?thesis
    using app_reachable_inv [OF assms(1)] by (auto simp: app_inv_def DashboardApp_def split: if_splits)
qed

definition session_browser :: browser where
  "session_browser =
     empty_browser\<lparr>local_storage := saveSession (Some (JStr (js ''abc''))) (Some (JStr (js ''Bearer''))) Map.empty\<rparr>"

lemma session_browser_stored:
  "snd (getSession (local_storage session_browser)) \<noteq> None" "sendable (local_storage session_browser)"
proof -
  have gs: "snd (getSession (local_storage session_browser)) =
      Some (session_object (Some (JStr (js ''abc''))) (Some (JStr (js ''Bearer''))))"
    by (simp add: session_browser_def getSession_saved json_truthy_def)
  have "header_normalize (js ''Bearer abc'') = js ''Bearer abc''" "header_value_ok (js ''Bearer abc'')"
    by (simp_all add: header_normalize_def header_value_ok_def http_ws_def js_def)
  then show "sendable (local_storage session_browser)"
    by (simp add: sendable_def gs auth_value_def session_get_def opt_String_def flip: js_append)
      (simp add: js_def)
  show "snd (getSession (local_storage session_browser)) \<noteq> None"
    by (simp add: gs)
qed

lemma session_app:
  "ap_authenticated (app_mounted session_browser)" "app_reachable (app_mounted session_browser)"
  "sent (ap_browser (app_mounted session_browser)) = []" "sendable (local_storage (ap_browser (app_mounted session_browser)))"
proof -
  show "ap_authenticated (app_mounted session_browser)"
    using session_browser_stored(1) by (auto simp: app_mounted_def split: prod.splits)
  show "app_reachable (app_mounted session_browser)"
    by (rule app_reachable.start) (simp_all add: session_browser_def empty_browser_def)
  show "sent (ap_browser (app_mounted session_browser)) = []"
    by (auto simp: app_mounted_def session_browser_def empty_browser_def split: prod.splits)
  show "sendable (local_storage (ap_browser (app_mounted session_browser)))"
    using session_browser_stored(2) by (auto simp: app_mounted_def sendable_def split: prod.splits) (metis getSession_again prod.sel)
qed

lemma list_clients_sent:
  assumes "sendable (local_storage b)"
  obtains hs where "snd (api_send ListClients b) = Inr (build_request (js ''/api/clients'') plain_get hs)"
proof -
  obtain hs where "requestHeaders plain_get (local_storage b) = (fst (getSession (local_storage b)), Inr hs)"
    using requestHeaders_plain [OF _ assms, of plain_get] by (auto simp: plain_get_def)
  then show thesis
    using that [of hs] by (simp add: api_send_def Let_def)
qed

theorem console_requests_are_authorized_witness:
  "\<exists>q v. sent (ap_browser (page_request ListClients (app_mounted session_browser))) = [q] \<and>
     header_of (js ''Authorization'') (rq_headers q) = Some v"
proof -
  let ?a = "app_mounted session_browser"
  obtain hs where hs: "snd (api_send ListClients (ap_browser ?a)) = Inr (build_request (js ''/api/clients'') plain_get hs)"
    using list_clients_sent [OF session_app(4)] .
  have sent: "sent (ap_browser (page_request ListClients ?a)) = [build_request (js ''/api/clients'') plain_get hs]"
    using api_send_sent [OF hs] session_app(3) by simp
  obtain page menu where shown: "DashboardApp ?a = Shell page menu"
    using session_app(1) by (simp add: DashboardApp_def)
  have "app_step ?a (page_request ListClients ?a)"
    by (rule app_step.call) (simp add: is_login_def)
  moreover have "build_request (js ''/api/clients'') plain_get hs \<in> set (drop (length (sent (ap_browser ?a)))
      (sent (ap_browser (page_request ListClients ?a))))"
    using sent session_app(3) by (simp del: page_request_fields)
  ultimately have "\<exists>v. header_of (js ''Authorization'') (rq_headers (build_request (js ''/api/clients'') plain_get hs)) = Some v"
    using console_requests_are_authorized [OF session_app(2)] shown by blast
  then show ?thesis
    using sent by blast
qed

text \<open>
  C15. The login form never stays busy: when the requests under way have been answered, in
  whatever order and whether they succeeded or failed, the dashboard shows the console or a
  login form that can be submitted again. Each answer settles one request, so that there are
  never more answers to wait for than requests under way.
\<close>

theorem login_form_is_released:
  assumes "app_reachable a"
  shows "(\<exists>a'. app_answered\<^sup>*\<^sup>* a a' \<and> ap_pending a' = [])
    \<and> (\<forall>n a'. (app_answered ^^ n) a a' \<longrightarrow> n \<le> length (ap_pending a))
    \<and> (\<forall>a'. app_answered\<^sup>*\<^sup>* a a' \<and> ap_pending a' = [] \<longrightarrow>
        (\<exists>page menu. DashboardApp a' = Shell page menu) \<or> (\<exists>err. DashboardApp a' = LoginScreen err False))"
proof (intro conjI allI impI)
  show "\<exists>a'. app_answered\<^sup>*\<^sup>* a a' \<and> ap_pending a' = []"
    using app_answers.drains [of a] by (simp add: pending_answers_def)
  show "n \<le> length (ap_pending a)" if "(app_answered ^^ n) a a'" for n a'
    using app_answers.chain_bounded [OF that] by (simp add: pending_answers_def)
  show "(\<exists>page menu. DashboardApp a' = Shell page menu) \<or> (\<exists>err. DashboardApp a' = LoginScreen err False)"
    if "app_answered\<^sup>*\<^sup>* a a' \<and> ap_pending a' = []" for a'
    using app_answers.rests_quiet [OF assms, of a'] that
    by (simp add: pending_answers_def login_released_def DashboardApp_def)
qed

theorem login_form_is_released_witness:
  "\<exists>a'. app_answered\<^sup>*\<^sup>* (login_submit (js ''admin'') (js ''secret'') (app_mounted empty_browser)) a' \<and> ap_pending a' = []"
proof -
  have "app_reachable (login_submit (js ''admin'') (js ''secret'') (app_mounted empty_browser))"
    by (rule app_reachable.step [OF app_reachable.start app_step.login])
      (simp_all add: empty_browser_def app_mounted_def)
  then show ?thesis
    using login_form_is_released by blast
qed

text \<open>
  C14. When any request under way, of a page, of the log download or of the login form, is
  answered with 401, whatever else is under way, the stored session is gone and the login screen is
  shown. If it was the login, the form can be submitted again and shows the text that the client makes
  of the answer.
\<close>

theorem any_401_returns_to_the_login_screen:
  assumes "status r = 401"
  shows "(\<exists>err busy. DashboardApp (app_answer c (Response r) a) = LoginScreen err busy) \<and>
    snd (getSession (local_storage (ap_browser (app_answer c (Response r) a)))) = None \<and>
    (\<forall>v. is_login c \<and> readPayload r = Inr v \<longrightarrow>
       DashboardApp (app_answer c (Response r) a) = LoginScreen (Some (errorMessage v (statusText r))) False)"
proof (intro conjI allI impI)
  have not_ok: "\<not> response_ok r"
    using assms by (simp add: response_ok_def)
  have out: "\<not> ap_authenticated (app_answer c (Response r) a)"
    using api_answer_401 [OF assms, where c = c and b = "ap_browser a"] by (auto simp: app_answer_fields)
  then show "\<exists>err busy. DashboardApp (app_answer c (Response r) a) = LoginScreen err busy"
    by (simp add: DashboardApp_def)
  show "snd (getSession (local_storage (ap_browser (app_answer c (Response r) a)))) = None"
    using api_answer_401 [OF assms, where c = c and b = "ap_browser a"] by (simp add: app_answer_fields)
  fix v
  assume v: "is_login c \<and> readPayload r = Inr v"
  then have "ap_login_error (app_answer c (Response r) a) = Some (errorMessage v (statusText r))"
    "\<not> ap_login_loading (app_answer c (Response r) a)"
    using assms by (simp_all add: app_answer_def api_answer_not_ok [OF not_ok] login_answered_def toMessage_def Let_def)
  moreover have "truthy_opt (Some (errorMessage v (statusText r)))"
    using hasChinese_ne [OF errorMessage_is_chinese] by (simp add: truthy_opt_def)
  ultimately show "DashboardApp (app_answer c (Response r) a) = LoginScreen (Some (errorMessage v (statusText r))) False"
    using out by (simp add: DashboardApp_def)
qed

theorem any_401_returns_to_the_login_screen_witness:
  "\<exists>err busy. DashboardApp (app_answer (DownloadLogs \<lparr>lf_keyword = None, lf_level = None, lf_page = None, lf_limit = None\<rparr>)
     (Response \<lparr>status = 401, statusText = [], body = Inr []\<rparr>) (app_mounted session_browser)) = LoginScreen err busy"
  using any_401_returns_to_the_login_screen [of "\<lparr>status = 401, statusText = [], body = Inr []\<rparr>"] by simp

subsection \<open>Answers are not tied to sessions\<close>

definition login_ok :: response where
  "login_ok = \<lparr>status = 200, statusText = [], body = Inr (js ''{\"token\":\"t\"}'')\<rparr>"

definition with_request :: app where
  "with_request = page_request ListClients (app_mounted session_browser)"

lemma login_ok_answer: "login_answer_ok (Login u p) (Response login_ok)"
proof -
  have "JSON_parse (js ''{\"token\":\"t\"}'') = Some (JObj [(js ''token'', JStr (js ''t''))])"
    by code_simp
  then show ?thesis
    by (simp add: login_answer_ok_def login_ok_def is_login_def token_answer_def)
qed

lemma with_request_fields:
  "app_reachable with_request" "ap_authenticated with_request" "ap_pending with_request = [] @ ListClients # []"
proof -
  let ?a = "app_mounted session_browser"
  show "app_reachable with_request"
    unfolding with_request_def
    by (rule app_reachable.step [OF session_app(2) app_step.call]) (simp add: is_login_def)
  show "ap_authenticated with_request"
    by (simp add: with_request_def session_app(1))
  obtain hs where "snd (api_send ListClients (ap_browser ?a)) = Inr (build_request (js ''/api/clients'') plain_get hs)"
    using list_clients_sent [OF session_app(4)] .
  then show "ap_pending with_request = [] @ ListClients # []"
    by (auto simp: with_request_def page_request_def app_mounted_def Let_def split: prod.splits sum.splits)
qed

text \<open>A login form that is submitted when no session is stored sends its request.\<close>

lemma login_submit_pending:
  assumes "stored (ap_browser a) = None"
  shows "ap_pending (login_submit u p a) = ap_pending a @ [Login u p]"
proof -
  have s: "sendable (local_storage (ap_browser a))"
    using assms by (simp add: sendable_def)
  obtain hs where "requestHeaders (snd (projr (api_target (Login u p)))) (local_storage (ap_browser a)) =
      (fst (getSession (local_storage (ap_browser a))), Inr hs)"
    by (rule requestHeaders_plain [OF api_target_headers [of "Login u p"] s]) simp_all
  then have "\<exists>req. snd (api_send (Login u p) (ap_browser a)) = Inr req"
    by (simp add: api_send_eq Let_def)
  then show ?thesis
    by (auto simp: login_submit_def Let_def split: prod.splits sum.splits)
qed

text \<open>
  C40. An answer is not tied to the session its request was sent with. Take any state with a
  request under way: the user leaves the console and logs in again, as any user, and the login succeeds. When
  the old request is then answered with 401, the new session is removed and the login screen is back.
\<close>

theorem stale_401_ends_the_new_session:
  assumes "app_reachable a" and "ap_authenticated a" and "ap_pending a = cs @ c # ds" and "\<not> is_login c"
    and "login_answer_ok (Login u p) (Response r)" and "response_ok r" and "body r = Inr raw" and "status r' = 401"
  defines "signed_in \<equiv> app_answer (Login u p) (Response r) ((login_submit u p (logout a))\<lparr>ap_pending := cs @ c # ds\<rparr>)"
  defines "ended \<equiv> app_answer c (Response r') (signed_in\<lparr>ap_pending := cs @ ds\<rparr>)"
  shows "app_step a (logout a) \<and> app_step (logout a) (login_submit u p (logout a)) \<and> app_step (login_submit u p (logout a)) signed_in
    \<and> (\<exists>page menu. DashboardApp signed_in = Shell page menu) \<and> snd (getSession (local_storage (ap_browser signed_in))) \<noteq> None
    \<and> app_step signed_in ended
    \<and> (\<exists>err busy. DashboardApp ended = LoginScreen err busy) \<and> snd (getSession (local_storage (ap_browser ended))) = None"
proof -
  let ?out = "logout a" and ?sub = "login_submit u p (logout a)"
  have out: "\<not> ap_authenticated ?out" "\<not> ap_login_loading ?out" "stored (ap_browser ?out) = None" "ap_pending ?out = ap_pending a"
    using assms(2) by (simp_all add: logout_def setAuthenticated_def)
  have pend: "ap_pending ?sub = (cs @ c # ds) @ Login u p # []"
    using login_submit_pending [OF out(3)] out(4) assms(3) by simp
  have s1: "app_step a ?out" and s2: "app_step ?out ?sub"
    using assms(2) out by (auto intro: app_step.leave app_step.login)
  have s3: "app_step ?sub signed_in"
    using app_step.answered [OF app_answered.answer [OF pend assms(5)]] by (simp add: signed_in_def)
  have "\<exists>v. snd (api_answer (Login u p) (Response r) (ap_browser ?sub)) = Inr v"
    by (rule login_succeeds [OF assms(5-7)])
  then have auth: "ap_authenticated signed_in"
    by (auto simp: signed_in_def app_answer_fields is_login_def simp del: login_submit_fields)
  have "app_reachable signed_in"
    using assms(1) s1 s2 s3 by (blast intro: app_reachable.step)
  then have "stored (ap_browser signed_in) \<noteq> None"
    using auth app_reachable_inv by (auto simp: app_inv_def)
  moreover have "app_step signed_in ended"
    unfolding ended_def using assms(4)
    by (intro app_step.answered app_answered.answer) (simp_all add: signed_in_def login_answer_ok_def)
  moreover have "stored (ap_browser ended) = None \<and> \<not> ap_authenticated ended"
    using api_answer_401 [OF assms(8), where c = c and b = "ap_browser signed_in"] assms(4)
    by (auto simp: ended_def app_answer_fields)
  ultimately show ?thesis
    using s1 s2 s3 auth by (simp add: DashboardApp_def)
qed

theorem stale_401_ends_the_new_session_witness:
  "\<exists>a b. app_step a b \<and> (\<exists>page menu. DashboardApp a = Shell page menu) \<and> (\<exists>err busy. DashboardApp b = LoginScreen err busy)"
  using stale_401_ends_the_new_session [where u = "js ''admin''" and p = "js ''secret''" and raw = "js ''{\"token\":\"t\"}''"
      and r' = "\<lparr>status = 401, statusText = [], body = Inr []\<rparr>", OF with_request_fields _ login_ok_answer]
  by (simp add: is_login_def login_ok_def response_ok_def) blast

end
