(* ===== verification/Console.thy ===== *)
theory Console
  imports Dash_Views Tunnels_Page Dashboard_App
begin

text \<open>
  The dashboard as a whole: the shell of \<open>App.tsx\<close> with the page it shows. Selecting another
  page, logging out and a 401 unmount the page; what it still awaits goes on without it, so
  that the pages that were left stay part of the state; answers still reach them, and the
  confirmation dialogs they opened (the timers of a page end with it). A page that mounts starts its loads; every call a page makes
  is a request of the shell's client.

  \<open>console_step\<close> refines \<open>app_step\<close> of the shell, and with it what holds of the shell holds
  of the whole.
\<close>

subsection \<open>Pages\<close>

datatype page_state =
    OverviewState overview_page
  | ClientsState clients_page
  | TokensState tokens_page
  | TunnelsState tunnels_page
  | RelaysState relays_page
  | TrafficState traffic_page
  | LogsState logs_page
  | SettingsState settings_page "transport_ui \<times> transport_op list"

text \<open>The state of a page after its first effects.\<close>

definition page_mounted :: "js_string \<Rightarrow> page_state" where
  "page_mounted key =
     (if key = js ''clients'' then ClientsState (page_reload [ListClients] clients_initial)
      else if key = js ''tokens'' then TokensState (page_reload [ListTokens] tokens_initial)
      else if key = js ''tunnels'' then TunnelsState (tunnels_reload tunnels_initial)
      else if key = js ''relays'' then
        RelaysState (relays_reload \<lparr>pb_hook = mounted, pb_calls = [], pb_toasts = [], rp_assignments = mounted\<rparr>)
      else if key = js ''traffic'' then TrafficState traffic_mounted
      else if key = js ''logs'' then LogsState logs_mounted
      else if key = js ''settings'' then
        SettingsState (page_reload [GetSettings]
          \<lparr>pb_hook = mounted, pb_calls = [], pb_toasts = [], gp_password_form = ([], [])\<rparr>) transport_mounted
      else OverviewState (overview_reload \<lparr>pb_hook = mounted, pb_calls = [], pb_toasts = []\<rparr>))"

fun page_calls :: "page_state \<Rightarrow> api_call list" where
  "page_calls (OverviewState s) = pb_calls s"
| "page_calls (ClientsState s) = pb_calls s"
| "page_calls (TokensState s) = pb_calls s"
| "page_calls (TunnelsState s) = pb_calls s"
| "page_calls (RelaysState s) = pb_calls s"
| "page_calls (TrafficState s) = pb_calls s"
| "page_calls (LogsState s) = pb_calls s"
| "page_calls (SettingsState s u) = ui_calls (fst u) @ pb_calls s"

text \<open>Which events reach a page that was left: answers, and the buttons of confirmation dialogs, which belong to
  the application and stay when the page is left. The others need the page on the screen.\<close>

definition overview_answers :: "overview_event \<Rightarrow> bool" where
  "overview_answers e = (case e of OverviewLoaded i ps o' c t \<Rightarrow> True | _ \<Rightarrow> False)"

definition clients_answers :: "clients_event \<Rightarrow> bool" where
  "clients_answers e =
     (case e of DetailAnswer n r \<Rightarrow> True | UpdateAnswer r \<Rightarrow> True | DeleteAnswer r \<Rightarrow> True | ResetAnswer r \<Rightarrow> True
      | ClientsLoaded i r \<Rightarrow> True | RemoveConfirmed c \<Rightarrow> True | _ \<Rightarrow> False)"

definition tokens_answers :: "tokens_event \<Rightarrow> bool" where
  "tokens_answers e =
     (case e of CreateAnswer r \<Rightarrow> True | RemoveTokenAnswer r \<Rightarrow> True | SwitchAnswer r \<Rightarrow> True | TokensLoaded i r \<Rightarrow> True
      | RemoveTokenConfirmed t \<Rightarrow> True | _ \<Rightarrow> False)"

definition tunnels_answers :: "tunnels_event \<Rightarrow> bool" where
  "tunnels_answers e =
     (case e of SubmitAnswer r \<Rightarrow> True | ToggleAnswer r \<Rightarrow> True | RemoveTunnelAnswer r \<Rightarrow> True | TunnelsListed \<Rightarrow> True
      | TunnelClientsListed \<Rightarrow> True | TunnelsLoaded i r \<Rightarrow> True | RemoveTunnelConfirmed t \<Rightarrow> True | _ \<Rightarrow> False)"

definition relays_answers :: "relays_event \<Rightarrow> bool" where
  "relays_answers e = (case e of NodesLoaded i r \<Rightarrow> True | AssignmentsLoaded i r \<Rightarrow> True | _ \<Rightarrow> False)"

definition traffic_answers :: "traffic_event \<Rightarrow> bool" where
  "traffic_answers e = (case e of TrafficLoaded i r \<Rightarrow> True | _ \<Rightarrow> False)"

definition logs_answers :: "logs_event \<Rightarrow> bool" where
  "logs_answers e =
     (case e of LogsLoaded i r \<Rightarrow> True | ClearAnswer i r \<Rightarrow> True | ClearConfirmed i \<Rightarrow> True | ClearCancelled i \<Rightarrow> True
      | DownloadAnswer r \<Rightarrow> True | _ \<Rightarrow> False)"

definition settings_answers :: "settings_event \<Rightarrow> bool" where
  "settings_answers e =
     (case e of PasswordAnswer r \<Rightarrow> True | ValueAnswer k r \<Rightarrow> True | SettingsLoaded i r \<Rightarrow> True | _ \<Rightarrow> False)"

text \<open>\<open>page_step live p cs p'\<close>: a step of a page, on the screen or not, that makes the calls \<open>cs\<close>.\<close>

inductive page_step :: "bool \<Rightarrow> page_state \<Rightarrow> api_call list \<Rightarrow> page_state \<Rightarrow> bool" for live where
  overview: "live \<or> overview_answers e \<Longrightarrow> pb_calls (overview_step s e) = pb_calls s @ cs \<Longrightarrow>
    page_step live (OverviewState s) cs (OverviewState (overview_step s e))"
| clients: "live \<or> clients_answers ec \<Longrightarrow> pb_calls (clients_step sc ec) = pb_calls sc @ cs \<Longrightarrow>
    page_step live (ClientsState sc) cs (ClientsState (clients_step sc ec))"
| tokens: "live \<or> tokens_answers ek \<Longrightarrow> pb_calls (tokens_step sk ek) = pb_calls sk @ cs \<Longrightarrow>
    page_step live (TokensState sk) cs (TokensState (tokens_step sk ek))"
| tunnels: "live \<or> tunnels_answers eu \<Longrightarrow> pb_calls (tunnels_step su eu) = pb_calls su @ cs \<Longrightarrow>
    page_step live (TunnelsState su) cs (TunnelsState (tunnels_step su eu))"
| relays: "live \<or> relays_answers er \<Longrightarrow> pb_calls (relays_step sr er) = pb_calls sr @ cs \<Longrightarrow>
    page_step live (RelaysState sr) cs (RelaysState (relays_step sr er))"
| traffic: "live \<or> traffic_answers ef \<Longrightarrow> pb_calls (traffic_step sf ef) = pb_calls sf @ cs \<Longrightarrow>
    page_step live (TrafficState sf) cs (TrafficState (traffic_step sf ef))"
| logs: "live \<or> logs_answers el \<Longrightarrow> pb_calls (logs_step sl el) = pb_calls sl @ cs \<Longrightarrow>
    page_step live (LogsState sl) cs (LogsState (logs_step sl el))"
| settings: "live \<or> settings_answers eg \<Longrightarrow> pb_calls (settings_step sg eg) = pb_calls sg @ cs \<Longrightarrow>
    page_step live (SettingsState sg u) cs (SettingsState (settings_step sg eg) u)"
| transport: "transport_step u u' \<Longrightarrow> live \<or> transport_answered u u' \<Longrightarrow> ui_calls (fst u') = ui_calls (fst u) @ cs \<Longrightarrow>
    page_step live (SettingsState sg u) cs (SettingsState sg u')"

subsection \<open>The console\<close>

record console =
  cs_app :: app
  cs_page :: "page_state option"
  cs_left :: "page_state list"

definition send_all :: "api_call list \<Rightarrow> app \<Rightarrow> app" where
  "send_all cs a = fold page_request cs a"

definition unmount :: "console \<Rightarrow> console" where
  "unmount c = (case cs_page c of None \<Rightarrow> c | Some p \<Rightarrow> c\<lparr>cs_page := None, cs_left := p # cs_left c\<rparr>)"

definition mount :: "console \<Rightarrow> console" where
  "mount c =
     (let p = page_mounted (activePage (cs_app c)) in
      c\<lparr>cs_page := Some p, cs_app := send_all (page_calls p) (cs_app c)\<rparr>)"

text \<open>The rendering after a change of the shell: the login page, or the active page.\<close>

definition render :: "console \<Rightarrow> console" where
  "render c =
     (if \<not> ap_authenticated (cs_app c) then unmount c
      else if cs_page c = None then mount c else c)"

definition select_page :: "js_string \<Rightarrow> console \<Rightarrow> console" where
  "select_page key c =
     (let c' = c\<lparr>cs_app := (cs_app c)\<lparr>ap_active := key\<rparr>\<rparr> in
      if activePage (cs_app c') = activePage (cs_app c) then c' else mount (unmount c'))"

definition console_mounted :: "browser \<Rightarrow> console" where
  "console_mounted b = render \<lparr>cs_app = app_mounted b, cs_page = None, cs_left = []\<rparr>"

inductive console_step :: "console \<Rightarrow> console \<Rightarrow> bool" where
  page: "cs_page c = Some p \<Longrightarrow> page_step True p cs p' \<Longrightarrow>
    console_step c (c\<lparr>cs_page := Some p', cs_app := send_all cs (cs_app c)\<rparr>)"
| gone: "cs_left c = ps @ p # qs \<Longrightarrow> page_step False p cs p' \<Longrightarrow>
    console_step c (c\<lparr>cs_left := ps @ p' # qs, cs_app := send_all cs (cs_app c)\<rparr>)"
| menu: "cs_page c \<noteq> None \<Longrightarrow> console_step c (select_page key c)"
| leave: "cs_page c \<noteq> None \<Longrightarrow> console_step c (render (c\<lparr>cs_app := logout (cs_app c)\<rparr>))"
| login: "cs_page c = None \<Longrightarrow> \<not> ap_login_loading (cs_app c) \<Longrightarrow>
    console_step c (c\<lparr>cs_app := login_submit u p (cs_app c)\<rparr>)"
| answered: "app_answered (cs_app c) a \<Longrightarrow> console_step c (render (c\<lparr>cs_app := a\<rparr>))"

inductive console_reachable :: "console \<Rightarrow> bool" where
  start: "events b = [] \<Longrightarrow> sent b = [] \<Longrightarrow> console_reachable (console_mounted b)"
| step: "console_reachable c \<Longrightarrow> console_step c c' \<Longrightarrow> console_reachable c'"

subsection \<open>Calls of the pages\<close>

definition page_call_ok :: "api_call \<Rightarrow> bool" where
  "page_call_ok c \<longleftrightarrow> \<not> is_login c"

lemmas page_step_defs = overview_reload_def clients_defs tokens_defs tunnels_defs tunnels_listed_def tunnel_clients_listed_def
  createClicked_def relays_reload_def rangeChosen_def logs_render_def logs_call_def applySearch_def searchTyped_def
  levelChosen_def logs_filter_def clear_def clear_cancelled_def clearLogs_def clearLogs_answer_def download_def download_answer_def submitPassword_def submitPassword_answer_def
  saveValue_def saveValue_answer_def

lemma page_mounted_calls: "list_all page_call_ok (page_calls (page_mounted key))"
  by (simp add: page_mounted_def page_step_defs traffic_mounted_def logs_mounted_def transport_mounted_def
      transport_initial_def clients_initial_def tokens_initial_def tunnels_initial_def ui_op_defs
      page_call_ok_def is_login_def)

lemma overview_calls: "pb_calls (overview_step s e) = pb_calls s @ cs \<Longrightarrow> list_all page_call_ok cs"
  by (cases e) (auto simp: page_step_defs page_call_ok_def is_login_def)

lemma clients_calls: "pb_calls (clients_step s e) = pb_calls s @ cs \<Longrightarrow> list_all page_call_ok cs"
  by (cases e) (auto simp: page_step_defs page_call_ok_def is_login_def split: option.splits sum.splits if_splits)

lemma tokens_calls: "pb_calls (tokens_step s e) = pb_calls s @ cs \<Longrightarrow> list_all page_call_ok cs"
  by (cases e) (auto simp: page_step_defs page_call_ok_def is_login_def split: option.splits sum.splits if_splits)

lemma tunnels_calls: "pb_calls (tunnels_step s e) = pb_calls s @ cs \<Longrightarrow> list_all page_call_ok cs"
  by (cases e) (auto simp: page_step_defs page_call_ok_def is_login_def split: option.splits sum.splits if_splits)

lemma relays_calls: "pb_calls (relays_step s e) = pb_calls s @ cs \<Longrightarrow> list_all page_call_ok cs"
  by (cases e) (auto simp: page_step_defs page_call_ok_def is_login_def)

lemma traffic_calls: "pb_calls (traffic_step s e) = pb_calls s @ cs \<Longrightarrow> list_all page_call_ok cs"
  by (cases e) (auto simp: page_step_defs page_call_ok_def is_login_def split: if_splits)

lemma logs_calls: "pb_calls (logs_step s e) = pb_calls s @ cs \<Longrightarrow> list_all page_call_ok cs"
  by (cases e) (auto simp: page_step_defs page_call_ok_def is_login_def split: sum.splits if_splits)

lemma settings_calls: "pb_calls (settings_step s e) = pb_calls s @ cs \<Longrightarrow> list_all page_call_ok cs"
  by (cases e) (auto simp: page_step_defs page_call_ok_def is_login_def split: sum.splits)

lemma transport_calls:
  assumes "transport_step u u'" "ui_calls (fst u') = ui_calls (fst u) @ cs"
  shows "list_all page_call_ok cs"
  using assms(1)
proof (cases rule: transport_step.cases)
  case answered
  then show ?thesis
    using assms(2) by (auto elim: transport_answered.cases)
qed (use assms(2) in \<open>auto simp: ui_op_defs page_call_ok_def is_login_def split: if_splits\<close>)

lemma page_step_calls: "page_step live p cs p' \<Longrightarrow> list_all page_call_ok cs"
  by (induction rule: page_step.induct)
    (simp_all add: overview_calls clients_calls tokens_calls tunnels_calls relays_calls traffic_calls logs_calls settings_calls
      transport_calls)

text \<open>Handlers only add calls, so that no event of a page is left out.\<close>

lemma pages_only_add_calls:
  "\<exists>cs. pb_calls (overview_step so eo) = pb_calls so @ cs"
  "\<exists>cs. pb_calls (clients_step sc ec) = pb_calls sc @ cs"
  "\<exists>cs. pb_calls (tokens_step sk ek) = pb_calls sk @ cs"
  "\<exists>cs. pb_calls (tunnels_step su eu) = pb_calls su @ cs"
  "\<exists>cs. pb_calls (relays_step sr er) = pb_calls sr @ cs"
  "\<exists>cs. pb_calls (traffic_step sf ef) = pb_calls sf @ cs"
  "\<exists>cs. pb_calls (logs_step sl el) = pb_calls sl @ cs"
  "\<exists>cs. pb_calls (settings_step sg eg) = pb_calls sg @ cs"
proof -
  show "\<exists>cs. pb_calls (overview_step so eo) = pb_calls so @ cs"
    by (cases eo) (auto simp: page_step_defs split: option.splits sum.splits)
  show "\<exists>cs. pb_calls (clients_step sc ec) = pb_calls sc @ cs"
    by (cases ec) (auto simp: page_step_defs split: option.splits sum.splits)
  show "\<exists>cs. pb_calls (tokens_step sk ek) = pb_calls sk @ cs"
    by (cases ek) (auto simp: page_step_defs split: option.splits sum.splits)
  show "\<exists>cs. pb_calls (tunnels_step su eu) = pb_calls su @ cs"
    by (cases eu) (auto simp: page_step_defs split: option.splits sum.splits)
  show "\<exists>cs. pb_calls (relays_step sr er) = pb_calls sr @ cs"
    by (cases er) (auto simp: page_step_defs split: option.splits sum.splits)
  show "\<exists>cs. pb_calls (traffic_step sf ef) = pb_calls sf @ cs"
    by (cases ef) (auto simp: page_step_defs split: option.splits sum.splits)
  show "\<exists>cs. pb_calls (logs_step sl el) = pb_calls sl @ cs"
    by (cases el) (auto simp: page_step_defs split: option.splits sum.splits)
  show "\<exists>cs. pb_calls (settings_step sg eg) = pb_calls sg @ cs"
    by (cases eg) (auto simp: page_step_defs split: option.splits sum.splits)
qed

subsection \<open>The console refines the shell\<close>

lemma send_all_fields [simp]:
  "ap_authenticated (send_all cs a) = ap_authenticated a" "ap_active (send_all cs a) = ap_active a"
  "stored (ap_browser (send_all cs a)) = stored (ap_browser a)"
  by (induction cs arbitrary: a) (simp_all add: send_all_def)

lemma send_all_steps: "list_all page_call_ok cs \<Longrightarrow> app_step\<^sup>*\<^sup>* a (send_all cs a)"
proof (induction cs arbitrary: a)
  case (Cons c cs)
  then have "app_step a (page_request c a)" "app_step\<^sup>*\<^sup>* (page_request c a) (send_all cs (page_request c a))"
    by (simp_all add: app_step.call page_call_ok_def)
  then show ?case
    by (simp add: send_all_def converse_rtranclp_into_rtranclp)
qed (simp add: send_all_def)

lemma unmount_fields [simp]: "cs_app (unmount c) = cs_app c" "cs_page (unmount c) = None"
  by (simp_all add: unmount_def split: option.splits)

lemma mount_fields [simp]:
  "cs_app (mount c) = send_all (page_calls (page_mounted (activePage (cs_app c)))) (cs_app c)"
  "cs_page (mount c) = Some (page_mounted (activePage (cs_app c)))"
  by (simp_all add: mount_def Let_def)

lemma mount_steps: "app_step\<^sup>*\<^sup>* (cs_app c) (cs_app (mount c))"
  using send_all_steps [OF page_mounted_calls] by simp

lemma render_steps: "app_step\<^sup>*\<^sup>* (cs_app c) (cs_app (render c))"
  using mount_steps [of c] by (simp add: render_def)

definition page_iff_session :: "console \<Rightarrow> bool" where
  "page_iff_session c \<longleftrightarrow> (cs_page c \<noteq> None \<longleftrightarrow> ap_authenticated (cs_app c))"

lemma render_page: "page_iff_session (render c)"
  by (auto simp: page_iff_session_def render_def)

lemma console_step_refines:
  assumes "console_step c c'" "page_iff_session c"
  shows "app_step\<^sup>*\<^sup>* (cs_app c) (cs_app c') \<and> page_iff_session c'"
  using assms(1)
proof (cases rule: console_step.cases)
  case (page p cs p')
  then show ?thesis
    using assms(2) send_all_steps [OF page_step_calls] by (auto simp: page_iff_session_def)
next
  case (gone ps p qs cs p')
  then show ?thesis
    using assms(2) send_all_steps [OF page_step_calls] by (auto simp: page_iff_session_def)
next
  case (menu key)
  let ?c = "c\<lparr>cs_app := (cs_app c)\<lparr>ap_active := key\<rparr>\<rparr>"
  have auth: "ap_authenticated (cs_app c)"
    using menu assms(2) by (simp add: page_iff_session_def)
  then have "app_step (cs_app c) (cs_app ?c)"
    using app_step.select by simp
  moreover have "app_step\<^sup>*\<^sup>* (cs_app ?c) (cs_app (mount (unmount ?c)))"
    using mount_steps [of "unmount ?c"] by simp
  ultimately show ?thesis
    using menu auth assms(2)
    by (auto simp: select_page_def page_iff_session_def Let_def intro: converse_rtranclp_into_rtranclp)
next
  case leave
  then have "app_step (cs_app c) (logout (cs_app c))"
    using assms(2) app_step.leave by (simp add: page_iff_session_def)
  then show ?thesis
    using leave render_steps [of "c\<lparr>cs_app := logout (cs_app c)\<rparr>"] render_page
    by (auto intro: converse_rtranclp_into_rtranclp)
next
  case (login u p)
  then show ?thesis
    using assms(2) app_step.login [of "cs_app c" u p] by (auto simp: page_iff_session_def)
next
  case (answered a)
  then show ?thesis
    using render_steps [of "c\<lparr>cs_app := a\<rparr>"] render_page app_step.answered
    by (auto intro: converse_rtranclp_into_rtranclp)
qed

lemma app_reachable_star: "app_step\<^sup>*\<^sup>* a a' \<Longrightarrow> app_reachable a \<Longrightarrow> app_reachable a'"
  by (induction rule: rtranclp_induct) (auto intro: app_reachable.step)

lemma console_reachable_refines: "console_reachable c \<Longrightarrow> app_reachable (cs_app c) \<and> page_iff_session c"
proof (induction rule: console_reachable.induct)
  case (start b)
  then show ?case
    using app_reachable_star [OF render_steps] app_reachable.start [of b] render_page
    by (fastforce simp: console_mounted_def)
next
  case (step c c')
  then show ?case
    using console_step_refines app_reachable_star by blast
qed

subsection \<open>What a step of the console sends\<close>

text \<open>All requests sent while a session is stored carry its credential.\<close>

definition sends_as :: "app \<Rightarrow> app \<Rightarrow> bool" where
  "sends_as a a' \<longleftrightarrow>
     (\<exists>qs. sent (ap_browser a') = sent (ap_browser a) @ qs \<and>
       list_all (\<lambda>q. header_of (js ''Authorization'') (rq_headers q) = sent_auth (local_storage (ap_browser a))) qs)"

lemma sent_auth_stored: "stored b = stored b' \<Longrightarrow> sent_auth (local_storage b) = sent_auth (local_storage b')"
  by (simp add: sent_auth_def)

lemma sends_as_refl [simp]: "sent (ap_browser a') = sent (ap_browser a) \<Longrightarrow> sends_as a a'"
  by (simp add: sends_as_def)

lemma sends_as_request: "sends_as a (page_request c a)"
  using api_send_cases [of c "ap_browser a"] api_send_sent [of c "ap_browser a"] by (auto simp: sends_as_def)

lemma sends_as_trans:
  assumes "sends_as a b" "sends_as b d" "stored (ap_browser b) = stored (ap_browser a)"
  shows "sends_as a d"
  using assms sent_auth_stored [OF assms(3)] by (auto simp: sends_as_def)

lemma sends_as_all: "sends_as a (send_all cs a)"
proof (induction cs arbitrary: a)
  case (Cons c cs)
  then show ?case
    using sends_as_trans [OF sends_as_request, of c a] by (simp add: send_all_def)
qed (simp add: send_all_def)

lemma sends_as_render: "sends_as (cs_app c) (cs_app (render c))" "stored (ap_browser (cs_app (render c))) = stored (ap_browser (cs_app c))"
  by (simp_all add: render_def sends_as_all)

lemma console_step_sends:
  assumes "console_step c c'" "cs_page c' \<noteq> None"
  obtains a where "sent (ap_browser a) = sent (ap_browser (cs_app c))" "sends_as a (cs_app c')"
    "stored (ap_browser a) = stored (ap_browser (cs_app c'))"
  using assms(1)
proof (cases rule: console_step.cases)
  case (menu key)
  let ?c = "c\<lparr>cs_app := (cs_app c)\<lparr>ap_active := key\<rparr>\<rparr>"
  show thesis
    by (rule that [of "cs_app ?c"]) (auto simp: menu select_page_def Let_def sends_as_all)
next
  case (answered a)
  then obtain p o' b where "sent (ap_browser a) = sent (ap_browser (cs_app c))"
    by (auto elim!: app_answered.cases simp: app_answer_fields)
  then show thesis
    using that [of a] answered sends_as_render [of "c\<lparr>cs_app := a\<rparr>"] by simp
qed (use assms(2) that [of "cs_app c"] in \<open>auto simp: sends_as_all render_def logout_def split: if_splits\<close>)

subsection \<open>Properties\<close>

text \<open>
  C8. The dashboard with all its pages refines its shell: whatever the pages do, also those that
  were left while they awaited an answer, every step of the whole is a sequence of steps of
  the shell, every state it reaches is one the shell reaches, and a page is on the screen
  exactly when a session is stored.
\<close>

theorem console_refines_the_shell:
  assumes "console_reachable c"
  shows "app_reachable (cs_app c)
    \<and> (cs_page c \<noteq> None \<longleftrightarrow> snd (getSession (local_storage (ap_browser (cs_app c)))) \<noteq> None)
    \<and> (\<forall>c'. console_step c c' \<longrightarrow> app_step\<^sup>*\<^sup>* (cs_app c) (cs_app c'))"
  using console_reachable_refines [OF assms] console_step_refines [of c] app_reachable_inv [of "cs_app c"]
  by (auto simp: page_iff_session_def app_inv_def)

theorem console_refines_the_shell_witness:
  "cs_page (console_mounted session_browser) \<noteq> None"
proof -
  have "console_reachable (console_mounted session_browser)"
    by (rule console_reachable.start) (simp_all add: session_browser_def empty_browser_def)
  moreover have "ap_authenticated (cs_app (console_mounted session_browser))"
    using session_app(1) by (simp add: console_mounted_def render_def)
  ultimately show ?thesis
    using console_refines_the_shell [of "console_mounted session_browser"]
      app_reachable_inv [of "cs_app (console_mounted session_browser)"] by (simp add: app_inv_def)
qed

text \<open>
  C9. Every request sent in a step after which a page is on the screen carries an \<open>Authorization\<close> header: the loads of a page that was just opened,
  what its handlers send, and what handlers of pages left before still send.
\<close>

theorem shown_pages_send_authorized_requests:
  assumes "console_reachable c" and "console_step c c'" and "cs_page c' \<noteq> None"
    and "q \<in> set (drop (length (sent (ap_browser (cs_app c)))) (sent (ap_browser (cs_app c'))))"
  shows "\<exists>v. header_of (js ''Authorization'') (rq_headers q) = Some v"
proof -
  obtain a where a: "sent (ap_browser a) = sent (ap_browser (cs_app c))" "sends_as a (cs_app c')"
    "stored (ap_browser a) = stored (ap_browser (cs_app c'))"
    using console_step_sends [OF assms(2,3)] .
  have "console_reachable c'"
    using assms(1,2) by (rule console_reachable.step)
  then have "stored (ap_browser (cs_app c')) \<noteq> None"
    using console_reachable_refines [of c'] app_reachable_inv [of "cs_app c'"] assms(3)
    by (simp add: page_iff_session_def app_inv_def)
  then have "sent_auth (local_storage (ap_browser a)) \<noteq> None"
    using a(3) by (simp add: sent_auth_def)
  then show ?thesis
    using a(1,2) assms(4) by (auto simp: sends_as_def list_all_iff)
qed

lemma session_console:
  "console_reachable (console_mounted session_browser)" "cs_page (console_mounted session_browser) \<noteq> None"
  "activePage (cs_app (console_mounted session_browser)) = js ''overview''"
  "sendable (local_storage (ap_browser (cs_app (console_mounted session_browser))))"
proof -
  let ?c = "console_mounted session_browser" and ?a = "app_mounted session_browser"
  show "console_reachable ?c"
    by (rule console_reachable.start) (simp_all add: session_browser_def empty_browser_def)
  show "cs_page ?c \<noteq> None"
    using session_app(1) by (simp add: console_mounted_def render_def)
  have app: "cs_app ?c = send_all (page_calls (page_mounted (activePage ?a))) ?a"
    using session_app(1) by (simp add: console_mounted_def render_def)
  have "ap_active ?a = js ''overview''"
    by (simp add: app_mounted_def split: prod.splits)
  then show "activePage (cs_app ?c) = js ''overview''"
    by (simp add: app activePage_def pages_def)
  show "sendable (local_storage (ap_browser (cs_app ?c)))"
    using session_app(4) send_all_fields(3) [of "page_calls (page_mounted (activePage ?a))" ?a]
    by (simp add: app sendable_def)
qed

theorem shown_pages_send_authorized_requests_witness:
  "\<exists>q v. sent (ap_browser (cs_app (select_page (js ''clients'') (console_mounted session_browser))))
       = sent (ap_browser (cs_app (console_mounted session_browser))) @ [q]
     \<and> header_of (js ''Authorization'') (rq_headers q) = Some v"
proof -
  let ?c = "console_mounted session_browser" and ?c' = "select_page (js ''clients'') (console_mounted session_browser)"
  obtain hs where hs: "snd (api_send ListClients (ap_browser (cs_app ?c))) = Inr (build_request (js ''/api/clients'') plain_get hs)"
    using list_clients_sent [OF session_console(4)] .
  have moved: "activePage ((cs_app ?c)\<lparr>ap_active := js ''clients''\<rparr>) = js ''clients''"
    by (simp add: activePage_def pages_def)
  then have c': "cs_app ?c' = page_request ListClients ((cs_app ?c)\<lparr>ap_active := js ''clients''\<rparr>)" "cs_page ?c' \<noteq> None"
    using session_console(3)
    by (simp_all add: select_page_def Let_def page_mounted_def clients_initial_def page_reload_def send_all_def)
  have sent: "sent (ap_browser (cs_app ?c')) = sent (ap_browser (cs_app ?c)) @ [build_request (js ''/api/clients'') plain_get hs]"
    using api_send_sent [OF hs] by (simp add: c'(1))
  show ?thesis
    using shown_pages_send_authorized_requests [OF session_console(1) console_step.menu [OF session_console(2)] c'(2)] sent
    by auto
qed

text \<open>
  The restriction to steps that end with a page on the screen is needed: a handler of a page
  that was left for the login screen goes on with its list when its change succeeded, and that
  request has no credential any more.
\<close>

lemma left_page_sends_without_credentials:
  fixes k :: client
  shows "\<exists>c c' q. console_reachable c \<and> cs_page c = None
    \<and> list_ex (\<lambda>p. DeleteClient (cl_id k) \<in> set (page_calls p)) (cs_left c) \<and> console_step c c'
    \<and> sent (ap_browser (cs_app c')) = sent (ap_browser (cs_app c)) @ [q]
    \<and> rq_path q = js ''/api/clients'' \<and> header_of (js ''Authorization'') (rq_headers q) = None"
proof -
  let ?c0 = "console_mounted session_browser" and ?s1 = "page_reload [ListClients] clients_initial"
  define c1 where "c1 = select_page (js ''clients'') ?c0"
  have r1: "console_reachable c1"
    unfolding c1_def by (rule console_reachable.step [OF session_console(1) console_step.menu [OF session_console(2)]])
  have "activePage ((cs_app ?c0)\<lparr>ap_active := js ''clients''\<rparr>) = js ''clients''"
    by (simp add: activePage_def pages_def)
  then have p1: "cs_page c1 = Some (ClientsState ?s1)"
    using session_console(3) by (simp add: c1_def select_page_def Let_def page_mounted_def)
  define c2 where "c2 = c1\<lparr>cs_page := Some (ClientsState (clients_step ?s1 (RemoveConfirmed k))),
    cs_app := send_all [DeleteClient (cl_id k)] (cs_app c1)\<rparr>"
  have "page_step True (ClientsState ?s1) [DeleteClient (cl_id k)] (ClientsState (clients_step ?s1 (RemoveConfirmed k)))"
    by (rule page_step.clients) (simp_all add: removeClient_def page_call_def)
  then have r2: "console_reachable c2"
    unfolding c2_def using r1 p1 by (blast intro: console_reachable.step console_step.page)
  define c3 where "c3 = render (c2\<lparr>cs_app := logout (cs_app c2)\<rparr>)"
  have r3: "console_reachable c3"
    unfolding c3_def by (rule console_reachable.step [OF r2 console_step.leave]) (simp add: c2_def)
  have c3: "cs_page c3 = None" "cs_left c3 = [] @ ClientsState (clients_step ?s1 (RemoveConfirmed k)) # cs_left c2"
    "stored (ap_browser (cs_app c3)) = None"
    by (simp_all add: c3_def render_def logout_def) (simp add: unmount_def c2_def)
  let ?t = "clients_step (clients_step ?s1 (RemoveConfirmed k)) (DeleteAnswer (Inr ()))"
  have "page_step False (ClientsState (clients_step ?s1 (RemoveConfirmed k))) [ListClients] (ClientsState ?t)"
    by (rule page_step.clients) (simp_all add: clients_answers_def removeClient_answer_def page_defs)
  from console_step.gone [OF c3(2) this] have
    "console_step c3 (c3\<lparr>cs_left := [] @ ClientsState ?t # cs_left c2, cs_app := page_request ListClients (cs_app c3)\<rparr>)"
    by (simp add: send_all_def)
  moreover obtain hs where hs: "snd (api_send ListClients (ap_browser (cs_app c3))) = Inr (build_request (js ''/api/clients'') plain_get hs)"
    using list_clients_sent [of "ap_browser (cs_app c3)"] c3(3) by (auto simp: sendable_def)
  ultimately show ?thesis
    using r3 c3(1,3) api_send_sent [OF hs]
    by (intro exI [of _ c3] exI conjI) (auto simp: build_request_def sent_auth_def c3(2) removeClient_def page_call_def)
qed

end
