(* ===== verification/Desktop_Base.thy ===== *)
theory Desktop_Base
  imports Json
begin

text \<open>
  The data and the pure helpers of the desktop client (\<open>desktop/frontend/src/\<close>): the records
  the bindings declare, \<open>configDraft.ts\<close>, \<open>elapsedTime.ts\<close>, \<open>format.ts\<close> and
  \<open>userFeedback.ts\<close>.

  \<^item> A date is read by the parameter \<open>parse\<close> (\<open>new Date(v).getTime()\<close>, \<open>None\<close> when it is not
    a number) and printed by the parameter \<open>print\<close> (\<open>toLocaleString\<close>).
  \<^item> \<open>Partial<AppConfig>\<close> is a record of options.
  \<^item> The regular expressions of the error rules are alternatives of ASCII literals with the
    flag \<open>i\<close>: they search the text with the letters folded.
\<close>

subsection \<open>Records of the bindings\<close>

record app_config =
  serverUrl :: js_string
  dataAddress :: js_string
  transport :: js_string
  quicAddress :: js_string
  caFile :: js_string
  config_token :: js_string
  config_name :: js_string
  deviceId :: js_string
  insecureSkipVerify :: bool
  autoStart :: bool

record app_config_patch =
  p_serverUrl :: "js_string option"
  p_dataAddress :: "js_string option"
  p_transport :: "js_string option"
  p_quicAddress :: "js_string option"
  p_caFile :: "js_string option"
  p_token :: "js_string option"
  p_name :: "js_string option"
  p_deviceId :: "js_string option"
  p_insecureSkipVerify :: "bool option"
  p_autoStart :: "bool option"

text \<open>A configuration given where a patch is expected: no field of it is \<open>null\<close>.\<close>

definition patch_of :: "app_config \<Rightarrow> app_config_patch" where
  "patch_of c =
     \<lparr>p_serverUrl = Some (serverUrl c), p_dataAddress = Some (dataAddress c), p_transport = Some (transport c),
      p_quicAddress = Some (quicAddress c), p_caFile = Some (caFile c), p_token = Some (config_token c),
      p_name = Some (config_name c), p_deviceId = Some (deviceId c),
      p_insecureSkipVerify = Some (insecureSkipVerify c), p_autoStart = Some (autoStart c)\<rparr>"

record runtime_status =
  connected :: bool
  run_state :: js_string
  run_message :: js_string
  version :: js_string
  uploadBytes :: int
  downloadBytes :: int
  lastStartedAt :: "js_string option"
  lastStoppedAt :: "js_string option"

record update_result =
  checked :: bool
  available :: bool
  latestVersion :: js_string
  downloadURL :: js_string
  downloadState :: js_string
  ready :: bool
  update_message :: js_string

record desktop_log =
  log_time :: js_string
  log_level :: js_string
  log_message :: js_string
  log_fields :: "(js_string \<times> json) list option"

record agent_tunnel =
  at_id :: js_string
  at_client_id :: js_string
  at_name :: js_string
  at_protocol :: js_string
  at_visitor_token :: "js_string option"
  at_local_host :: js_string
  at_local_port :: int
  at_remote_port :: int
  at_domain :: js_string
  at_status :: js_string
  at_ip_allowlist :: "js_string list option"
  at_created_at :: js_string
  at_updated_at :: js_string

record desktop_snapshot =
  snap_config :: app_config
  snap_status :: runtime_status
  snap_tunnels :: "agent_tunnel list option"
  snap_paths :: "(js_string \<times> js_string) list option"
  snap_logs :: "desktop_log list option"
  snap_update :: "update_result option"

subsection \<open>Configuration drafts (configDraft.ts)\<close>

record config_draft =
  d_serverUrl :: "js_string option"
  d_dataAddress :: "js_string option"
  d_transport :: "js_string option"
  d_quicAddress :: "js_string option"
  d_caFile :: "js_string option"
  d_token :: "js_string option"
  d_name :: "js_string option"
  d_deviceId :: "js_string option"
  d_insecureSkipVerify :: "bool option"
  d_autoStart :: "bool option"

definition emptyConfig :: app_config where
  "emptyConfig =
     \<lparr>serverUrl = [], dataAddress = [], transport = js ''websocket'', quicAddress = [], caFile = [],
      config_token = [], config_name = [], deviceId = [], insecureSkipVerify = False, autoStart = False\<rparr>"

definition draft_of :: "app_config \<Rightarrow> config_draft" where
  "draft_of c =
     \<lparr>d_serverUrl = Some (serverUrl c), d_dataAddress = Some (dataAddress c), d_transport = Some (transport c),
      d_quicAddress = Some (quicAddress c), d_caFile = Some (caFile c), d_token = Some (config_token c),
      d_name = Some (config_name c), d_deviceId = Some (deviceId c),
      d_insecureSkipVerify = Some (insecureSkipVerify c), d_autoStart = Some (autoStart c)\<rparr>"

definition spread :: "'v option \<Rightarrow> 'v \<Rightarrow> 'v" where
  "spread v d = (case v of None \<Rightarrow> d | Some x \<Rightarrow> x)"

definition completeConfigForSave :: "app_config option \<Rightarrow> config_draft \<Rightarrow> app_config" where
  "completeConfigForSave current draft =
     (let base = spread current emptyConfig in
      \<lparr>serverUrl = spread (d_serverUrl draft) (serverUrl base),
       dataAddress = spread (d_dataAddress draft) (dataAddress base),
       transport = spread (d_transport draft) (transport base),
       quicAddress = spread (d_quicAddress draft) (quicAddress base),
       caFile = spread (d_caFile draft) (caFile base),
       config_token = spread (d_token draft) (config_token base),
       config_name = spread (d_name draft) (config_name base),
       deviceId = spread (d_deviceId draft) (deviceId base),
       insecureSkipVerify = spread (d_insecureSkipVerify draft) (insecureSkipVerify base),
       autoStart = spread (d_autoStart draft) (autoStart base)\<rparr>)"

subsection \<open>Elapsed time (elapsedTime.ts)\<close>

type_synonym read_date = "js_string \<Rightarrow> int option"

definition no_time :: js_string where
  "no_time = js ''--:--:--''"

definition two_digits :: "nat \<Rightarrow> js_string" where
  "two_digits n = padStart 2 0x30 (nat_text n)"

definition formatElapsedTime :: "read_date \<Rightarrow> js_string option \<Rightarrow> bool \<Rightarrow> int \<Rightarrow> js_string" where
  "formatElapsedTime parse start active now =
     (if \<not> truthy_opt start \<or> \<not> active then no_time
      else
        (case parse (the start) of
           None \<Rightarrow> no_time
         | Some startedAt \<Rightarrow>
             (let seconds = nat (max 0 ((now - startedAt) div 1000)) in
              two_digits (seconds div 3600) @ js '':'' @ two_digits (seconds div 60 mod 60) @ js '':'' @
              two_digits (seconds mod 60))))"

text \<open>
  The hook around it keeps the time it read last. Its effect runs after the first render and
  after a render with another start or state: it reads the time, stops the old timer and
  starts a new one only while active.
\<close>

record elapsed_hook =
  eh_start :: "js_string option"
  eh_active :: bool
  eh_now :: int
  eh_timer :: bool

datatype elapsed_event = Rendered "js_string option" bool int | Tick int

definition elapsed_mounted :: "js_string option \<Rightarrow> bool \<Rightarrow> int \<Rightarrow> elapsed_hook" where
  "elapsed_mounted start active now = \<lparr>eh_start = start, eh_active = active, eh_now = now, eh_timer = active\<rparr>"

fun elapsed_step :: "elapsed_hook \<Rightarrow> elapsed_event \<Rightarrow> elapsed_hook" where
  "elapsed_step h (Rendered start active now) =
     (if start = eh_start h \<and> active = eh_active h then h else elapsed_mounted start active now)"
| "elapsed_step h (Tick now) = (if eh_timer h then h\<lparr>eh_now := now\<rparr> else h)"

definition useElapsedTime :: "read_date \<Rightarrow> elapsed_hook \<Rightarrow> js_string" where
  "useElapsedTime parse h = formatElapsedTime parse (eh_start h) (eh_active h) (eh_now h)"

subsection \<open>Texts (format.ts)\<close>

definition redact :: "js_string \<Rightarrow> js_string" where
  "redact v =
     (if \<not> truthy v then [] else if length v \<le> 8 then js ''********''
      else take 4 v @ js ''...'' @ slice_last 4 v)"

definition formatTime :: "read_date \<Rightarrow> (int \<Rightarrow> js_string) \<Rightarrow> js_string option \<Rightarrow> js_string" where
  "formatTime parse print v =
     (if \<not> truthy_opt v then js ''-''
      else case parse (the v) of None \<Rightarrow> the v | Some t \<Rightarrow> print t)"

definition logLine :: "read_date \<Rightarrow> (int \<Rightarrow> js_string) \<Rightarrow> desktop_log \<Rightarrow> js_string" where
  "logLine parse print entry =
     js_trim (js ''['' @ formatTime parse print (Some (log_time entry)) @ js ''] '' @ log_level entry @ js '' '' @
       log_message entry @ js '' '' @ (case log_fields entry of None \<Rightarrow> [] | Some ms \<Rightarrow> stringify (JObj ms)))"

fun scale_units :: "rat \<Rightarrow> js_string list \<Rightarrow> js_string" where
  "scale_units next [] = toFixed next 1 @ js '' TiB''"
| "scale_units next (u # us) =
     (if next < 1024 then toFixed next 1 @ js '' '' @ u else scale_units (next / 1024) us)"

definition formatBytes_desktop :: "int \<Rightarrow> js_string" where
  "formatBytes_desktop v =
     (if v < 1024 then int_text v @ js '' B''
      else scale_units (of_int v / 1024) [js ''KiB'', js ''MiB'', js ''GiB''])"

subsection \<open>Feedback (userFeedback.ts)\<close>

datatype feedback_action = LoadAction | ConnectAction | SaveAction | UpdateAction

datatype settings_section = General | Network | Connection | Logs | About

record config_issue =
  issue_message :: js_string
  issue_section :: settings_section

definition blank :: "js_string option \<Rightarrow> bool" where
  "blank v = (case v of None \<Rightarrow> True | Some s \<Rightarrow> js_trim s = [])"

definition issue_server :: js_string where
  "issue_server = [0x8BF7, 0x5148, 0x5728, 0x201C, 0x7F51, 0x7EDC, 0x8BBE, 0x7F6E, 0x201D, 0x4E2D,
    0x586B, 0x5199, 0x63A7, 0x5236, 0x670D, 0x52A1, 0x5668, 0x5730, 0x5740, 0x3002]"
definition issue_quic :: js_string where
  "issue_quic = [0x5DF2, 0x9009, 0x62E9, 0x20, 0x51, 0x55, 0x49, 0x43, 0x20, 0x4F20, 0x8F93, 0xFF0C,
    0x8BF7, 0x5148, 0x586B, 0x5199, 0x20, 0x51, 0x55, 0x49, 0x43, 0x20, 0x5730, 0x5740,
    0x3002]"
definition issue_data :: js_string where
  "issue_data = [0x8BF7, 0x5148, 0x5728, 0x201C, 0x7F51, 0x7EDC, 0x8BBE, 0x7F6E, 0x201D, 0x4E2D,
    0x586B, 0x5199, 0x6570, 0x636E, 0x901A, 0x9053, 0x5730, 0x5740, 0x3002]"
definition issue_token :: js_string where
  "issue_token = [0x8BF7, 0x5148, 0x5728, 0x201C, 0x8FDE, 0x63A5, 0x8BBE, 0x7F6E, 0x201D, 0x4E2D,
    0x586B, 0x5199, 0x20, 0x41, 0x67, 0x65, 0x6E, 0x74, 0x20, 0x54, 0x6F, 0x6B, 0x65,
    0x6E, 0x3002]"

definition connectionConfigIssue :: "config_draft option \<Rightarrow> config_issue option" where
  "connectionConfigIssue config =
     (case config of
        None \<Rightarrow> Some \<lparr>issue_message = issue_server, issue_section = Network\<rparr>
      | Some c \<Rightarrow>
          (if blank (d_serverUrl c) then Some \<lparr>issue_message = issue_server, issue_section = Network\<rparr>
           else if d_transport c = Some (js ''quic'') \<and> blank (d_quicAddress c)
           then Some \<lparr>issue_message = issue_quic, issue_section = Network\<rparr>
           else if d_transport c \<noteq> Some (js ''quic'') \<and> blank (d_dataAddress c)
           then Some \<lparr>issue_message = issue_data, issue_section = Network\<rparr>
           else if blank (d_token c) then Some \<lparr>issue_message = issue_token, issue_section = Connection\<rparr>
           else None))"

text \<open>A thrown value, with the text JavaScript gives it: the message of an \<open>Error\<close>, a string,
  \<open>String(error.message)\<close> of an object with a message, \<open>String(error ?? "")\<close> of another.\<close>

datatype thrown = ThrownError js_string | ThrownString js_string | ThrownObject js_string | ThrownOther js_string

definition errorText :: "thrown \<Rightarrow> js_string" where
  "errorText e = (case e of ThrownError m \<Rightarrow> m | ThrownString s \<Rightarrow> s | ThrownObject s \<Rightarrow> s | ThrownOther s \<Rightarrow> s)"

definition containsChinese :: "js_string \<Rightarrow> bool" where
  "containsChinese v = list_ex (\<lambda>c. 0x3400 \<le> c \<and> c \<le> 0x9FFF) v"

definition fold_text :: "js_string \<Rightarrow> js_string" where
  "fold_text s = map fold_unit s"

text \<open>\<open>/a|b|c/i.test(raw)\<close> for literals in lower case.\<close>

definition matches_any :: "string list \<Rightarrow> js_string \<Rightarrow> bool" where
  "matches_any ps raw = list_ex (\<lambda>p. js_includes (fold_text raw) (js p)) ps"

text \<open>\<open>raw.replace(/^error:\s*/i, "")\<close>\<close>

definition strip_error :: "js_string \<Rightarrow> js_string" where
  "strip_error raw =
     (if startsWith (fold_text raw) (js ''error:'') then dropWhile js_space (drop 6 raw) else raw)"

definition errorRules :: "(string list \<times> js_string) list" where
  "errorRules =
    [([''server_url is required''], [0x5C1A, 0x672A, 0x914D, 0x7F6E, 0x63A7, 0x5236, 0x670D, 0x52A1, 0x5668, 0xFF0C,
    0x8BF7, 0x524D, 0x5F80, 0x201C, 0x8BBE, 0x7F6E, 0x20, 0x3E, 0x20, 0x7F51, 0x7EDC,
    0x8BBE, 0x7F6E, 0x201D, 0x586B, 0x5199, 0x540E, 0x91CD, 0x8BD5, 0x3002]),
     ([''remote agent connections require wss''],
       [0x5F53, 0x524D, 0x6838, 0x5FC3, 0x4ECD, 0x62D2, 0x7EDD, 0x8BE5, 0x63A7, 0x5236,
    0x5730, 0x5740, 0x3002, 0x4E, 0x72, 0x79, 0x6E, 0x65, 0x74, 0x20, 0x684C, 0x9762,
    0x7AEF, 0x652F, 0x6301, 0x20, 0x77, 0x73, 0x3A, 0x2F, 0x2F, 0x20, 0x548C, 0x20,
    0x77, 0x73, 0x73, 0x3A, 0x2F, 0x2F, 0xFF0C, 0x8BF7, 0x786E, 0x8BA4, 0x670D, 0x52A1,
    0x7AEF, 0x4E0E, 0x6838, 0x5FC3, 0x914D, 0x7F6E, 0x5DF2, 0x66F4, 0x65B0, 0x540E,
    0x91CD, 0x8BD5, 0x3002]),
     ([''data_address is required''], [0x5C1A, 0x672A, 0x914D, 0x7F6E, 0x6570, 0x636E, 0x901A, 0x9053, 0xFF0C, 0x8BF7,
    0x524D, 0x5F80, 0x201C, 0x8BBE, 0x7F6E, 0x20, 0x3E, 0x20, 0x7F51, 0x7EDC, 0x8BBE,
    0x7F6E, 0x201D, 0x586B, 0x5199, 0x540E, 0x91CD, 0x8BD5, 0x3002]),
     ([''quic_address is required''], [0x5DF2, 0x9009, 0x62E9, 0x20, 0x51, 0x55, 0x49, 0x43, 0x20, 0x4F20, 0x8F93, 0xFF0C,
    0x4F46, 0x5C1A, 0x672A, 0x586B, 0x5199, 0x20, 0x51, 0x55, 0x49, 0x43, 0x20, 0x5730,
    0x5740, 0x3002]),
     ([''token is required''], [0x5C1A, 0x672A, 0x914D, 0x7F6E, 0x20, 0x41, 0x67, 0x65, 0x6E, 0x74, 0x20, 0x54,
    0x6F, 0x6B, 0x65, 0x6E, 0xFF0C, 0x8BF7, 0x524D, 0x5F80, 0x201C, 0x8BBE, 0x7F6E,
    0x20, 0x3E, 0x20, 0x8FDE, 0x63A5, 0x8BBE, 0x7F6E, 0x201D, 0x586B, 0x5199, 0x540E,
    0x91CD, 0x8BD5, 0x3002]),
     ([''invalid or disabled'', ''invalid agent token'', ''bad handshake''],
       [0x670D, 0x52A1, 0x5668, 0x62D2, 0x7EDD, 0x8FDE, 0x63A5, 0xFF0C, 0x8BF7, 0x68C0,
    0x67E5, 0x20, 0x41, 0x67, 0x65, 0x6E, 0x74, 0x20, 0x54, 0x6F, 0x6B, 0x65, 0x6E,
    0x20, 0x662F, 0x5426, 0x6B63, 0x786E, 0x4E14, 0x4ECD, 0x7136, 0x6709, 0x6548, 0x3002]),
     ([''certificate pin does not match''],
       [0x670D, 0x52A1, 0x5668, 0x8BC1, 0x4E66, 0x5DF2, 0x53D1, 0x751F, 0x53D8, 0x5316,
    0xFF0C, 0x8BF7, 0x786E, 0x8BA4, 0x670D, 0x52A1, 0x7AEF, 0x5B89, 0x5168, 0x540E,
    0x5728, 0x20, 0x44, 0x61, 0x73, 0x68, 0x62, 0x6F, 0x61, 0x72, 0x64, 0x20, 0x91CD,
    0x65B0, 0x751F, 0x6210, 0x20, 0x41, 0x67, 0x65, 0x6E, 0x74, 0x20, 0x54, 0x6F, 0x6B,
    0x65, 0x6E, 0x3002]),
     ([''unknown authority'', ''certificate''],
       [0x670D, 0x52A1, 0x5668, 0x8BC1, 0x4E66, 0x6821, 0x9A8C, 0x5931, 0x8D25, 0xFF0C,
    0x8BF7, 0x5728, 0x65B0, 0x7248, 0x20, 0x4E, 0x72, 0x79, 0x6E, 0x65, 0x74, 0x20,
    0x44, 0x61, 0x73, 0x68, 0x62, 0x6F, 0x61, 0x72, 0x64, 0x20, 0x91CD, 0x65B0, 0x751F,
    0x6210, 0x20, 0x41, 0x67, 0x65, 0x6E, 0x74, 0x20, 0x54, 0x6F, 0x6B, 0x65, 0x6E,
    0x3002]),
     ([''no such host''], [0x627E, 0x4E0D, 0x5230, 0x670D, 0x52A1, 0x5668, 0x57DF, 0x540D, 0xFF0C, 0x8BF7,
    0x68C0, 0x67E5, 0x5730, 0x5740, 0x62FC, 0x5199, 0x548C, 0x20, 0x44, 0x4E, 0x53,
    0x20, 0x7F51, 0x7EDC, 0x8BBE, 0x7F6E, 0x3002]),
     ([''connection refused'', ''actively refused''], [0x670D, 0x52A1, 0x5668, 0x62D2, 0x7EDD, 0x8FDE, 0x63A5, 0xFF0C, 0x8BF7, 0x786E,
    0x8BA4, 0x670D, 0x52A1, 0x7AEF, 0x5DF2, 0x542F, 0x52A8, 0x4E14, 0x7AEF, 0x53E3,
    0x53EF, 0x8BBF, 0x95EE, 0x3002]),
     ([''quic control unavailable'', ''read quic control frame'', ''write quic control frame''],
       [0x51, 0x55, 0x49, 0x43, 0x20, 0x63A7, 0x5236, 0x8FDE, 0x63A5, 0x5DF2, 0x65AD,
    0x5F00, 0xFF0C, 0x5BA2, 0x6237, 0x7AEF, 0x6B63, 0x5728, 0x81EA, 0x52A8, 0x6539,
    0x7528, 0x20, 0x57, 0x65, 0x62, 0x53, 0x6F, 0x63, 0x6B, 0x65, 0x74, 0x20, 0x91CD,
    0x8FDE, 0x3002]),
     ([''read control message'', ''send heartbeat''], [0x63A7, 0x5236, 0x8FDE, 0x63A5, 0x5DF2, 0x65AD, 0x5F00, 0xFF0C, 0x5BA2, 0x6237,
    0x7AEF, 0x6B63, 0x5728, 0x81EA, 0x52A8, 0x91CD, 0x8FDE, 0x3002]),
     ([''timeout'', ''deadline exceeded''], [0x8FDE, 0x63A5, 0x670D, 0x52A1, 0x5668, 0x8D85, 0x65F6, 0xFF0C, 0x8BF7, 0x68C0,
    0x67E5, 0x7F51, 0x7EDC, 0x3001, 0x9632, 0x706B, 0x5899, 0x548C, 0x670D, 0x52A1,
    0x5668, 0x7AEF, 0x53E3, 0x3002]),
     ([''update check is already running''], [0x6B63, 0x5728, 0x68C0, 0x67E5, 0x66F4, 0x65B0, 0xFF0C, 0x8BF7, 0x7A0D, 0x5019,
    0x3002]),
     ([''update settings changed''], [0x66F4, 0x65B0, 0x8BBE, 0x7F6E, 0x5DF2, 0x53D8, 0x66F4, 0xFF0C, 0x8BF7, 0x91CD,
    0x542F, 0x20, 0x4E, 0x72, 0x79, 0x6E, 0x65, 0x74, 0x20, 0x540E, 0x518D, 0x68C0,
    0x67E5, 0x66F4, 0x65B0, 0x3002])]"

definition fallbackMessages :: "feedback_action \<Rightarrow> js_string" where
  "fallbackMessages a =
     (case a of
        LoadAction \<Rightarrow> [0x5BA2, 0x6237, 0x7AEF, 0x4FE1, 0x606F, 0x52A0, 0x8F7D, 0x5931, 0x8D25, 0xFF0C,
    0x8BF7, 0x91CD, 0x542F, 0x20, 0x4E, 0x72, 0x79, 0x6E, 0x65, 0x74, 0xFF1B, 0x82E5,
    0x95EE, 0x9898, 0x4ECD, 0x7136, 0x5B58, 0x5728, 0xFF0C, 0x8BF7, 0x67E5, 0x770B,
    0x8FD0, 0x884C, 0x65E5, 0x5FD7, 0x3002]
      | ConnectAction \<Rightarrow> [0x8FDE, 0x63A5, 0x5931, 0x8D25, 0xFF0C, 0x8BF7, 0x68C0, 0x67E5, 0x670D, 0x52A1,
    0x5668, 0x5730, 0x5740, 0x3001, 0x7F51, 0x7EDC, 0x548C, 0x670D, 0x52A1, 0x7AEF,
    0x72B6, 0x6001, 0x540E, 0x91CD, 0x8BD5, 0x3002]
      | SaveAction \<Rightarrow> [0x8BBE, 0x7F6E, 0x4FDD, 0x5B58, 0x5931, 0x8D25, 0xFF0C, 0x8BF7, 0x68C0, 0x67E5,
    0x586B, 0x5199, 0x5185, 0x5BB9, 0x548C, 0x7CFB, 0x7EDF, 0x6743, 0x9650, 0x540E,
    0x91CD, 0x8BD5, 0x3002]
      | UpdateAction \<Rightarrow> [0x68C0, 0x67E5, 0x66F4, 0x65B0, 0x5931, 0x8D25, 0xFF0C, 0x8BF7, 0x68C0, 0x67E5,
    0x7F51, 0x7EDC, 0x8FDE, 0x63A5, 0x548C, 0x20, 0x47, 0x69, 0x74, 0x48, 0x75, 0x62,
    0x20, 0x52, 0x65, 0x6C, 0x65, 0x61, 0x73, 0x65, 0x20, 0x72B6, 0x6001, 0x540E,
    0x91CD, 0x8BD5, 0x3002])"

definition userErrorMessage :: "thrown \<Rightarrow> feedback_action \<Rightarrow> js_string" where
  "userErrorMessage e action =
     (let raw = errorText e in
      if containsChinese raw then strip_error raw
      else
        (case List.find (\<lambda>rule. matches_any (fst rule) raw) errorRules of
           Some rule \<Rightarrow> snd rule
         | None \<Rightarrow> fallbackMessages action))"

definition txt_connecting :: js_string where
  "txt_connecting = [0x6B63, 0x5728, 0x8FDE, 0x63A5, 0x670D, 0x52A1, 0x5668, 0xFF0C, 0x8BF7, 0x7A0D,
    0x5019, 0x2E, 0x2E, 0x2E]"

definition txt_user_disconnected :: js_string where
  "txt_user_disconnected = [0x5DF2, 0x7531, 0x7528, 0x6237, 0x65AD, 0x5F00]"

definition connectionStatusMessage :: "runtime_status option \<Rightarrow> js_string option" where
  "connectionStatusMessage status =
     (case status of
        None \<Rightarrow> None
      | Some s \<Rightarrow>
          (if connected s then None
           else if run_state s = js ''connecting'' then Some txt_connecting
           else if run_message s = [] \<or> js_includes (run_message s) txt_user_disconnected then None
           else Some (userErrorMessage (ThrownString (run_message s)) ConnectAction)))"

subsection \<open>Lemmas\<close>

lemma errorRules_chinese: "rule \<in> set errorRules \<Longrightarrow> containsChinese (snd rule)"
  by (auto simp: errorRules_def containsChinese_def)

lemma fallback_chinese: "containsChinese (fallbackMessages a)"
  by (cases a) (simp_all add: fallbackMessages_def containsChinese_def)

lemma containsChinese_append [simp]:
  "containsChinese (s @ t) \<longleftrightarrow> containsChinese s \<or> containsChinese t"
  by (auto simp: containsChinese_def)

lemma chinese_not_dropped:
  assumes "containsChinese s" "\<forall>c \<in> set p. \<not> (0x3400 \<le> c \<and> c \<le> 0x9FFF)" "s = p @ t"
  shows "containsChinese t"
  using assms by (auto simp: containsChinese_def list_ex_iff)

lemma space_not_chinese: "js_space c \<Longrightarrow> \<not> (0x3400 \<le> c \<and> c \<le> 0x9FFF)"
  by (auto simp: js_space_def word_le_nat_alt)

lemma fold_not_chinese: "fold_unit c = of_char x \<Longrightarrow> \<not> (0x3400 \<le> c \<and> c \<le> 0x9FFF)"
proof
  assume "fold_unit c = of_char x" "0x3400 \<le> c \<and> c \<le> 0x9FFF"
  then have "(0x3400 :: 16 word) \<le> of_char x"
    by (auto simp: fold_unit_def word_le_nat_alt split: if_splits)
  moreover have "(of_char x :: nat) < 256"
    by (rule nat_of_char_less_256)
  ultimately show False
    by (simp add: word_le_nat_alt unat_of_char16)
qed

lemma strip_error_chinese:
  assumes "containsChinese raw"
  shows "containsChinese (strip_error raw)"
proof (cases "startsWith (fold_text raw) (js ''error:'')")
  case True
  then obtain t where t: "fold_text raw = js ''error:'' @ t"
    by (auto simp: startsWith_iff)
  have "\<not> (0x3400 \<le> c \<and> c \<le> 0x9FFF)" if "c \<in> set (take 6 raw)" for c
  proof -
    have "map fold_unit (take 6 raw) = js ''error:''"
      using t by (simp add: fold_text_def js_def flip: take_map)
    moreover from that have "fold_unit c \<in> set (map fold_unit (take 6 raw))"
      by simp
    ultimately obtain x where "fold_unit c = of_char x"
      unfolding js_def by (metis (no_types, lifting) imageE list.set_map)
    then show ?thesis
      by (rule fold_not_chinese)
  qed
  then have "containsChinese (drop 6 raw)"
    using chinese_not_dropped [OF assms, of "take 6 raw" "drop 6 raw"] by simp
  moreover have "\<forall>c \<in> set (takeWhile js_space (drop 6 raw)). \<not> (0x3400 \<le> c \<and> c \<le> 0x9FFF)"
    using space_not_chinese by (metis set_takeWhileD)
  ultimately have "containsChinese (dropWhile js_space (drop 6 raw))"
    using chinese_not_dropped takeWhile_dropWhile_id by metis
  then show ?thesis
    using True by (simp add: strip_error_def)
next
  case False
  then show ?thesis
    using assms by (simp add: strip_error_def)
qed

lemma userErrorMessage_chinese: "containsChinese (userErrorMessage e a)"
proof (cases "containsChinese (errorText e)")
  case True
  then show ?thesis
    by (simp add: userErrorMessage_def strip_error_chinese)
next
  case False
  then show ?thesis
    using errorRules_chinese fallback_chinese
    by (auto simp: userErrorMessage_def find_Some_iff split: option.splits) (metis nth_mem snd_conv)
qed

lemma dropWhile_skips: "t \<noteq> [] \<Longrightarrow> \<not> P (hd t) \<Longrightarrow> \<exists>q'. dropWhile P (q @ t @ r) = q' @ t @ r"
  by (induction q) (auto simp: neq_Nil_conv)

text \<open>The log view announces that tokens in the log are redacted, but a line shows the text of
  its entry as it is: whatever does not end in white space occurs in it unchanged.\<close>

lemma log_lines_are_not_redacted:
  assumes "js_includes (log_message entry) t" "t \<noteq> []" "\<not> js_space (last t)"
  shows "js_includes (logLine parse print entry) t"
proof -
  from assms(1) obtain a b where m: "log_message entry = a @ t @ b"
    by (auto simp: js_includes_iff)
  define p where "p = js ''['' @ formatTime parse print (Some (log_time entry)) @ js ''] '' @ log_level entry @ js '' '' @ a"
  define q where "q = b @ js '' '' @ (case log_fields entry of None \<Rightarrow> [] | Some ms \<Rightarrow> stringify (JObj ms))"
  have line: "logLine parse print entry = js_trim (p @ t @ q)"
    by (simp add: logLine_def m p_def q_def)
  have "dropWhile js_space (p @ t @ q) = p @ t @ q"
    by (simp add: p_def js_def js_space_def)
  moreover obtain q' where "dropWhile js_space (rev q @ rev t @ rev p) = q' @ rev t @ rev p"
    using dropWhile_skips [of "rev t" js_space "rev q" "rev p"] assms(2,3) by (auto simp: hd_rev)
  ultimately have "js_trim (p @ t @ q) = p @ t @ rev q'"
    by (simp add: js_trim_def)
  then show ?thesis
    using line js_includes_iff by metis
qed

lemma two_digits_small: "k < 60 \<Longrightarrow> length (two_digits k) = 2 \<and> digits_val 0 (two_digits k) = k"
proof (cases "k < 10")
  case True
  then show ?thesis
    by (simp add: two_digits_def padStart_def nat_text.simps [of k] digit_val_def [of "0x30"])
next
  case False
  assume "k < 60"
  with False have "k div 10 < 10"
    by simp
  with False show ?thesis
    by (simp add: two_digits_def padStart_def nat_text.simps [of k] nat_text.simps [of "k div 10"])
qed

subsection \<open>Properties\<close>

text \<open>
  C27. Whatever was thrown or reported, the text the desktop client shows is Chinese: an unknown
  English error never reaches the user. While connected nothing is reported, and an English
  text is replaced by the message of the first rule that matches it, in any letter case.
\<close>

theorem desktop_errors_are_shown_in_chinese:
  "containsChinese (userErrorMessage e a)
   \<and> (\<forall>m. connectionStatusMessage st = Some m \<longrightarrow> containsChinese m \<and> (\<exists>s. st = Some s \<and> \<not> connected s))
   \<and> (\<not> containsChinese (errorText e) \<longrightarrow>
        userErrorMessage e a = (case filter (\<lambda>rule. matches_any (fst rule) (errorText e)) errorRules of
          [] \<Rightarrow> fallbackMessages a | rule # _ \<Rightarrow> snd rule))"
proof -
  have "List.find P xs = (case filter P xs of [] \<Rightarrow> None | x # _ \<Rightarrow> Some x)" for P and xs :: "(string list \<times> js_string) list"
    by (induction xs) auto
  then have "userErrorMessage e a = (case filter (\<lambda>rule. matches_any (fst rule) (errorText e)) errorRules of
      [] \<Rightarrow> fallbackMessages a | rule # _ \<Rightarrow> snd rule)" if "\<not> containsChinese (errorText e)"
    using that by (simp add: userErrorMessage_def Let_def split: list.splits)
  moreover have "containsChinese txt_connecting"
    by (simp add: containsChinese_def txt_connecting_def)
  ultimately show ?thesis
    using userErrorMessage_chinese
    by (auto simp: connectionStatusMessage_def split: option.splits if_splits)
qed

theorem desktop_errors_are_shown_in_chinese_witness:
  "userErrorMessage (ThrownError (js ''opaque runtime error'')) SaveAction = fallbackMessages SaveAction"
proof -
  have none: "\<not> containsChinese (errorText (ThrownError (js ''opaque runtime error'')))"
    by code_simp
  have "filter (\<lambda>rule. matches_any (fst rule) (errorText (ThrownError (js ''opaque runtime error'')))) errorRules = []"
    by code_simp
  then show ?thesis
    using none desktop_errors_are_shown_in_chinese [of "ThrownError (js ''opaque runtime error'')" SaveAction None] by simp
qed

text \<open>
  The connection time is written as hours, minutes and seconds that add up to the whole
  seconds since the start, with minutes and seconds below 60 and at least two digits each;
  a start in the future counts as zero.
\<close>

lemma elapsed_text_is_exact:
  assumes "start \<noteq> []" and "parse start = Some t"
  shows "\<exists>h m s. formatElapsedTime parse (Some start) True now = two_digits h @ js '':'' @ two_digits m @ js '':'' @ two_digits s
    \<and> m < 60 \<and> s < 60 \<and> int (3600 * h + 60 * m + s) = max 0 ((now - t) div 1000)
    \<and> digits_val 0 (two_digits m) = m \<and> length (two_digits m) = 2 \<and> length (two_digits s) = 2"
proof -
  define n where "n = nat (max 0 ((now - t) div 1000))"
  have len: "length (two_digits k) = 2 \<and> digits_val 0 (two_digits k) = k" if "k < 60" for k
    using that two_digits_small by blast
  have "formatElapsedTime parse (Some start) True now =
      two_digits (n div 3600) @ js '':'' @ two_digits (n div 60 mod 60) @ js '':'' @ two_digits (n mod 60)"
    using assms by (simp add: formatElapsedTime_def truthy_opt_def n_def Let_def)
  moreover have "3600 * (n div 3600) + 60 * (n div 60 mod 60) + n mod 60 = n"
  proof -
    have "n div 3600 = n div 60 div 60"
      by (simp flip: div_mult2_eq)
    moreover have "60 * (n div 60) + n mod 60 = n" "60 * (n div 60 div 60) + n div 60 mod 60 = n div 60"
      by (rule mult_div_mod_eq)+
    ultimately show ?thesis
      by linarith
  qed
  moreover have "int n = max 0 ((now - t) div 1000)"
    by (simp add: n_def)
  ultimately show ?thesis
    using len [of "n div 60 mod 60"] len [of "n mod 60"]
    by (intro exI [of _ "n div 3600"] exI [of _ "n div 60 mod 60"] exI [of _ "n mod 60"]) simp
qed

lemma elapsed_timer: "eh_timer h = eh_active h \<Longrightarrow> eh_timer (foldl elapsed_step h es) = eh_active (foldl elapsed_step h es)"
proof (induction es arbitrary: h)
  case (Cons e es)
  moreover have "eh_timer (elapsed_step h e) = eh_active (elapsed_step h e)"
    using Cons.prems by (cases e) (auto simp: elapsed_mounted_def)
  ultimately show ?case
    by simp
qed simp

text \<open>
  However the view was rendered and whatever ticks came before, once the timer fires while
  the client is connected the clock shows the whole seconds since the start, as hours, minutes
  and seconds with minutes and seconds below 60; a start in the future counts as zero. While
  the client is not connected it shows no time, and a late tick changes nothing.
\<close>

lemma running_clock_is_exact:
  assumes "h = foldl elapsed_step (elapsed_mounted start0 active0 now0) es"
    and "eh_start h = Some start" and "start \<noteq> []" and "parse start = Some t"
  shows "(eh_active h \<longrightarrow>
      (\<exists>hh m s. useElapsedTime parse (elapsed_step h (Tick now)) = two_digits hh @ js '':'' @ two_digits m @ js '':'' @ two_digits s
        \<and> m < 60 \<and> s < 60 \<and> int (3600 * hh + 60 * m + s) = max 0 ((now - t) div 1000)))
    \<and> (\<not> eh_active h \<longrightarrow> elapsed_step h (Tick now) = h \<and> useElapsedTime parse h = no_time)"
proof -
  have timer: "eh_timer h = eh_active h"
    unfolding assms(1) by (rule elapsed_timer) (simp add: elapsed_mounted_def)
  have "useElapsedTime parse h = no_time" if "\<not> eh_active h"
    using that by (simp add: useElapsedTime_def formatElapsedTime_def)
  moreover have "useElapsedTime parse (elapsed_step h (Tick now)) = formatElapsedTime parse (Some start) True now" if "eh_active h"
    using that timer assms(2) by (simp add: useElapsedTime_def)
  ultimately show ?thesis
    using elapsed_text_is_exact [where parse = parse and now = now, OF assms(3,4)] timer by (simp, blast)
qed

text \<open>
  The configuration that is saved takes every field the form has and keeps every other
  field as it was, falling back to the defaults when nothing was loaded yet.
\<close>

lemma saving_keeps_untouched_settings:
  "completeConfigForSave current (draft_of c) = c
   \<and> config_token (completeConfigForSave (Some c) (d\<lparr>d_token := None\<rparr>)) = config_token c
   \<and> deviceId (completeConfigForSave (Some c) (d\<lparr>d_deviceId := None\<rparr>)) = deviceId c
   \<and> serverUrl (completeConfigForSave current (d\<lparr>d_serverUrl := Some u\<rparr>)) = u
   \<and> completeConfigForSave (Some (completeConfigForSave current d)) d = completeConfigForSave current d"
  by (simp add: completeConfigForSave_def draft_of_def spread_def Let_def split: option.splits)

end
