(* ===== verification/Desktop_Endpoint.thy ===== *)
theory Desktop_Endpoint
  imports Desktop_Base Uri
begin

text \<open>
  The addresses under which the tunnels of the desktop client are reached
  (\<open>desktop/frontend/src/tunnelEndpoint.ts\<close>). The URL parser of the browser is the parameter
  \<open>parse\<close> (\<open>None\<close> when the constructor throws); a parsed URL is the record of its parts, and
  the setters and the serializer that the code uses are written out after the URL standard.
  The setter of the path is given text that needs no escaping: \<open>/visitor/\<close> and two encoded
  components.
\<close>

subsection \<open>URLs\<close>

record url =
  url_scheme :: js_string
  url_username :: js_string
  url_password :: js_string
  url_host :: "js_string option"
  url_port :: "nat option"
  url_path :: js_string
  url_query :: "js_string option"
  url_fragment :: "js_string option"
  url_opaque :: bool

type_synonym url_parser = "js_string \<Rightarrow> url option"

definition special_scheme :: "js_string \<Rightarrow> bool" where
  "special_scheme s = List.member [js ''http'', js ''https'', js ''ws'', js ''wss'', js ''ftp'', js ''file''] s"

definition default_port :: "js_string \<Rightarrow> nat option" where
  "default_port s = map_of [(js ''http'', 80), (js ''ws'', 80), (js ''https'', 443), (js ''wss'', 443), (js ''ftp'', 21)] s"

definition url_hostname :: "url \<Rightarrow> js_string" where
  "url_hostname u = (case url_host u of None \<Rightarrow> [] | Some h \<Rightarrow> h)"

definition port_text :: "nat option \<Rightarrow> js_string" where
  "port_text p = (case p of None \<Rightarrow> [] | Some n \<Rightarrow> js '':'' @ nat_text n)"

definition host_text :: "url \<Rightarrow> js_string" where
  "host_text u = url_hostname u @ port_text (url_port u)"

text \<open>\<open>url.protocol = s\<close> is ignored when one scheme is special and the other is not.\<close>

definition set_protocol :: "js_string \<Rightarrow> url \<Rightarrow> url" where
  "set_protocol s u =
     (if special_scheme s \<noteq> special_scheme (url_scheme u) then u
      else if url_scheme u = js ''file'' \<and> url_hostname u = [] then u
      else u\<lparr>url_scheme := s, url_port := (if url_port u = default_port s then None else url_port u)\<rparr>)"

definition single_dot :: "js_string \<Rightarrow> bool" where
  "single_dot s = (let t = fold_text s in t = js ''.'' \<or> t = js ''%2e'')"

definition double_dot :: "js_string \<Rightarrow> bool" where
  "double_dot s =
     (let t = fold_text s in t = js ''..'' \<or> t = js ''.%2e'' \<or> t = js ''%2e.'' \<or> t = js ''%2e%2e'')"

fun path_segments :: "js_string list \<Rightarrow> js_string list \<Rightarrow> js_string list" where
  "path_segments acc [] = acc"
| "path_segments acc (s # ss) =
     (let acc' = (if double_dot s then butlast acc else if single_dot s then acc else acc @ [s]) in
      if ss = [] \<and> (double_dot s \<or> single_dot s) then acc' @ [[]] else path_segments acc' ss)"

definition set_pathname :: "js_string \<Rightarrow> url \<Rightarrow> url" where
  "set_pathname p u =
     (if url_opaque u then u
      else u\<lparr>url_path := concat (map (\<lambda>s. js ''/'' @ s) (path_segments [] (js_split 0x2F (drop 1 p))))\<rparr>)"

definition credentials_text :: "url \<Rightarrow> js_string" where
  "credentials_text u =
     (if url_username u = [] \<and> url_password u = [] then []
      else url_username u @ (if url_password u = [] then [] else js '':'' @ url_password u) @ js ''@'')"

definition url_toString :: "url \<Rightarrow> js_string" where
  "url_toString u =
     url_scheme u @ js '':'' @
     (case url_host u of
        Some h \<Rightarrow> js ''//'' @ credentials_text u @ host_text u
      | None \<Rightarrow> if \<not> url_opaque u \<and> startsWith (url_path u) (js ''//'') then js ''/.'' else []) @
     url_path u @ (case url_query u of None \<Rightarrow> [] | Some q \<Rightarrow> js ''?'' @ q) @
     (case url_fragment u of None \<Rightarrow> [] | Some f \<Rightarrow> js ''#'' @ f)"

subsection \<open>The module\<close>

record tunnel_endpoint =
  ep_label :: js_string
  ep_copyValue :: "js_string option"

definition endpoint :: "js_string \<Rightarrow> tunnel_endpoint" where
  "endpoint v = \<lparr>ep_label = v, ep_copyValue = Some v\<rparr>"

definition no_endpoint :: "js_string \<Rightarrow> tunnel_endpoint" where
  "no_endpoint v = \<lparr>ep_label = v, ep_copyValue = None\<rparr>"

definition addressHost :: "url_parser \<Rightarrow> js_string \<Rightarrow> js_string" where
  "addressHost parse address =
     (if address = [] then []
      else case parse (js ''tcp://'' @ address) of None \<Rightarrow> [] | Some u \<Rightarrow> url_hostname u)"

definition tunnelPublicHost :: "url_parser \<Rightarrow> app_config option \<Rightarrow> js_string" where
  "tunnelPublicHost parse config =
     (case config of
        None \<Rightarrow> []
      | Some c \<Rightarrow>
          (let dataHost = addressHost parse (dataAddress c) in
           if truthy dataHost then dataHost
           else if \<not> truthy (serverUrl c) then []
           else case parse (serverUrl c) of None \<Rightarrow> [] | Some u \<Rightarrow> url_hostname u))"

definition withPort :: "js_string \<Rightarrow> int \<Rightarrow> js_string" where
  "withPort host port =
     (let normalized = (if js_includes host (js '':'') \<and> \<not> startsWith host (js ''['') then js ''['' @ host @ js '']'' else host) in
      if port \<noteq> 0 then normalized @ js '':'' @ int_text port else normalized)"

definition txt_no_visitor :: js_string where
  "txt_no_visitor = [0x8BBF, 0x5BA2, 0x5730, 0x5740, 0x5C1A, 0x672A, 0x751F, 0x6210]"
definition txt_bad_visitor :: js_string where
  "txt_bad_visitor = [0x8BBF, 0x5BA2, 0x5730, 0x5740, 0x65E0, 0x6548]"
definition txt_no_address :: js_string where
  "txt_no_address = [0x672A, 0x83B7, 0x53D6, 0x5230, 0x8BBF, 0x95EE, 0x5730, 0x5740]"

definition resolveVisitorEndpoint :: "url_parser \<Rightarrow> agent_tunnel \<Rightarrow> js_string \<Rightarrow> tunnel_endpoint" where
  "resolveVisitorEndpoint parse t server =
     (if \<not> truthy_opt (at_visitor_token t) \<or> \<not> truthy server then no_endpoint txt_no_visitor
      else
        (case (parse server, encodeURIComponent (at_id t), encodeURIComponent (the (at_visitor_token t))) of
           (Some u, Some i, Some k) \<Rightarrow>
             (let u1 = set_protocol (if url_scheme u = js ''wss'' then js ''https'' else js ''http'') u;
                  u2 = set_pathname (js ''/visitor/'' @ i @ js ''/'' @ k) u1 in
              endpoint (url_toString (u2\<lparr>url_query := None, url_fragment := None\<rparr>)))
         | _ \<Rightarrow> no_endpoint txt_bad_visitor))"

definition resolveTunnelEndpoint :: "url_parser \<Rightarrow> agent_tunnel \<Rightarrow> js_string \<Rightarrow> js_string \<Rightarrow> tunnel_endpoint" where
  "resolveTunnelEndpoint parse t publicHost server =
     (let protocol = toLowerCase (at_protocol t) in
      if protocol = js ''visitor_webrtc'' then resolveVisitorEndpoint parse t server
      else if truthy (at_domain t)
      then (if protocol = js ''http'' \<or> protocol = js ''https'' then endpoint (protocol @ js ''://'' @ at_domain t)
            else endpoint (withPort (at_domain t) (at_remote_port t)))
      else if at_remote_port t = 0 \<or> \<not> truthy publicHost then no_endpoint txt_no_address
      else endpoint (withPort publicHost (at_remote_port t)))"

subsection \<open>Lemmas\<close>

lemma path_segments_plain:
  "\<forall>s \<in> set ss. \<not> single_dot s \<and> \<not> double_dot s \<Longrightarrow> path_segments acc ss = acc @ ss"
  by (induction acc ss rule: path_segments.induct) (auto simp: Let_def)

lemma slash_unit: "js ''/'' = [0x2F]"
  by (simp add: js_def)

lemma encoded_slash_free: "encodeURIComponent s = Some e \<Longrightarrow> 0x2F \<notin> set e"
  using encodeURIComponent_units segment_unit_no_delim by fastforce

lemma visitor_segments:
  assumes "0x2F \<notin> set i" "0x2F \<notin> set k"
  shows "js_split 0x2F (drop 1 (js ''/visitor/'' @ i @ js ''/'' @ k)) = [js ''visitor'', i, k]"
proof -
  have "drop 1 (js ''/visitor/'' @ i @ js ''/'' @ k) = js ''visitor'' @ 0x2F # i @ 0x2F # k"
    by (simp add: js_def)
  moreover have "0x2F \<notin> set (js ''visitor'')"
    by (simp add: js_def)
  ultimately show ?thesis
    using assms by (simp add: js_split_first js_split_plain del: One_nat_def)
qed

definition plain_segment :: "js_string \<Rightarrow> bool" where
  "plain_segment s \<longleftrightarrow> \<not> single_dot s \<and> \<not> double_dot s"

lemma set_visitor_path:
  assumes "\<not> url_opaque u" "0x2F \<notin> set i" "0x2F \<notin> set k" "plain_segment i" "plain_segment k"
  shows "set_pathname (js ''/visitor/'' @ i @ js ''/'' @ k) u = u\<lparr>url_path := js ''/visitor/'' @ i @ js ''/'' @ k\<rparr>"
proof -
  have "plain_segment (js ''visitor'')"
    by (simp add: plain_segment_def single_dot_def double_dot_def fold_text_def fold_unit_def js_def)
  then have "path_segments [] [js ''visitor'', i, k] = [js ''visitor'', i, k]"
    using assms(4,5) by (intro path_segments_plain [of _ "[]", simplified]) (auto simp: plain_segment_def)
  then show ?thesis
    using assms(1) visitor_segments [OF assms(2,3)]
    by (simp add: set_pathname_def) (simp add: js_def)
qed

lemma set_protocol_control:
  assumes "url_scheme u = js ''ws'' \<or> url_scheme u = js ''wss''" "url_port u \<noteq> default_port (url_scheme u)"
  shows "set_protocol (if url_scheme u = js ''wss'' then js ''https'' else js ''http'') u =
    u\<lparr>url_scheme := (if url_scheme u = js ''wss'' then js ''https'' else js ''http'')\<rparr>"
  using assms by (auto simp: set_protocol_def special_scheme_def default_port_def)

text \<open>The last colon separates the port.\<close>

lemma digit_no_colon: "0x3A \<notin> set (nat_text n)"
  using nat_text_digits [of "0x3A" n] by (auto simp: is_digit_def word_le_nat_alt)

lemma last_colon_unique:
  fixes h :: js_string
  assumes "0x3A \<notin> set p" "0x3A \<notin> set p'" "h @ 0x3A # p = h' @ 0x3A # p'"
  shows "h = h' \<and> p = p'"
proof -
  have first: "takeWhile (\<lambda>c. c \<noteq> 0x3A) (rev (x @ 0x3A # y)) = rev y" if "0x3A \<notin> set y" for x y :: js_string
    using that by (simp, subst takeWhile_append2) auto
  have "rev p = rev p'"
    using first [OF assms(1), of h] first [OF assms(2), of h'] by (simp only: assms(3))
  then have "p = p'"
    by simp
  then show ?thesis
    using assms(3) by simp
qed

text \<open>The text of a visitor address, for a control server \<open>ws://\<close> or \<open>wss://\<close>.\<close>

lemma visitor_endpoint_text:
  assumes "parse server = Some u" and "server \<noteq> []" and "url_scheme u = js ''ws'' \<or> url_scheme u = js ''wss''"
    and "url_port u \<noteq> default_port (url_scheme u)" and "url_host u = Some h" and "\<not> url_opaque u"
    and "toLowerCase (at_protocol t) = js ''visitor_webrtc''" and "at_visitor_token t = Some token" and "token \<noteq> []"
    and "encodeURIComponent (at_id t) = Some i" and "encodeURIComponent token = Some k"
    and "plain_segment i" and "plain_segment k"
  shows "ep_copyValue (resolveTunnelEndpoint parse t public server) =
      Some ((if url_scheme u = js ''wss'' then js ''https://'' else js ''http://'') @ credentials_text u @
        h @ port_text (url_port u) @ js ''/visitor/'' @ i @ js ''/'' @ k)"
proof -
  let ?s = "if url_scheme u = js ''wss'' then js ''https'' else js ''http''"
  let ?p = "js ''/visitor/'' @ i @ js ''/'' @ k"
  have "set_pathname ?p (set_protocol ?s u) = u\<lparr>url_scheme := ?s, url_path := ?p\<rparr>"
    using set_protocol_control [OF assms(3,4)] set_visitor_path [of "u\<lparr>url_scheme := ?s\<rparr>" i k]
      assms(6,10-13) encoded_slash_free by simp
  then have "ep_copyValue (resolveTunnelEndpoint parse t public server) =
      Some (url_toString (u\<lparr>url_scheme := ?s, url_path := ?p, url_query := None, url_fragment := None\<rparr>))"
    using assms(1,2,7-11)
    by (simp add: resolveTunnelEndpoint_def resolveVisitorEndpoint_def truthy_opt_def endpoint_def Let_def)
  moreover have "url_toString (u\<lparr>url_scheme := ?s, url_path := ?p, url_query := None, url_fragment := None\<rparr>) =
      (if url_scheme u = js ''wss'' then js ''https://'' else js ''http://'') @ credentials_text u @ h @ port_text (url_port u) @ ?p"
    using assms(5)
    by (simp add: url_toString_def host_text_def url_hostname_def credentials_text_def) (simp add: js_def)
  ultimately show ?thesis
    by simp
qed

subsection \<open>Properties\<close>

text \<open>
  For a control server \<open>ws://\<close> or \<open>wss://\<close>, the address of a visitor tunnel is
  \<open>/visitor/<id>/<token>\<close> on the same host and port, over \<open>https\<close> exactly when the control
  connection uses \<open>wss\<close>, without the query and fragment of the control address; its last
  two segments decode to the id and the token.
\<close>

lemma visitor_address_is_on_the_control_server:
  assumes "parse server = Some u" and "server \<noteq> []" and "url_scheme u = js ''ws'' \<or> url_scheme u = js ''wss''"
    and "url_port u \<noteq> default_port (url_scheme u)" and "url_host u = Some h" and "\<not> url_opaque u"
    and "toLowerCase (at_protocol t) = js ''visitor_webrtc''" and "at_visitor_token t = Some token" and "token \<noteq> []"
    and "encodeURIComponent (at_id t) = Some i" and "encodeURIComponent token = Some k"
    and "plain_segment i" and "plain_segment k"
  shows "ep_copyValue (resolveTunnelEndpoint parse t public server) =
      Some ((if url_scheme u = js ''wss'' then js ''https://'' else js ''http://'') @ credentials_text u @
        h @ port_text (url_port u) @ js ''/visitor/'' @ i @ js ''/'' @ k)
    \<and> decodeURIComponent i = Some (at_id t) \<and> decodeURIComponent k = Some token"
  using visitor_endpoint_text [where parse = parse and server = server, OF assms] decode_encode assms(10,11) by simp

definition sample_tunnel :: agent_tunnel where
  "sample_tunnel =
     \<lparr>at_id = js ''t1'', at_client_id = [], at_name = [], at_protocol = js ''visitor_webrtc'', at_visitor_token = Some (js ''k''),
      at_local_host = [], at_local_port = 80, at_remote_port = 0, at_domain = [], at_status = js ''running'',
      at_ip_allowlist = None, at_created_at = [], at_updated_at = []\<rparr>"

definition sample_url :: url where
  "sample_url =
     \<lparr>url_scheme = js ''wss'', url_username = [], url_password = [], url_host = Some (js ''server.example''),
      url_port = Some 7000, url_path = js ''/agent/connect'', url_query = None, url_fragment = None, url_opaque = False\<rparr>"

text \<open>
  The address of a port tunnel determines its host and port: an IPv6 host is put in
  brackets, so that its colons cannot be taken for the one before the port.
\<close>

lemma port_address_is_unambiguous:
  assumes "0 < port" and "0 < port'" and "\<not> startsWith host (js ''['')" and "\<not> startsWith host' (js ''['')"
    and "withPort host port = withPort host' port'"
  shows "host = host' \<and> port = port'"
proof -
  let ?n = "\<lambda>h. if js_includes h (js '':'') \<and> \<not> startsWith h (js ''['') then js ''['' @ h @ js '']'' else h"
  have c: "js '':'' = [0x3A]" "js ''['' = [0x5B]" "js '']'' = [0x5D]"
    by (simp_all add: js_def)
  have "withPort h q = ?n h @ 0x3A # nat_text (nat q)" if "0 < q" for h q
    using that by (simp add: withPort_def int_text_def Let_def c)
  then have "?n host @ 0x3A # nat_text (nat port) = ?n host' @ 0x3A # nat_text (nat port')"
    using assms(1,2,5) by simp
  then have "?n host = ?n host'" "nat_text (nat port) = nat_text (nat port')"
    using last_colon_unique [OF digit_no_colon digit_no_colon] by blast+
  then have "host = host'" "nat port = nat port'"
    using assms(3,4) nat_text_inj by (auto simp: c split: if_splits)
  then show ?thesis
    using assms(1,2) by simp
qed

end
