(* ===== verification/Desktop_Traffic.thy ===== *)
theory Desktop_Traffic
  imports Desktop_Base
begin

text \<open>
  The traffic display of the desktop client: the hook \<open>useTrafficHistory.ts\<close>, which turns the
  byte counters of the status into rates, and \<open>TrafficChart.tsx\<close>, which draws them. Times
  are milliseconds; rates are exact rationals. A drawing is the list of the commands given to
  the canvas context.
\<close>

subsection \<open>The history (useTrafficHistory.ts)\<close>

record traffic_point =
  pt_time :: js_string
  pt_upload :: rat
  pt_download :: rat

record traffic_sample =
  sm_time :: int
  sm_upload :: int
  sm_download :: int

record traffic_history =
  th_points :: "traffic_point list"
  th_rate_upload :: rat
  th_rate_download :: rat
  th_samples :: "traffic_sample list"
  th_previous :: "bool option"

definition rateWindowMs :: int where
  "rateWindowMs = 1000"

definition maxHistoryPoints :: nat where
  "maxHistoryPoints = 300"

definition no_history :: traffic_history where
  "no_history = \<lparr>th_points = [], th_rate_upload = 0, th_rate_download = 0, th_samples = [], th_previous = None\<rparr>"

definition next_samples :: "int \<Rightarrow> runtime_status \<Rightarrow> traffic_history \<Rightarrow> traffic_sample list" where
  "next_samples now st h =
     (let sample = \<lparr>sm_time = now, sm_upload = uploadBytes st, sm_download = downloadBytes st\<rparr>;
          stateChanged = (th_previous h \<noteq> None \<and> th_previous h \<noteq> Some (connected st)) in
      if stateChanged \<or> th_samples h = [] then [sample]
      else filter (\<lambda>i. now - sm_time i \<le> rateWindowMs * 10) (th_samples h) @ [sample])"

definition baseline :: "int \<Rightarrow> traffic_sample list \<Rightarrow> traffic_sample" where
  "baseline now samples =
     (case List.find (\<lambda>i. rateWindowMs \<le> now - sm_time i) samples of Some i \<Rightarrow> i | None \<Rightarrow> hd samples)"

definition rate :: "bool \<Rightarrow> int \<Rightarrow> int \<Rightarrow> rat \<Rightarrow> rat" where
  "rate is_connected counter base seconds =
     (if is_connected then max 0 (of_int (counter - base) / seconds / 1024) else 0)"

text \<open>\<open>Number(x.toFixed(1))\<close> of a rate\<close>

definition one_decimal :: "rat \<Rightarrow> rat" where
  "one_decimal x = of_nat (fixed_units x 1) / 10"

definition useTrafficHistory :: "(int \<Rightarrow> js_string) \<Rightarrow> int \<Rightarrow> runtime_status \<Rightarrow> traffic_history \<Rightarrow> traffic_history" where
  "useTrafficHistory print now st h =
     (let samples = next_samples now st h;
          base = baseline now samples;
          seconds = max (1 / 4) (of_int (now - sm_time base) / 1000);
          upload = rate (connected st) (uploadBytes st) (sm_upload base) seconds;
          download = rate (connected st) (downloadBytes st) (sm_download base) seconds in
      \<lparr>th_points = slice_last maxHistoryPoints (th_points h @
         [\<lparr>pt_time = print now, pt_upload = one_decimal upload, pt_download = one_decimal download\<rparr>]),
       th_rate_upload = upload, th_rate_download = download, th_samples = samples,
       th_previous = Some (connected st)\<rparr>)"

definition history_run :: "(int \<Rightarrow> js_string) \<Rightarrow> (int \<times> runtime_status) list \<Rightarrow> traffic_history" where
  "history_run print sts = foldl (\<lambda>h (now, st). useTrafficHistory print now st h) no_history sts"

subsection \<open>The chart (TrafficChart.tsx)\<close>

datatype canvas_cmd =
    Save | Restore | Scale rat rat | ClearRect rat rat rat rat
  | StrokeStyle js_string | LineWidth nat | LineJoin js_string | LineCap js_string
  | BeginPath | MoveTo rat rat | LineTo rat rat | Stroke

record inset =
  in_top :: rat
  in_right :: rat
  in_bottom :: rat
  in_left :: rat

definition chart_inset :: "bool \<Rightarrow> inset" where
  "chart_inset detailed =
     (if detailed then \<lparr>in_top = 12, in_right = 12, in_bottom = 8, in_left = 30\<rparr>
      else \<lparr>in_top = 8, in_right = 2, in_bottom = 4, in_left = 2\<rparr>)"

definition chart_values :: "traffic_point list \<Rightarrow> rat list" where
  "chart_values points =
     concat (map (\<lambda>p. [pt_upload p, pt_download p])
       (if length points > 80 then map (\<lambda>i. points ! i) (filter even [0..<length points]) else points))"

definition chart_maximum :: "traffic_point list \<Rightarrow> rat \<Rightarrow> rat \<Rightarrow> rat" where
  "chart_maximum points lastUpload lastDownload =
     Max (set (1 # chart_values points @ [lastUpload, lastDownload])) * (115 / 100)"

definition chart_x :: "rat \<Rightarrow> rat \<Rightarrow> nat \<Rightarrow> nat \<Rightarrow> rat" where
  "chart_x left width n index =
     left + (if n \<le> 1 then width else of_nat index / (of_nat n - 1) * width)"

definition chart_y :: "rat \<Rightarrow> rat \<Rightarrow> rat \<Rightarrow> rat \<Rightarrow> rat" where
  "chart_y upper height maximum v = upper + height - v / maximum * height"

definition drawGrid :: "rat \<Rightarrow> rat \<Rightarrow> rat \<Rightarrow> rat \<Rightarrow> canvas_cmd list" where
  "drawGrid left upper width height =
     [StrokeStyle (js ''#edf1ef''), LineWidth 1] @
     concat (map (\<lambda>index. let y = upper + height * of_nat index / 4 in
       [BeginPath, MoveTo left y, LineTo (left + width) y, Stroke]) [1, 2, 3])"

definition drawLine :: "traffic_point list \<Rightarrow> (nat \<Rightarrow> rat) \<Rightarrow> (rat \<Rightarrow> rat) \<Rightarrow> js_string \<Rightarrow> (traffic_point \<Rightarrow> rat) \<Rightarrow> rat \<Rightarrow>
    canvas_cmd list" where
  "drawLine points x y color key lastValue =
     (if points = [] then []
      else
        [StrokeStyle color, LineWidth 2, LineJoin (js ''round''), LineCap (js ''round''), BeginPath] @
        map (\<lambda>index.
          let v = (if index = length points - 1 then lastValue else key (points ! index)) in
          if index = 0 then MoveTo (x index) (y v) else LineTo (x index) (y v)) [0..<length points] @
        [Stroke])"

definition drawChart :: "traffic_point list \<Rightarrow> rat \<Rightarrow> rat \<Rightarrow> rat \<Rightarrow> bool \<Rightarrow> rat \<Rightarrow> rat \<Rightarrow> canvas_cmd list" where
  "drawChart points width height ratio detailed lastUpload lastDownload =
     (let ins = chart_inset detailed;
          chartWidth = max 1 (width - in_left ins - in_right ins);
          chartHeight = max 1 (height - in_top ins - in_bottom ins);
          maximum = chart_maximum points lastUpload lastDownload;
          x = chart_x (in_left ins) chartWidth (length points);
          y = chart_y (in_top ins) chartHeight maximum in
      [Save, Scale ratio ratio, ClearRect 0 0 width height] @
      (if detailed then drawGrid (in_left ins) (in_top ins) chartWidth chartHeight else []) @
      drawLine points x y (js ''#12ad67'') pt_upload lastUpload @
      (if detailed then drawLine points x y (js ''#2f7df6'') pt_download lastDownload else []) @
      [Restore])"

definition last_point :: "traffic_point list \<Rightarrow> rat \<times> rat" where
  "last_point points = (if points = [] then (0, 0) else (pt_upload (last points), pt_download (last points)))"

subsection \<open>Lemmas on the history\<close>

lemma rate_nonneg: "0 \<le> rate c t b s"
  by (simp add: rate_def)

lemma one_decimal_nonneg: "0 \<le> one_decimal x"
  by (simp add: one_decimal_def)

lemma in_slice_last: "x \<in> set (slice_last k xs) \<Longrightarrow> x \<in> set xs"
  by (auto simp: slice_last_def dest: in_set_dropD)

definition history_ok :: "traffic_history \<Rightarrow> bool" where
  "history_ok h \<longleftrightarrow>
     length (th_points h) \<le> maxHistoryPoints \<and>
     (\<forall>p \<in> set (th_points h). 0 \<le> pt_upload p \<and> 0 \<le> pt_download p) \<and>
     0 \<le> th_rate_upload h \<and> 0 \<le> th_rate_download h \<and>
     (th_previous h \<noteq> Some True \<longrightarrow> th_rate_upload h = 0 \<and> th_rate_download h = 0)"

lemma history_ok_step:
  assumes "history_ok h"
  shows "history_ok (useTrafficHistory print now st h)"
proof -
  have "0 \<le> pt_upload p \<and> 0 \<le> pt_download p" if "p \<in> set (th_points (useTrafficHistory print now st h))" for p
    using that assms
    by (auto simp: useTrafficHistory_def history_ok_def Let_def one_decimal_nonneg dest!: in_slice_last)
  then show ?thesis
    by (auto simp: history_ok_def useTrafficHistory_def Let_def rate_nonneg rate_def)
qed

lemma history_ok_run: "history_ok h \<Longrightarrow> history_ok (foldl (\<lambda>h (now, st). useTrafficHistory print now st h) h sts)"
  by (induction sts arbitrary: h) (auto simp: history_ok_step)

lemma baseline_mem: "samples \<noteq> [] \<Longrightarrow> baseline now samples \<in> set samples"
  by (auto simp: baseline_def find_Some_iff split: option.splits)

lemma next_samples_recent:
  "i \<in> set (next_samples now st h) \<Longrightarrow> now - sm_time i \<le> 10000"
  by (auto simp: next_samples_def rateWindowMs_def Let_def split: if_splits)

lemma next_samples_ne: "next_samples now st h \<noteq> []"
  by (simp add: next_samples_def Let_def)

lemma one_decimal_zero: "one_decimal 0 = 0"
  by (simp add: one_decimal_def fixed_units_def)

lemma last_slice_last: "0 < k \<Longrightarrow> xs \<noteq> [] \<Longrightarrow> last (slice_last k xs) = last xs"
  by (simp add: slice_last_def)

lemma rate_zero: "rate c t t s = 0"
  by (simp add: rate_def)

lemma state_change_is_zero:
  assumes "th_previous h = Some (\<not> connected st)"
  shows "th_rate_upload (useTrafficHistory print now st h) = 0 \<and> th_rate_download (useTrafficHistory print now st h) = 0"
  using assms by (simp add: useTrafficHistory_def next_samples_def baseline_def rateWindowMs_def rate_zero Let_def)

subsection \<open>Lemmas on the chart\<close>

fun cmd_points :: "canvas_cmd list \<Rightarrow> (rat \<times> rat) list" where
  "cmd_points [] = []"
| "cmd_points (MoveTo x y # cs) = (x, y) # cmd_points cs"
| "cmd_points (LineTo x y # cs) = (x, y) # cmd_points cs"
| "cmd_points (_ # cs) = cmd_points cs"

lemma cmd_points_append [simp]: "cmd_points (xs @ ys) = cmd_points xs @ cmd_points ys"
  by (induction xs rule: cmd_points.induct) auto

lemma cmd_points_iff: "q \<in> set (cmd_points cs) \<longleftrightarrow> MoveTo (fst q) (snd q) \<in> set cs \<or> LineTo (fst q) (snd q) \<in> set cs"
  by (induction cs rule: cmd_points.induct) auto

definition in_box :: "rat \<Rightarrow> rat \<Rightarrow> rat \<Rightarrow> rat \<Rightarrow> rat \<times> rat \<Rightarrow> bool" where
  "in_box left upper width height q \<longleftrightarrow>
     left \<le> fst q \<and> fst q \<le> left + width \<and> upper \<le> snd q \<and> snd q \<le> upper + height"

lemma chart_x_in:
  assumes "0 < w" "index < n"
  shows "left \<le> chart_x left w n index \<and> chart_x left w n index \<le> left + w"
proof (cases "n \<le> 1")
  case True
  then show ?thesis
    using assms by (simp add: chart_x_def)
next
  case False
  then have "of_nat index / (of_nat n - 1) \<le> (1 :: rat)" "0 \<le> of_nat index / (of_nat n - 1 :: rat)"
    using assms(2) by (simp_all add: divide_le_eq)
  moreover from this(1) have "of_nat index / (of_nat n - 1) * w \<le> 1 * w"
    by (rule mult_right_mono) (use assms in simp)
  ultimately show ?thesis
    using assms False by (simp add: chart_x_def)
qed

lemma chart_y_in:
  assumes "0 < h" "0 \<le> v" "v \<le> m" "0 < m"
  shows "upper \<le> chart_y upper h m v \<and> chart_y upper h m v \<le> upper + h"
proof -
  have "v / m \<le> 1" "0 \<le> v / m"
    using assms by (simp_all add: divide_le_eq)
  moreover from this(1) have "v / m * h \<le> 1 * h"
    by (rule mult_right_mono) (use assms in simp)
  moreover have "0 \<le> v / m * h"
    using assms by simp
  ultimately show ?thesis
    by (simp add: chart_y_def)
qed

lemma cmd_points_path:
  "cmd_points (map (\<lambda>i. if i = 0 then MoveTo (f i) (g i) else LineTo (f i) (g i)) is) = map (\<lambda>i. (f i, g i)) is"
  by (induction "is") auto

lemma cmd_points_drawLine:
  "cmd_points (drawLine points x y color key lastValue) =
     map (\<lambda>i. (x i, y (if i = length points - 1 then lastValue else key (points ! i)))) [0..<length points]"
  unfolding drawLine_def Let_def
  by (cases "points = []") (simp_all only: if_True if_False cmd_points_append cmd_points_path cmd_points.simps
      append_Nil append_Nil2 list.size upt_0 list.map simp_thms)

lemma drawLine_points:
  assumes "q \<in> set (cmd_points (drawLine points x y color key lastValue))"
  obtains index v where "index < length points" "q = (x index, y v)" "v = lastValue \<or> v = key (points ! index)"
  using assms unfolding cmd_points_drawLine by auto

lemma drawGrid_in:
  assumes "0 < w" "0 < h" "q \<in> set (cmd_points (drawGrid left upper w h))"
  shows "in_box left upper w h q"
  using assms by (auto simp: drawGrid_def in_box_def Let_def)

lemma chart_maximum_bounds:
  assumes "length points \<le> 80" "p \<in> set points"
  shows "pt_upload p \<le> chart_maximum points u d" "pt_download p \<le> chart_maximum points u d"
    and "u \<le> chart_maximum points u d" "d \<le> chart_maximum points u d" "0 < chart_maximum points u d"
proof -
  let ?s = "set (1 # chart_values points @ [u, d])"
  have ge: "v \<le> Max ?s" if "v \<in> ?s" for v
    using that by (intro Max_ge) auto
  then have one: "1 \<le> Max ?s"
    by simp
  have up: "v \<le> chart_maximum points u d" if "v \<in> ?s" for v
    using ge [OF that] one by (simp add: chart_maximum_def)
  have "pt_upload p \<in> ?s" "pt_download p \<in> ?s"
    using assms by (auto simp: chart_values_def)
  then show "pt_upload p \<le> chart_maximum points u d" "pt_download p \<le> chart_maximum points u d"
    using up by blast+
  show "u \<le> chart_maximum points u d" "d \<le> chart_maximum points u d"
    using up by simp_all
  show "0 < chart_maximum points u d"
    using one by (simp add: chart_maximum_def)
qed

lemma line_in_box:
  assumes "length points \<le> 80" "\<forall>p \<in> set points. 0 \<le> pt_upload p \<and> 0 \<le> pt_download p" "0 \<le> u" "0 \<le> d" "0 < w" "0 < h"
    and "key = pt_upload \<and> v = u \<or> key = pt_download \<and> v = d"
    and "q \<in> set (cmd_points (drawLine points (chart_x left w (length points)) (chart_y upper h (chart_maximum points u d)) color key v))"
  shows "in_box left upper w h q"
proof -
  obtain index v' where iv: "index < length points" "q = (chart_x left w (length points) index, chart_y upper h (chart_maximum points u d) v')"
    "v' = v \<or> v' = key (points ! index)"
    using drawLine_points [OF assms(8)] by metis
  then have mem: "points ! index \<in> set points"
    by simp
  have "0 \<le> v' \<and> v' \<le> chart_maximum points u d"
    using iv(3) assms(2-4,7) mem chart_maximum_bounds [OF assms(1) mem, where u = u and d = d] by auto
  then show ?thesis
    using iv(2) chart_x_in [OF assms(5) iv(1)] chart_y_in [OF assms(6)] chart_maximum_bounds(5) [OF assms(1) mem]
    by (simp add: in_box_def)
qed

subsection \<open>Properties\<close>

text \<open>
  C38. Whatever the runtime reports and whenever, the history keeps at most 300 points, every
  rate shown is non-negative even when the counters or the clock jump back, a client that
  is not connected shows the rate 0 in both directions and adds a point with 0 to the chart, and so are both rates 0 at the
  first report after the connection was made or lost: bytes counted before a reconnect are never attributed to it.
\<close>

theorem traffic_history_is_bounded:
  "length (th_points (history_run print sts)) \<le> 300
   \<and> (\<forall>p. p \<in> set (th_points (history_run print sts)) \<longrightarrow> 0 \<le> pt_upload p \<and> 0 \<le> pt_download p)
   \<and> 0 \<le> th_rate_upload (history_run print sts) \<and> 0 \<le> th_rate_download (history_run print sts)
   \<and> (\<not> connected st \<longrightarrow>
        th_rate_upload (history_run print (sts @ [(now, st)])) = 0 \<and>
        th_rate_download (history_run print (sts @ [(now, st)])) = 0 \<and>
        last (th_points (history_run print (sts @ [(now, st)]))) = \<lparr>pt_time = print now, pt_upload = 0, pt_download = 0\<rparr>)
   \<and> (connected st \<noteq> connected st' \<longrightarrow>
        th_rate_upload (history_run print (sts @ [(earlier, st'), (now, st)])) = 0 \<and>
        th_rate_download (history_run print (sts @ [(earlier, st'), (now, st)])) = 0)"
proof -
  have ok: "history_ok (history_run print sts)" for sts
    unfolding history_run_def by (rule history_ok_run) (simp add: history_ok_def no_history_def)
  have "th_rate_upload (history_run print (sts @ [(now, st)])) = 0 \<and> th_rate_download (history_run print (sts @ [(now, st)])) = 0 \<and>
      last (th_points (history_run print (sts @ [(now, st)]))) = \<lparr>pt_time = print now, pt_upload = 0, pt_download = 0\<rparr>"
    if "\<not> connected st"
    using that
    by (simp add: history_run_def useTrafficHistory_def rate_def Let_def last_slice_last maxHistoryPoints_def one_decimal_zero)
  moreover have "th_previous (history_run print (sts @ [(earlier, st')])) = Some (connected st')"
    by (simp add: history_run_def useTrafficHistory_def Let_def)
  then have "th_rate_upload (history_run print (sts @ [(earlier, st'), (now, st)])) = 0 \<and>
      th_rate_download (history_run print (sts @ [(earlier, st'), (now, st)])) = 0" if "connected st \<noteq> connected st'"
    using that state_change_is_zero [of "history_run print (sts @ [(earlier, st')])" st print now]
    by (simp add: history_run_def)
  ultimately show ?thesis
    using ok [of sts] by (auto simp: history_ok_def maxHistoryPoints_def)
qed

definition sample_run_status :: "bool \<Rightarrow> int \<Rightarrow> runtime_status" where
  "sample_run_status c n =
     \<lparr>connected = c, run_state = [], run_message = [], version = [], uploadBytes = n, downloadBytes = n,
      lastStartedAt = None, lastStoppedAt = None\<rparr>"

theorem traffic_history_is_bounded_witness:
  "th_rate_upload (history_run (\<lambda>t. []) [(0, sample_run_status False 0), (1000, sample_run_status True 4096)]) = 0"
  using traffic_history_is_bounded [of "\<lambda>t. []" "[]" "sample_run_status True 4096" 1000 "sample_run_status False 0" 0]
  by (simp add: sample_run_status_def)

text \<open>
  With at most 80 points of non-negative rates, everything the chart draws lies inside
  the area between the insets.
\<close>

lemma short_chart_stays_in_its_box:
  assumes "length points \<le> 80" and "\<forall>p \<in> set points. 0 \<le> pt_upload p \<and> 0 \<le> pt_download p"
    and "0 \<le> u" and "0 \<le> d" and "q \<in> set (cmd_points (drawChart points width height ratio detailed u d))"
  shows "in_box (in_left (chart_inset detailed)) (in_top (chart_inset detailed))
    (max 1 (width - in_left (chart_inset detailed) - in_right (chart_inset detailed)))
    (max 1 (height - in_top (chart_inset detailed) - in_bottom (chart_inset detailed))) q"
proof -
  let ?i = "chart_inset detailed"
  let ?w = "max 1 (width - in_left ?i - in_right ?i)" and ?h = "max 1 (height - in_top ?i - in_bottom ?i)"
  let ?x = "chart_x (in_left ?i) ?w (length points)" and ?y = "chart_y (in_top ?i) ?h (chart_maximum points u d)"
  have pos: "0 < ?w" "0 < ?h"
    by (simp_all add: less_max_iff_disj)
  have "in_box (in_left ?i) (in_top ?i) ?w ?h q"
    if "q \<in> set (cmd_points (drawLine points ?x ?y c pt_upload u))
      \<or> q \<in> set (cmd_points (drawLine points ?x ?y c pt_download d))" for c
    using that line_in_box [OF assms(1-4) pos, where q = q] by blast
  moreover have "in_box (in_left ?i) (in_top ?i) ?w ?h q"
    if "q \<in> set (cmd_points (drawGrid (in_left ?i) (in_top ?i) ?w ?h))"
    using drawGrid_in [OF pos that] .
  ultimately show ?thesis
    using assms(5) unfolding drawChart_def Let_def
    by (cases detailed) (simp_all only: if_True if_False cmd_points_append cmd_points.simps set_append Un_iff
        append_Nil append_Nil2 list.set empty_iff simp_thms, blast+)
qed

definition flat_points :: "nat \<Rightarrow> traffic_point list" where
  "flat_points n = replicate n \<lparr>pt_time = [], pt_upload = 0, pt_download = 0\<rparr>"

text \<open>
  With more than 80 points, as the history soon has, the scale looks at every second point
  only: a peak at an odd position that is over by now is drawn above the canvas.
\<close>

lemma long_chart_leaves_its_box:
  "\<exists>points q. length points \<le> maxHistoryPoints \<and> list_all (\<lambda>p. 0 \<le> pt_upload p \<and> 0 \<le> pt_download p) points
     \<and> q \<in> set (cmd_points (drawChart points 300 100 1 False (fst (last_point points)) (snd (last_point points))))
     \<and> snd q < 0"
proof -
  define spike where "spike = \<lparr>pt_time = [], pt_upload = 1000, pt_download = 0\<rparr>"
  define points where "points = (flat_points 82)[1 := spike]"
  have len: "length points = 82"
    by (simp add: points_def flat_points_def)
  have nth: "points ! i = (if i = 1 then spike else \<lparr>pt_time = [], pt_upload = 0, pt_download = 0\<rparr>)" if "i < 82" for i
    using that by (simp add: points_def flat_points_def nth_list_update)
  have vals: "set (chart_values points) = {0}"
  proof -
    have "set (chart_values points) = (\<Union>i \<in> {i :: nat. i < 82 \<and> even i}. {pt_upload (points ! i), pt_download (points ! i)})"
      by (auto simp: chart_values_def len)
    also have "\<dots> = (\<Union>i \<in> {i :: nat. i < 82 \<and> even i}. {0})"
      by (rule SUP_cong) (auto simp: nth)
    also have "\<dots> = {0}"
      by (auto intro: exI [of _ "0 :: nat"])
    finally show ?thesis .
  qed
  have last: "last_point points = (0, 0)"
    using nth [of 81] len by (auto simp: last_point_def last_conv_nth simp flip: length_greater_0_conv)
  have m: "chart_maximum points 0 0 = 115 / 100"
    by (simp add: chart_maximum_def vals)
  let ?q = "(chart_x 2 296 82 1, chart_y 8 88 (115 / 100) 1000)"
  have "LineTo (fst ?q) (snd ?q) \<in> set (drawLine points (chart_x 2 296 82) (chart_y 8 88 (115 / 100)) (js ''#12ad67'') pt_upload 0)"
    using len nth [of 1]
    by (auto simp: drawLine_def Let_def spike_def intro!: image_eqI [of _ _ 1] simp flip: length_greater_0_conv)
  then have "?q \<in> set (cmd_points (drawChart points 300 100 1 False 0 0))"
    by (auto simp: drawChart_def Let_def chart_inset_def m len cmd_points_iff)
  moreover have "snd ?q < 0"
    by (simp add: chart_y_def)
  moreover have "list_all (\<lambda>p. 0 \<le> pt_upload p \<and> 0 \<le> pt_download p) points"
    using nth len by (auto simp: list_all_length spike_def)
  moreover have "length points \<le> maxHistoryPoints"
    using len by (simp add: maxHistoryPoints_def)
  ultimately show ?thesis
    by (intro exI [of _ points] exI [of _ ?q]) (simp add: last)
qed

end
