(* ===== verification/Desktop_App.thy ===== *)
theory Desktop_App
  imports Machines Desktop_Endpoint Desktop_Traffic
begin

text \<open>
  The desktop client's shell (\<open>desktop/frontend/src/App.tsx\<close>) with the preview data it falls
  back to in development (\<open>previewData.ts\<close>). The state holds the React state, the two flags
  that keep a refresh from overlapping itself, the calls made to the desktop service, the
  notifications shown, what waits for an answer, and whether \<open>ApplyUpdate\<close> has returned (the service then restarts
  the client). \<open>refreshSnapshot\<close> is awaited by several
  callers: a \<open>waiter\<close> says what goes on when it returns. \<open>dev\<close> is \<open>import.meta.env.DEV\<close>;
  \<open>preview\<close> is \<open>makePreviewSnapshot\<close> at the times of the run.
\<close>

subsection \<open>Preview data (previewData.ts)\<close>

definition preview_tunnel ::
  "string \<Rightarrow> string \<Rightarrow> string \<Rightarrow> string \<Rightarrow> int \<Rightarrow> int \<Rightarrow> string \<Rightarrow> string \<Rightarrow> agent_tunnel" where
  "preview_tunnel i name protocol host localPort remotePort domain visitor =
     \<lparr>at_id = js i, at_client_id = js ''preview-client'', at_name = js name, at_protocol = js protocol,
      at_visitor_token = Some (js visitor), at_local_host = js host, at_local_port = localPort,
      at_remote_port = remotePort, at_domain = js domain, at_status = js ''running'', at_ip_allowlist = Some [],
      at_created_at = js ''2026-05-20T14:25:36Z'', at_updated_at = js ''2026-05-20T14:25:36Z''\<rparr>"

definition makePreviewSnapshot :: "js_string \<Rightarrow> js_string \<Rightarrow> nat \<Rightarrow> desktop_snapshot" where
  "makePreviewSnapshot previewStartedAt now tick =
     \<lparr>snap_config =
        \<lparr>serverUrl = js ''wss://vip1.nrynet.app/agent/connect'', dataAddress = js ''vip1.nrynet.app:7001'',
         transport = js ''websocket'', quicAddress = js ''vip1.nrynet.app:7002'', caFile = [],
         config_token = js ''ntk_demo_token'', config_name = js ''Studio Client'', deviceId = js ''studio-desktop'',
         insecureSkipVerify = False, autoStart = True\<rparr>,
      snap_status =
        \<lparr>connected = True, run_state = js ''connected'', run_message = js ''authenticated session started'',
         version = js ''2.3.4'', uploadBytes = 42440000 + int tick * 1088000, downloadBytes = 8290000 + int tick * 310000,
         lastStartedAt = Some previewStartedAt, lastStoppedAt = None\<rparr>,
      snap_tunnels = Some
        [preview_tunnel ''preview-1'' ''9Router'' ''tcp'' ''192.168.1.1'' 80 3007 ''vip1.nrynet.app'' '''',
         preview_tunnel ''preview-2'' ''Home NAS'' ''https'' ''192.168.1.20'' 443 3008 ''nas.nrynet.app'' '''',
         preview_tunnel ''preview-3'' ''Minecraft'' ''tcp'' ''192.168.1.30'' 25565 3009 ''vip1.nrynet.app'' '''',
         preview_tunnel ''preview-4'' ''Media Lab'' ''udp'' ''192.168.1.40'' 1900 3010 ''vip1.nrynet.app'' '''',
         preview_tunnel ''preview-5'' ''Visitor API'' ''visitor_webrtc'' ''127.0.0.1'' 8080 0 '''' ''preview-visitor-token''],
      snap_paths = Some
        [(js ''preview-1'', js ''p2p''), (js ''preview-2'', js ''relay''), (js ''preview-3'', js ''p2p''),
         (js ''preview-4'', js ''relay''), (js ''preview-5'', js ''visitor_p2p'')],
      snap_logs = Some
        [\<lparr>log_time = now, log_level = js ''INFO'', log_message = js ''authenticated session started'', log_fields = None\<rparr>,
         \<lparr>log_time = previewStartedAt, log_level = js ''INFO'', log_message = js ''configuration loaded'', log_fields = None\<rparr>],
      snap_update = Some
        \<lparr>checked = True, available = True, latestVersion = js ''2.5.0'',
         downloadURL = js ''https://github.com/nrytex/nrynet/releases/download/v2.5.0/nrynet-desktop-windows-amd64.zip'',
         downloadState = js ''ready'', ready = True,
         update_message = [0x65B0, 0x7248, 0x672C, 0x20, 0x32, 0x2E, 0x35, 0x2E, 0x30, 0x20, 0x5DF2, 0x4E0B,
    0x8F7D, 0xFF0C, 0x91CD, 0x542F, 0x5E94, 0x7528, 0x5373, 0x53EF, 0x5B8C, 0x6210,
    0x66F4, 0x65B0, 0x3002]\<rparr>\<rparr>"

subsection \<open>The desktop service (bindings/.../desktopservice.ts)\<close>

datatype service_call =
    ApplyUpdate | CheckForUpdate | Connect | Disconnect | HideWindow | OpenURL js_string | Quit
  | SaveConfig app_config_patch | ShowWindow | Snapshot | Status

datatype service_arg = TextArg js_string | PatchArg app_config_patch

text \<open>The identifier and the arguments given to \<open>$Call.ByID\<close>\<close>

fun service_request :: "service_call \<Rightarrow> nat \<times> service_arg list" where
  "service_request ApplyUpdate = (1098725114, [])"
| "service_request CheckForUpdate = (1073638667, [])"
| "service_request Connect = (761302137, [])"
| "service_request Disconnect = (3778713963, [])"
| "service_request HideWindow = (2947540501, [])"
| "service_request (OpenURL url) = (3613445466, [TextArg url])"
| "service_request Quit = (1821349302, [])"
| "service_request (SaveConfig patch) = (2379168358, [PatchArg patch])"
| "service_request ShowWindow = (872464160, [])"
| "service_request Snapshot = (431882765, [])"
| "service_request Status = (3733088879, [])"

subsection \<open>State\<close>

datatype app_route = HomeRoute | SettingsRoute settings_section | TunnelRoute js_string

datatype notice = NoteError js_string | NoteWarning js_string | NoteSuccess js_string | NoteInfo js_string

datatype waiter = OnMount | OnTimer | AfterAction bool | AfterFailure | AfterUpdate

datatype pending =
  WaitSnapshot waiter | WaitStatus | WaitConnection bool | WaitSave app_config | WaitUpdate | WaitApply

record desktop =
  dk_snapshot :: "desktop_snapshot option"
  dk_route :: app_route
  dk_loading :: bool
  dk_update_loading :: bool
  dk_form :: "app_config option"
  dk_tick :: nat
  dk_snapshot_flight :: bool
  dk_status_flight :: bool
  dk_calls :: "service_call list"
  dk_notes :: "notice list"
  dk_pending :: "pending list"
  dk_applied :: bool

definition desktop_initial :: desktop where
  "desktop_initial =
     \<lparr>dk_snapshot = None, dk_route = HomeRoute, dk_loading = False, dk_update_loading = False, dk_form = None,
      dk_tick = 0, dk_snapshot_flight = False, dk_status_flight = False, dk_calls = [], dk_notes = [], dk_pending = [], dk_applied = False\<rparr>"

definition ask :: "service_call \<Rightarrow> pending \<Rightarrow> desktop \<Rightarrow> desktop" where
  "ask c p s = s\<lparr>dk_calls := dk_calls s @ [c], dk_pending := dk_pending s @ [p]\<rparr>"

definition notify :: "notice \<Rightarrow> desktop \<Rightarrow> desktop" where
  "notify n s = s\<lparr>dk_notes := dk_notes s @ [n]\<rparr>"

definition showError :: "thrown \<Rightarrow> feedback_action \<Rightarrow> desktop \<Rightarrow> desktop" where
  "showError e action s = notify (NoteError (userErrorMessage e action)) s"

definition dk_config :: "desktop \<Rightarrow> app_config option" where
  "dk_config s = map_option snap_config (dk_snapshot s)"

subsection \<open>Refreshing\<close>

definition start_snapshot :: "waiter \<Rightarrow> desktop \<Rightarrow> desktop" where
  "start_snapshot w s = ask Snapshot (WaitSnapshot w) (s\<lparr>dk_snapshot_flight := True\<rparr>)"

text \<open>\<open>await refreshSnapshot().catch(() => undefined)\<close>, then the \<open>finally\<close> of the action\<close>

definition refresh_after_failure :: "desktop \<Rightarrow> desktop" where
  "refresh_after_failure s =
     (if dk_snapshot_flight s then s\<lparr>dk_loading := False\<rparr> else start_snapshot AfterFailure s)"

definition connection_failed :: "bool \<Rightarrow> bool \<Rightarrow> thrown \<Rightarrow> desktop \<Rightarrow> desktop" where
  "connection_failed dev connect e s =
     (if dev
      then s\<lparr>dk_snapshot := map_option (\<lambda>n. n\<lparr>snap_status := (snap_status n)
             \<lparr>connected := connect, run_state := (if connect then js ''connected'' else js ''disconnected'')\<rparr>\<rparr>) (dk_snapshot s),
             dk_loading := False\<rparr>
      else refresh_after_failure (showError e ConnectAction s))"

definition update_failed :: "bool \<Rightarrow> thrown \<Rightarrow> desktop \<Rightarrow> desktop" where
  "update_failed dev e s =
     (if dev then notify (NoteInfo [0x5F53, 0x524D, 0x5DF2, 0x662F, 0x6700, 0x65B0, 0x7248, 0x672C]) s else showError e UpdateAction s)\<lparr>dk_update_loading := False\<rparr>"

definition resume :: "bool \<Rightarrow> waiter \<Rightarrow> thrown option \<Rightarrow> desktop \<Rightarrow> desktop" where
  "resume dev w r s =
     (case w of
        OnMount \<Rightarrow> (case r of None \<Rightarrow> s | Some e \<Rightarrow> showError e LoadAction s)
      | OnTimer \<Rightarrow> s
      | AfterAction connect \<Rightarrow>
          (case r of None \<Rightarrow> s\<lparr>dk_loading := False\<rparr> | Some e \<Rightarrow> connection_failed dev connect e s)
      | AfterFailure \<Rightarrow> s\<lparr>dk_loading := False\<rparr>
      | AfterUpdate \<Rightarrow>
          (case r of None \<Rightarrow> s\<lparr>dk_update_loading := False\<rparr> | Some e \<Rightarrow> update_failed dev e s))"

definition refreshSnapshot :: "bool \<Rightarrow> waiter \<Rightarrow> desktop \<Rightarrow> desktop" where
  "refreshSnapshot dev w s = (if dk_snapshot_flight s then resume dev w None s else start_snapshot w s)"

definition snapshot_answered ::
  "bool \<Rightarrow> (nat \<Rightarrow> desktop_snapshot) \<Rightarrow> waiter \<Rightarrow> thrown + desktop_snapshot \<Rightarrow> desktop \<Rightarrow> desktop" where
  "snapshot_answered dev preview w r s =
     (case r of
        Inr next \<Rightarrow> resume dev w None (s\<lparr>dk_snapshot := Some next, dk_snapshot_flight := False\<rparr>)
      | Inl e \<Rightarrow>
          (if dev
           then resume dev w None (s\<lparr>dk_snapshot := Some (preview (dk_tick s)), dk_tick := Suc (dk_tick s),
                  dk_snapshot_flight := False\<rparr>)
           else resume dev w (Some e) (s\<lparr>dk_snapshot_flight := False\<rparr>)))"

definition refreshStatus :: "desktop \<Rightarrow> desktop" where
  "refreshStatus s =
     (if dk_status_flight s then s else ask Status WaitStatus (s\<lparr>dk_status_flight := True\<rparr>))"

definition with_status :: "runtime_status \<Rightarrow> desktop_snapshot option \<Rightarrow> desktop_snapshot option" where
  "with_status st = map_option (\<lambda>n. n\<lparr>snap_status := st\<rparr>)"

definition status_answered ::
  "bool \<Rightarrow> (nat \<Rightarrow> desktop_snapshot) \<Rightarrow> thrown + runtime_status \<Rightarrow> desktop \<Rightarrow> desktop" where
  "status_answered dev preview r s =
     (case r of
        Inr st \<Rightarrow> s\<lparr>dk_snapshot := with_status st (dk_snapshot s)\<rparr>
      | Inl e \<Rightarrow>
          (if dev
           then (let p = preview (dk_tick s) in
                 s\<lparr>dk_tick := Suc (dk_tick s),
                   dk_snapshot := (case dk_snapshot s of None \<Rightarrow> Some p | Some n \<Rightarrow> Some (n\<lparr>snap_status := snap_status p\<rparr>))\<rparr>)
           else s))\<lparr>dk_status_flight := False\<rparr>"

subsection \<open>Actions\<close>

definition runConnectionAction :: "bool \<Rightarrow> desktop \<Rightarrow> desktop" where
  "runConnectionAction connect s =
     (case (if connect then connectionConfigIssue (map_option draft_of (dk_config s)) else None) of
        Some issue \<Rightarrow>
          (notify (NoteWarning (issue_message issue)) s)\<lparr>dk_route := SettingsRoute (issue_section issue)\<rparr>
      | None \<Rightarrow>
          ask (if connect then Connect else Disconnect) (WaitConnection connect) (s\<lparr>dk_loading := True\<rparr>))"

definition connection_answered :: "bool \<Rightarrow> bool \<Rightarrow> thrown + runtime_status \<Rightarrow> desktop \<Rightarrow> desktop" where
  "connection_answered dev connect r s =
     (case r of
        Inr st \<Rightarrow> refreshSnapshot dev (AfterAction connect) s
      | Inl e \<Rightarrow> connection_failed dev connect e s)"

definition saveConfig :: "config_draft \<Rightarrow> desktop \<Rightarrow> desktop" where
  "saveConfig values s =
     (let completeConfig = completeConfigForSave (dk_config s) values in
      ask (SaveConfig (patch_of completeConfig)) (WaitSave completeConfig) (s\<lparr>dk_loading := True\<rparr>))"

definition save_answered :: "bool \<Rightarrow> app_config \<Rightarrow> thrown + desktop_snapshot \<Rightarrow> desktop \<Rightarrow> desktop" where
  "save_answered dev completeConfig r s =
     (case r of
        Inr next \<Rightarrow>
          notify (NoteSuccess [0x8BBE, 0x7F6E, 0x5DF2, 0x4FDD, 0x5B58]) (s\<lparr>dk_snapshot := Some next, dk_form := Some (snap_config next)\<rparr>)
      | Inl e \<Rightarrow>
          (if dev
           then notify (NoteSuccess [0x9884, 0x89C8, 0x8BBE, 0x7F6E, 0x5DF2, 0x4FDD, 0x5B58])
                  (s\<lparr>dk_snapshot := map_option (\<lambda>n. n\<lparr>snap_config := completeConfig\<rparr>) (dk_snapshot s)\<rparr>)
           else showError e SaveAction s))\<lparr>dk_loading := False\<rparr>"

definition checkUpdate :: "desktop \<Rightarrow> desktop" where
  "checkUpdate s = ask CheckForUpdate WaitUpdate (s\<lparr>dk_update_loading := True\<rparr>)"

definition update_answered :: "bool \<Rightarrow> thrown + update_result \<Rightarrow> desktop \<Rightarrow> desktop" where
  "update_answered dev r s =
     (case r of
        Inr u \<Rightarrow>
          refreshSnapshot dev AfterUpdate
            (notify (if ready u then NoteSuccess (update_message u)
                     else if available u then NoteInfo (update_message u) else NoteSuccess (update_message u)) s)
      | Inl e \<Rightarrow> update_failed dev e s)"

definition applyUpdate :: "desktop \<Rightarrow> desktop" where
  "applyUpdate s = ask ApplyUpdate WaitApply (s\<lparr>dk_loading := True\<rparr>)"

definition apply_answered :: "thrown + unit \<Rightarrow> desktop \<Rightarrow> desktop" where
  "apply_answered r s =
     (case r of Inr u \<Rightarrow> s\<lparr>dk_applied := True\<rparr> | Inl e \<Rightarrow> (showError e UpdateAction s)\<lparr>dk_loading := False\<rparr>)"

definition desktop_mounted :: "bool \<Rightarrow> desktop" where
  "desktop_mounted dev = refreshSnapshot dev OnMount desktop_initial"

subsection \<open>The machine\<close>

text \<open>An answer that arrives, to any of the calls that wait for one.\<close>

inductive desktop_answer :: "bool \<Rightarrow> (nat \<Rightarrow> desktop_snapshot) \<Rightarrow> desktop \<Rightarrow> desktop \<Rightarrow> bool" for dev preview where
  snapshot_answer: "dk_pending s = ps @ WaitSnapshot w # qs \<Longrightarrow>
    desktop_answer dev preview s (snapshot_answered dev preview w a (s\<lparr>dk_pending := ps @ qs\<rparr>))"
| status_answer: "dk_pending s = ps @ WaitStatus # qs \<Longrightarrow>
    desktop_answer dev preview s (status_answered dev preview b (s\<lparr>dk_pending := ps @ qs\<rparr>))"
| connection_answer: "dk_pending s = ps @ WaitConnection connect # qs \<Longrightarrow>
    desktop_answer dev preview s (connection_answered dev connect b (s\<lparr>dk_pending := ps @ qs\<rparr>))"
| save_answer: "dk_pending s = ps @ WaitSave c # qs \<Longrightarrow>
    desktop_answer dev preview s (save_answered dev c a (s\<lparr>dk_pending := ps @ qs\<rparr>))"
| update_answer: "dk_pending s = ps @ WaitUpdate # qs \<Longrightarrow>
    desktop_answer dev preview s (update_answered dev d (s\<lparr>dk_pending := ps @ qs\<rparr>))"
| apply_answer: "dk_pending s = ps @ WaitApply # qs \<Longrightarrow>
    desktop_answer dev preview s (apply_answered f (s\<lparr>dk_pending := ps @ qs\<rparr>))"

inductive desktop_step :: "bool \<Rightarrow> (nat \<Rightarrow> desktop_snapshot) \<Rightarrow> desktop \<Rightarrow> desktop \<Rightarrow> bool" for dev preview where
  snapshot_timer: "desktop_step dev preview s (refreshSnapshot dev OnTimer s)"
| status_timer: "desktop_step dev preview s (refreshStatus s)"
| navigate: "desktop_step dev preview s (s\<lparr>dk_route := r\<rparr>)"
| connection: "\<not> dk_loading s \<Longrightarrow> desktop_step dev preview s (runConnectionAction connect s)"
| save: "\<not> dk_loading s \<Longrightarrow> desktop_step dev preview s (saveConfig values s)"
| check: "\<not> dk_update_loading s \<Longrightarrow> desktop_step dev preview s (checkUpdate s)"
| apply_up: "desktop_step dev preview s (applyUpdate s)"
| answered: "desktop_answer dev preview s t \<Longrightarrow> desktop_step dev preview s t"

inductive desktop_reachable :: "bool \<Rightarrow> (nat \<Rightarrow> desktop_snapshot) \<Rightarrow> desktop \<Rightarrow> bool" for dev preview where
  mounted: "desktop_reachable dev preview (desktop_mounted dev)"
| step: "desktop_reachable dev preview s \<Longrightarrow> desktop_step dev preview s t \<Longrightarrow> desktop_reachable dev preview t"

lemmas desktop_defs = ask_def notify_def showError_def start_snapshot_def refresh_after_failure_def connection_failed_def
  update_failed_def resume_def refreshSnapshot_def snapshot_answered_def refreshStatus_def status_answered_def
  runConnectionAction_def connection_answered_def saveConfig_def save_answered_def checkUpdate_def update_answered_def
  applyUpdate_def apply_answered_def Let_def

text \<open>The calls of the service are told apart by what is sent, and every identifier has 32 bits.\<close>

lemma service_requests_are_told_apart:
  "service_request c = service_request d \<longleftrightarrow> c = d" "fst (service_request c) < 2 ^ 32"
  by (cases c; cases d; simp)+

subsection \<open>The effect of an answer\<close>

fun waits_snapshot :: "pending \<Rightarrow> bool" where
  "waits_snapshot (WaitSnapshot w) = True"
| "waits_snapshot _ = False"

text \<open>How many answers a pending call can still lead to: an action is followed by a snapshot,
  and a snapshot that fails after an action by one more.\<close>

fun work :: "pending \<Rightarrow> nat" where
  "work (WaitConnection connect) = 3"
| "work WaitUpdate = 2"
| "work (WaitSnapshot (AfterAction connect)) = 2"
| "work _ = 1"

text \<open>An answer removes the call it belongs to and asks for at most one snapshot in its place.\<close>

lemma desktop_answer_shape:
  assumes "desktop_answer dev preview s t"
  obtains ps p qs new where "dk_pending s = ps @ p # qs" "dk_pending t = ps @ qs @ new"
    "new = [] \<or> (\<exists>w. new = [WaitSnapshot w] \<and> work (WaitSnapshot w) < work p \<and> (dk_snapshot_flight s \<longrightarrow> waits_snapshot p))"
    "dk_snapshot_flight t \<longleftrightarrow> new \<noteq> [] \<or> dk_snapshot_flight s \<and> \<not> waits_snapshot p"
    "dk_status_flight t \<longleftrightarrow> dk_status_flight s \<and> p \<noteq> WaitStatus"
  using assms
proof (cases rule: desktop_answer.cases)
  case (snapshot_answer ps w qs a)
  then show thesis
    by (intro that [of ps "WaitSnapshot w" qs "drop (length ps + length qs) (dk_pending t)"]; cases a; cases w) (auto simp: desktop_defs)
next
  case (status_answer ps qs b)
  then show thesis
    by (intro that [of ps "WaitStatus" qs "drop (length ps + length qs) (dk_pending t)"]; cases b) (auto simp: desktop_defs)
next
  case (connection_answer ps connect qs b)
  then show thesis
    by (intro that [of ps "WaitConnection connect" qs "drop (length ps + length qs) (dk_pending t)"]; cases b) (auto simp: desktop_defs)
next
  case (save_answer ps c qs a)
  then show thesis
    by (intro that [of ps "WaitSave c" qs "drop (length ps + length qs) (dk_pending t)"]; cases a) (auto simp: desktop_defs)
next
  case (update_answer ps qs d)
  then show thesis
    by (intro that [of ps "WaitUpdate" qs "drop (length ps + length qs) (dk_pending t)"]; cases d) (auto simp: desktop_defs)
next
  case (apply_answer ps qs f)
  then show thesis
    by (intro that [of ps "WaitApply" qs "drop (length ps + length qs) (dk_pending t)"]; cases f) (auto simp: desktop_defs)
qed

subsection \<open>Refreshes do not overlap\<close>

definition snapshots_out :: "desktop \<Rightarrow> nat" where
  "snapshots_out s = length (filter waits_snapshot (dk_pending s))"

definition statuses_out :: "desktop \<Rightarrow> nat" where
  "statuses_out s = length (filter (\<lambda>p. p = WaitStatus) (dk_pending s))"


lemma Suc_of_bool: "Suc n = of_bool b \<longleftrightarrow> b \<and> n = 0"
  by (cases b) auto

lemma snapshot_guarded_answer:
  assumes "desktop_answer dev preview s t" "snapshots_out s = of_bool (dk_snapshot_flight s)"
  shows "dk_snapshot_flight t = dk_snapshot_flight s \<and> snapshots_out t = snapshots_out s \<or>
    \<not> dk_snapshot_flight s \<and> dk_snapshot_flight t \<and> snapshots_out t = Suc (snapshots_out s) \<or>
    dk_snapshot_flight s \<and> \<not> dk_snapshot_flight t \<and> Suc (snapshots_out t) = snapshots_out s"
  by (rule desktop_answer_shape [OF assms(1)]) (use assms(2) in \<open>auto simp: snapshots_out_def Suc_of_bool split: if_splits\<close>)

lemma snapshot_guarded:
  assumes "desktop_step dev preview s t" "snapshots_out s = of_bool (dk_snapshot_flight s)"
  shows "dk_snapshot_flight t = dk_snapshot_flight s \<and> snapshots_out t = snapshots_out s \<or>
    \<not> dk_snapshot_flight s \<and> dk_snapshot_flight t \<and> snapshots_out t = Suc (snapshots_out s) \<or>
    dk_snapshot_flight s \<and> \<not> dk_snapshot_flight t \<and> Suc (snapshots_out t) = snapshots_out s"
  using assms(1)
proof (cases rule: desktop_step.cases)
  case answered
  then show ?thesis
    using snapshot_guarded_answer assms(2) by blast
qed (auto simp: desktop_defs snapshots_out_def split: option.splits)

lemma status_guarded_answer:
  assumes "desktop_answer dev preview s t" "statuses_out s = of_bool (dk_status_flight s)"
  shows "dk_status_flight t = dk_status_flight s \<and> statuses_out t = statuses_out s \<or>
    \<not> dk_status_flight s \<and> dk_status_flight t \<and> statuses_out t = Suc (statuses_out s) \<or>
    dk_status_flight s \<and> \<not> dk_status_flight t \<and> Suc (statuses_out t) = statuses_out s"
  by (rule desktop_answer_shape [OF assms(1)]) (use assms(2) in \<open>auto simp: statuses_out_def Suc_of_bool split: if_splits\<close>)

lemma status_guarded:
  assumes "desktop_step dev preview s t" "statuses_out s = of_bool (dk_status_flight s)"
  shows "dk_status_flight t = dk_status_flight s \<and> statuses_out t = statuses_out s \<or>
    \<not> dk_status_flight s \<and> dk_status_flight t \<and> statuses_out t = Suc (statuses_out s) \<or>
    dk_status_flight s \<and> \<not> dk_status_flight t \<and> Suc (statuses_out t) = statuses_out s"
  using assms(1)
proof (cases rule: desktop_step.cases)
  case answered
  then show ?thesis
    using status_guarded_answer assms(2) by blast
qed (auto simp: desktop_defs statuses_out_def split: option.splits)

interpretation snapshot_refresh: single_flight "desktop_step dev preview" dk_snapshot_flight snapshots_out for dev preview
  by unfold_locales (rule snapshot_guarded)

interpretation status_refresh: single_flight "desktop_step dev preview" dk_status_flight statuses_out for dev preview
  by unfold_locales (rule status_guarded)

lemma reachable_star: "desktop_reachable dev preview s \<Longrightarrow> (desktop_step dev preview)\<^sup>*\<^sup>* (desktop_mounted dev) s"
  by (induction rule: desktop_reachable.induct) auto

lemma mounted_flags:
  "snapshots_out (desktop_mounted dev) = of_bool (dk_snapshot_flight (desktop_mounted dev))"
  "statuses_out (desktop_mounted dev) = of_bool (dk_status_flight (desktop_mounted dev))"
  by (simp_all add: desktop_mounted_def desktop_initial_def desktop_defs snapshots_out_def statuses_out_def)

lemma answer_no_connect: "desktop_answer dev preview s t \<Longrightarrow> dk_calls t \<noteq> dk_calls s @ [Connect]"
  by (cases rule: desktop_answer.cases, assumption)
    (auto simp: desktop_defs split: sum.splits option.splits waiter.splits)

lemma step_connect_call:
  assumes "desktop_step dev preview s t" "dk_calls t = dk_calls s @ [Connect]"
  shows "connectionConfigIssue (map_option draft_of (dk_config s)) = None"
  using assms(1)
proof (cases rule: desktop_step.cases)
  case (connection connect)
  then show ?thesis
    using assms(2) by (auto simp: desktop_defs split: option.splits if_splits)
next
  case answered
  then show ?thesis
    using answer_no_connect assms(2) by blast
qed (use assms(2) in \<open>auto simp: desktop_defs split: option.splits if_splits\<close>)

lemma config_issue_none:
  "connectionConfigIssue (Some (draft_of c)) = None \<longleftrightarrow>
     js_trim (serverUrl c) \<noteq> [] \<and> js_trim (config_token c) \<noteq> [] \<and>
     (if transport c = js ''quic'' then js_trim (quicAddress c) \<noteq> [] else js_trim (dataAddress c) \<noteq> [])"
  by (simp add: connectionConfigIssue_def draft_of_def blank_def)

subsection \<open>Answers come to an end\<close>

definition desktop_work :: "desktop \<Rightarrow> nat" where
  "desktop_work s = sum_list (map work (dk_pending s))"

lemma work_pos [simp]: "0 < work p"
  by (cases p rule: work.cases) auto

lemma desktop_work_zero: "desktop_work s = 0 \<longleftrightarrow> dk_pending s = []"
  by (cases "dk_pending s") (use work_pos in \<open>auto simp: desktop_work_def simp flip: neq0_conv\<close>)

lemma desktop_answer_less: "desktop_answer dev preview s t \<Longrightarrow> desktop_work t < desktop_work s"
  by (erule desktop_answer_shape) (auto simp: desktop_work_def)

lemma desktop_answer_some:
  assumes "0 < desktop_work s"
  shows "\<exists>t. desktop_answer dev preview s t"
proof -
  obtain p ps where p: "dk_pending s = [] @ p # ps"
    using assms by (cases "dk_pending s") (auto simp: desktop_work_def)
  show ?thesis
    using desktop_answer.intros [of s "[]"] p by (cases p) (auto, (blast)+)
qed

text \<open>What each busy indicator waits for.\<close>

fun holds_loading :: "pending \<Rightarrow> bool" where
  "holds_loading (WaitConnection connect) = True"
| "holds_loading (WaitSave c) = True"
| "holds_loading WaitApply = True"
| "holds_loading (WaitSnapshot (AfterAction connect)) = True"
| "holds_loading (WaitSnapshot AfterFailure) = True"
| "holds_loading _ = False"

fun holds_update :: "pending \<Rightarrow> bool" where
  "holds_update WaitUpdate = True"
| "holds_update (WaitSnapshot AfterUpdate) = True"
| "holds_update _ = False"

definition indicators_held :: "desktop \<Rightarrow> bool" where
  "indicators_held s \<longleftrightarrow>
     (dk_loading s \<longrightarrow> list_ex holds_loading (dk_pending s) \<or> dk_applied s) \<and>
     (dk_update_loading s \<longrightarrow> list_ex holds_update (dk_pending s))"

lemma indicators_held_answer:
  assumes "desktop_answer dev preview s t" "indicators_held s"
  shows "indicators_held t"
  using assms(1)
proof (cases rule: desktop_answer.cases)
  case (snapshot_answer ps w qs a)
  then show ?thesis
    using assms(2) by (cases a; cases w) (auto simp: desktop_defs indicators_held_def)
next
  case (status_answer ps qs b)
  then show ?thesis
    using assms(2) by (cases b) (auto simp: status_answered_def Let_def indicators_held_def)
next
  case (connection_answer ps connect qs b)
  then show ?thesis
    using assms(2) by (cases b) (auto simp: desktop_defs indicators_held_def)
next
  case (save_answer ps c qs a)
  then show ?thesis
    using assms(2) by (cases a) (auto simp: save_answered_def showError_def notify_def indicators_held_def)
next
  case (update_answer ps qs d)
  then show ?thesis
    using assms(2) by (cases d) (auto simp: desktop_defs indicators_held_def)
next
  case (apply_answer ps qs f)
  then show ?thesis
    using assms(2) by (cases f) (auto simp: apply_answered_def showError_def notify_def indicators_held_def)
qed

lemma indicators_held_step:
  assumes "desktop_step dev preview s t" "indicators_held s"
  shows "indicators_held t"
  using assms(1)
proof (cases rule: desktop_step.cases)
  case answered
  then show ?thesis
    using indicators_held_answer assms(2) by blast
qed (use assms(2) in \<open>auto simp: desktop_defs indicators_held_def split: option.splits\<close>)

lemma reachable_indicators_held: "desktop_reachable dev preview s \<Longrightarrow> indicators_held s"
proof (induction rule: desktop_reachable.induct)
  case mounted
  show ?case
    by (simp add: desktop_mounted_def desktop_initial_def desktop_defs indicators_held_def)
qed (rule indicators_held_step)

definition desktop_quiet :: "desktop \<Rightarrow> bool" where
  "desktop_quiet s \<longleftrightarrow> \<not> dk_snapshot_flight s \<and> \<not> dk_status_flight s \<and> \<not> dk_update_loading s \<and>
     (dk_loading s \<longrightarrow> dk_applied s)"

lemma flags_exact:
  assumes "desktop_reachable dev preview s"
  shows "snapshots_out s = of_bool (dk_snapshot_flight s)" "statuses_out s = of_bool (dk_status_flight s)"
  using snapshot_refresh.flag_is_exact [OF reachable_star [OF assms] mounted_flags(1)]
    status_refresh.flag_is_exact [OF reachable_star [OF assms] mounted_flags(2)] by simp_all

interpretation desktop_answers: settling "desktop_answer dev preview" desktop_work "desktop_reachable dev preview" desktop_quiet
  for dev preview
proof
  fix s
  assume "desktop_reachable dev preview s" "desktop_work s = 0"
  then show "desktop_quiet s"
    using flags_exact [of dev preview s] reachable_indicators_held [of dev preview s]
    by (auto simp: desktop_quiet_def desktop_work_zero indicators_held_def snapshots_out_def statuses_out_def)
qed (auto intro: desktop_answer_less desktop_answer_some desktop_reachable.step desktop_step.answered)

subsection \<open>Properties\<close>

text \<open>
  C16. In every state the client can reach, at most one request for the snapshot and at most one
  for the status are under way, and the two flags say exactly whether there is one: neither
  refresh overlaps itself, and a failed answer never leaves a flag set that would block all
  later refreshes.
\<close>

theorem refreshes_do_not_overlap:
  assumes "desktop_reachable dev preview s"
  shows "snapshots_out s \<le> 1 \<and> statuses_out s \<le> 1
    \<and> (dk_snapshot_flight s \<longleftrightarrow> snapshots_out s = 1) \<and> (dk_status_flight s \<longleftrightarrow> statuses_out s = 1)"
  using flags_exact [OF assms] by simp

theorem refreshes_do_not_overlap_witness:
  "snapshots_out (refreshSnapshot False OnTimer (desktop_mounted False)) \<le> 1"
  using refreshes_do_not_overlap [OF desktop_reachable.step [OF desktop_reachable.mounted desktop_step.snapshot_timer]]
  by simp

text \<open>
  C17. The answers the service gives never keep the client busy for ever, although an answer may
  lead to further requests: from every state that can be reached, no chain of answers is
  longer than the work outstanding, there is a chain after which nothing waits, and whenever nothing waits no
  refresh is blocked and no button shows that it is busy, whether the calls succeeded or
  failed. The exception is an update that was applied, after which the client restarts; an update that could
  not be applied leaves no button busy.
\<close>

theorem desktop_answers_come_to_rest:
  assumes "desktop_reachable dev preview s"
  shows "wfP (\<lambda>u t. desktop_answer dev preview t u)
    \<and> (\<forall>n t. (desktop_answer dev preview ^^ n) s t \<longrightarrow> n \<le> desktop_work s)
    \<and> (\<exists>t. (desktop_answer dev preview)\<^sup>*\<^sup>* s t \<and> dk_pending t = [])
    \<and> (\<forall>t. (desktop_answer dev preview)\<^sup>*\<^sup>* s t \<and> dk_pending t = [] \<longrightarrow>
        \<not> dk_snapshot_flight t \<and> \<not> dk_status_flight t \<and> \<not> dk_update_loading t \<and>
        (dk_loading t \<longrightarrow> dk_applied t))"
  using desktop_answers.answers_terminate [of dev preview] desktop_answers.drains [of dev preview s]
    desktop_answers.rests_quiet [OF assms]
    desktop_answers.chain_bounded [where dev = dev and preview = preview and s = s]
  by (fastforce simp: desktop_work_zero desktop_quiet_def)

theorem desktop_answers_come_to_rest_witness:
  "(\<exists>t. (desktop_answer False (makePreviewSnapshot [] []))\<^sup>*\<^sup>* (desktop_mounted False) t \<and> dk_pending t = [])
   \<and> desktop_work (desktop_mounted False) = 1"
  using desktop_answers_come_to_rest [OF desktop_reachable.mounted, of False "makePreviewSnapshot [] []"]
  by (simp add: desktop_work_def desktop_mounted_def desktop_initial_def desktop_defs)

text \<open>A click on connect that is refused: nothing is called, a warning is shown and a section of the settings opened.\<close>

definition refused :: "desktop \<Rightarrow> js_string \<Rightarrow> settings_section \<Rightarrow> bool" where
  "refused s hint section \<longleftrightarrow>
     dk_calls (runConnectionAction True s) = dk_calls s \<and>
     dk_notes (runConnectionAction True s) = dk_notes s @ [NoteWarning hint] \<and>
     dk_route (runConnectionAction True s) = SettingsRoute section"

text \<open>
  C25. The client asks the service to connect only when the loaded configuration has a server
  address, a token and the address of the chosen transport, none of them blank. Otherwise a
  click on connect calls nothing, shows the hint for the first of them that is missing (server, address of the transport,
  token) and opens the section of the settings it belongs to: the network section, or for
  the token the connection section.
\<close>

theorem connect_needs_a_complete_configuration:
  assumes "desktop_step dev preview s t" and "dk_calls t = dk_calls s @ [Connect]"
  shows "(\<exists>c. dk_config s = Some c \<and> js_trim (serverUrl c) \<noteq> [] \<and> js_trim (config_token c) \<noteq> [] \<and>
      (if transport c = js ''quic'' then js_trim (quicAddress c) \<noteq> [] else js_trim (dataAddress c) \<noteq> []))
    \<and> (\<forall>u. (dk_config u = None \<longrightarrow> refused u [0x8BF7, 0x5148, 0x5728, 0x201C, 0x7F51, 0x7EDC, 0x8BBE, 0x7F6E, 0x201D, 0x4E2D,
    0x586B, 0x5199, 0x63A7, 0x5236, 0x670D, 0x52A1, 0x5668, 0x5730, 0x5740, 0x3002] Network)
       \<and> (\<forall>c. dk_config u = Some c \<longrightarrow>
           (js_trim (serverUrl c) = [] \<longrightarrow> refused u [0x8BF7, 0x5148, 0x5728, 0x201C, 0x7F51, 0x7EDC, 0x8BBE, 0x7F6E, 0x201D, 0x4E2D,
    0x586B, 0x5199, 0x63A7, 0x5236, 0x670D, 0x52A1, 0x5668, 0x5730, 0x5740, 0x3002] Network)
         \<and> (js_trim (serverUrl c) \<noteq> [] \<and> transport c = js ''quic'' \<and> js_trim (quicAddress c) = [] \<longrightarrow>
              refused u [0x5DF2, 0x9009, 0x62E9, 0x20, 0x51, 0x55, 0x49, 0x43, 0x20, 0x4F20, 0x8F93, 0xFF0C,
    0x8BF7, 0x5148, 0x586B, 0x5199, 0x20, 0x51, 0x55, 0x49, 0x43, 0x20, 0x5730, 0x5740,
    0x3002] Network)
         \<and> (js_trim (serverUrl c) \<noteq> [] \<and> transport c \<noteq> js ''quic'' \<and> js_trim (dataAddress c) = [] \<longrightarrow>
              refused u [0x8BF7, 0x5148, 0x5728, 0x201C, 0x7F51, 0x7EDC, 0x8BBE, 0x7F6E, 0x201D, 0x4E2D,
    0x586B, 0x5199, 0x6570, 0x636E, 0x901A, 0x9053, 0x5730, 0x5740, 0x3002] Network)
         \<and> (js_trim (serverUrl c) \<noteq> [] \<and> js_trim (if transport c = js ''quic'' then quicAddress c else dataAddress c) \<noteq> [] \<and>
             js_trim (config_token c) = [] \<longrightarrow> refused u [0x8BF7, 0x5148, 0x5728, 0x201C, 0x8FDE, 0x63A5, 0x8BBE, 0x7F6E, 0x201D, 0x4E2D,
    0x586B, 0x5199, 0x20, 0x41, 0x67, 0x65, 0x6E, 0x74, 0x20, 0x54, 0x6F, 0x6B, 0x65,
    0x6E, 0x3002] Connection)))"
proof -
  obtain c where c: "dk_config s = Some c"
    using step_connect_call [OF assms] by (cases "dk_config s") (auto simp: connectionConfigIssue_def)
  then have "js_trim (serverUrl c) \<noteq> [] \<and> js_trim (config_token c) \<noteq> [] \<and>
      (if transport c = js ''quic'' then js_trim (quicAddress c) \<noteq> [] else js_trim (dataAddress c) \<noteq> [])"
    using step_connect_call [OF assms] config_issue_none [of c] by simp
  moreover have "refused u (issue_message issue) (issue_section issue)"
    if "connectionConfigIssue (map_option draft_of (dk_config u)) = Some issue" for u issue
    using that by (simp add: refused_def runConnectionAction_def notify_def)
  note refused_issue = this [of _ "\<lparr>issue_message = m, issue_section = x\<rparr>" for m x, simplified]
  ultimately show ?thesis
    using c by (auto intro!: refused_issue simp: connectionConfigIssue_def draft_of_def blank_def issue_server_def issue_quic_def issue_data_def issue_token_def)
qed

theorem connect_needs_a_complete_configuration_witness:
  "\<exists>c. dk_config (desktop_initial\<lparr>dk_snapshot := Some (makePreviewSnapshot [] [] 0)\<rparr>) = Some c \<and> js_trim (serverUrl c) \<noteq> []"
proof -
  let ?s = "desktop_initial\<lparr>dk_snapshot := Some (makePreviewSnapshot [] [] 0)\<rparr>"
  have "connectionConfigIssue (map_option draft_of (dk_config ?s)) = None"
    by (simp add: dk_config_def config_issue_none makePreviewSnapshot_def) (simp add: js_trim_def js_space_def js_def)
  then have "dk_calls (runConnectionAction True ?s) = dk_calls ?s @ [Connect]"
    by (simp add: runConnectionAction_def ask_def)
  moreover have "desktop_step True (makePreviewSnapshot [] []) ?s (runConnectionAction True ?s)"
    by (rule desktop_step.connection) (simp add: desktop_initial_def)
  ultimately show ?thesis
    using connect_needs_a_complete_configuration [of True "makePreviewSnapshot [] []" ?s] by blast
qed

end
