(* ===== verification/Desktop_Canvas.thy ===== *)
theory Desktop_Canvas
  imports Desktop_Traffic
begin

text \<open>
  The component \<open>TrafficCanvas\<close> of \<open>TrafficChart.tsx\<close> with its two effects: the size that the
  observer reports, and the drawing, which waits for an animation frame. The frames the browser
  holds are a list of handles with the commands their callbacks will give; \<open>cv_frame\<close> is
  \<open>frameRef\<close>. Setting the width of a canvas clears it.
\<close>

record canvas =
  cv_points :: "traffic_point list"
  cv_detailed :: bool
  cv_size :: "int \<times> int"
  cv_previous :: "rat \<times> rat"
  cv_frame :: "nat option"
  cv_cleanup :: bool
  cv_scheduled :: "(nat \<times> canvas_cmd list) list"
  cv_handle :: nat
  cv_ratio :: rat
  cv_pixels :: "int \<times> int"
  cv_drawn :: "canvas_cmd list"
  cv_mounted :: bool

definition round_half_up :: "rat \<Rightarrow> int" where
  "round_half_up x = \<lfloor>x + 1 / 2\<rfloor>"

definition cancel_frame :: "canvas \<Rightarrow> canvas" where
  "cancel_frame c =
     (case cv_frame c of None \<Rightarrow> c | Some h \<Rightarrow> c\<lparr>cv_scheduled := filter (\<lambda>f. fst f \<noteq> h) (cv_scheduled c)\<rparr>)"

definition request_frame :: "canvas_cmd list \<Rightarrow> canvas \<Rightarrow> canvas" where
  "request_frame cmds c =
     c\<lparr>cv_scheduled := cv_scheduled c @ [(Suc (cv_handle c), cmds)], cv_handle := Suc (cv_handle c), cv_frame := Some (Suc (cv_handle c))\<rparr>"

text \<open>The second effect; \<open>dpr\<close> is \<open>window.devicePixelRatio\<close>, 0 when the browser has none. It returns a
  function that cancels the frame, except when the canvas has no size.\<close>

definition draw_effect :: "rat \<Rightarrow> canvas \<Rightarrow> canvas" where
  "draw_effect dpr c =
     (let (width, height) = cv_size c in
      if width \<le> 0 \<or> height \<le> 0 then c\<lparr>cv_cleanup := False\<rparr>
      else
        (let ratio = min (if dpr = 0 then 1 else dpr) 2;
             final = last_point (cv_points c); start = cv_previous c;
             upload = fst start + (fst final - fst start);
             download = snd start + (snd final - snd start);
             c' = cancel_frame
               (c\<lparr>cv_pixels := (round_half_up (of_int width * ratio), round_half_up (of_int height * ratio)), cv_drawn := [],
                  cv_ratio := ratio, cv_previous := final\<rparr>)
         in (request_frame
               (drawChart (cv_points c) (of_int width) (of_int height) ratio (cv_detailed c) upload download) c')
               \<lparr>cv_cleanup := True\<rparr>))"

definition run_cleanup :: "canvas \<Rightarrow> canvas" where
  "run_cleanup c = (if cv_cleanup c then (cancel_frame c)\<lparr>cv_cleanup := False\<rparr> else c)"

text \<open>A render in which the points or the size changed runs the cleanup and the effect again. The size is a
  new object every time the observer reports.\<close>

definition redraw :: "rat \<Rightarrow> canvas \<Rightarrow> canvas" where
  "redraw dpr c = draw_effect dpr (run_cleanup c)"

definition updateSize :: "rat \<Rightarrow> rat \<Rightarrow> rat \<Rightarrow> canvas \<Rightarrow> canvas" where
  "updateSize dpr width height c = redraw dpr (c\<lparr>cv_size := (round_half_up width, round_half_up height)\<rparr>)"

definition TrafficCanvas :: "bool \<Rightarrow> traffic_point list \<Rightarrow> rat \<Rightarrow> rat \<Rightarrow> rat \<Rightarrow> canvas" where
  "TrafficCanvas detailed points dpr width height =
     updateSize dpr width height
       \<lparr>cv_points = points, cv_detailed = detailed, cv_size = (0, 0), cv_previous = (0, 0), cv_frame = None, cv_cleanup = False,
        cv_scheduled = [], cv_handle = 0, cv_ratio = 1, cv_pixels = (300, 150), cv_drawn = [], cv_mounted = True\<rparr>"

definition TrafficSparkline :: "traffic_point list \<Rightarrow> rat \<Rightarrow> rat \<Rightarrow> rat \<Rightarrow> canvas" where
  "TrafficSparkline = TrafficCanvas False"

definition TrafficTrend :: "traffic_point list \<Rightarrow> rat \<Rightarrow> rat \<Rightarrow> rat \<Rightarrow> canvas" where
  "TrafficTrend = TrafficCanvas True"

text \<open>The browser runs the callbacks it holds, once.\<close>

definition run_frames :: "canvas \<Rightarrow> canvas" where
  "run_frames c = c\<lparr>cv_drawn := cv_drawn c @ concat (map snd (cv_scheduled c)), cv_scheduled := []\<rparr>"

datatype canvas_event = Resized rat rat rat | Points_Changed rat "traffic_point list" | Frame | Unmounted

fun canvas_step :: "canvas \<Rightarrow> canvas_event \<Rightarrow> canvas" where
  "canvas_step c (Resized dpr width height) = (if cv_mounted c then updateSize dpr width height c else c)"
| "canvas_step c (Points_Changed dpr points) = (if cv_mounted c then redraw dpr (c\<lparr>cv_points := points\<rparr>) else c)"
| "canvas_step c Frame = run_frames c"
| "canvas_step c Unmounted = (run_cleanup c)\<lparr>cv_mounted := False\<rparr>"

subsection \<open>The picture is never stale\<close>

text \<open>What the canvas should show. The interpolation between the last values comes out at the newest ones.\<close>

definition picture :: "canvas \<Rightarrow> canvas_cmd list" where
  "picture c =
     drawChart (cv_points c) (of_int (fst (cv_size c))) (of_int (snd (cv_size c))) (cv_ratio c) (cv_detailed c)
       (fst (last_point (cv_points c))) (snd (last_point (cv_points c)))"

definition has_area :: "canvas \<Rightarrow> bool" where
  "has_area c \<longleftrightarrow> 0 < fst (cv_size c) \<and> 0 < snd (cv_size c)"

definition drawn_or_due :: "canvas \<Rightarrow> bool" where
  "drawn_or_due c \<longleftrightarrow>
     (cv_scheduled c = [] \<and> cv_drawn c = picture c \<or>
      (\<exists>h. cv_scheduled c = [(h, picture c)] \<and> cv_frame c = Some h) \<and> cv_drawn c = [])"

definition canvas_inv :: "canvas \<Rightarrow> bool" where
  "canvas_inv c \<longleftrightarrow>
     (\<forall>f \<in> set (cv_scheduled c). cv_frame c = Some (fst f)) \<and>
     (cv_cleanup c \<longleftrightarrow> cv_mounted c \<and> has_area c) \<and>
     (if cv_cleanup c then drawn_or_due c else cv_scheduled c = [])"

lemma cleanup_nothing_due:
  assumes "canvas_inv c"
  shows "cv_scheduled (run_cleanup c) = []"
  using assms
  by (cases "cv_scheduled c") (auto simp: canvas_inv_def run_cleanup_def cancel_frame_def filter_empty_conv split: option.splits)

lemma cleanup_fields [simp]:
  "cv_points (run_cleanup c) = cv_points c" "cv_size (run_cleanup c) = cv_size c" "cv_mounted (run_cleanup c) = cv_mounted c"
  "cv_detailed (run_cleanup c) = cv_detailed c" "\<not> cv_cleanup (run_cleanup c)"
  by (simp_all add: run_cleanup_def cancel_frame_def split: option.splits)

lemma inv_draw_effect:
  assumes "cv_scheduled c = []" "cv_mounted c"
  shows "canvas_inv (draw_effect dpr c)"
proof (cases "has_area c")
  case True
  then show ?thesis
    using assms
    by (auto simp: draw_effect_def has_area_def canvas_inv_def drawn_or_due_def picture_def request_frame_def cancel_frame_def Let_def
        split: prod.splits option.splits)
next
  case False
  then have "draw_effect dpr c = c\<lparr>cv_cleanup := False\<rparr>"
    by (auto simp: draw_effect_def has_area_def split: prod.splits)
  then show ?thesis
    using assms False by (simp add: canvas_inv_def has_area_def)
qed

lemma inv_redraw:
  assumes "cv_scheduled (run_cleanup c) = []" "cv_mounted c"
  shows "canvas_inv (redraw dpr c)"
  unfolding redraw_def by (rule inv_draw_effect) (use assms in auto)

lemma cleanup_size: "run_cleanup (c\<lparr>cv_size := z\<rparr>) = (run_cleanup c)\<lparr>cv_size := z\<rparr>"
  "run_cleanup (c\<lparr>cv_points := ps\<rparr>) = (run_cleanup c)\<lparr>cv_points := ps\<rparr>"
  by (simp_all add: run_cleanup_def cancel_frame_def split: option.splits)

lemma inv_canvas_step:
  assumes "canvas_inv c"
  shows "canvas_inv (canvas_step c e)"
proof (cases e)
  case Frame
  then show ?thesis
    using assms by (auto simp: canvas_inv_def run_frames_def drawn_or_due_def picture_def has_area_def)
next
  case Unmounted
  then show ?thesis
    using cleanup_nothing_due [OF assms] by (simp add: canvas_inv_def)
next
  case (Resized dpr w h)
  then show ?thesis
    using assms cleanup_nothing_due [OF assms] by (auto simp: updateSize_def cleanup_size intro!: inv_redraw)
next
  case (Points_Changed dpr ps)
  then show ?thesis
    using assms cleanup_nothing_due [OF assms] by (auto simp: cleanup_size intro!: inv_redraw)
qed

lemma inv_canvas_run: "canvas_inv (foldl canvas_step (TrafficCanvas detailed points dpr width height) es)"
proof (induction es rule: rev_induct)
  case Nil
  show ?case
    by (simp add: TrafficCanvas_def updateSize_def, rule inv_redraw) (simp_all add: run_cleanup_def)
next
  case (snoc e es)
  then show ?case
    by (simp add: inv_canvas_step)
qed

text \<open>Whatever resizes, new points and frames came: at most one frame is under way; as soon as the browser has
  run it, a canvas that has an area shows the newest points at the size it has; and after the component is gone
  nothing is drawn any more.\<close>

lemma chart_shows_the_newest_points:
  assumes "c = foldl canvas_step (TrafficCanvas detailed points dpr width height) es"
  shows "length (cv_scheduled c) \<le> 1" "cv_mounted c \<Longrightarrow> has_area c \<Longrightarrow> cv_drawn (run_frames c) = picture c"
    "\<not> cv_mounted c \<Longrightarrow> canvas_step c e = c\<lparr>cv_cleanup := False, cv_mounted := False\<rparr>"
proof -
  have inv: "canvas_inv c"
    using inv_canvas_run assms by simp
  then show "length (cv_scheduled c) \<le> 1" "cv_mounted c \<Longrightarrow> has_area c \<Longrightarrow> cv_drawn (run_frames c) = picture c"
    by (auto simp: canvas_inv_def drawn_or_due_def run_frames_def split: if_splits)
  show "canvas_step c e = c\<lparr>cv_cleanup := False, cv_mounted := False\<rparr>" if "\<not> cv_mounted c"
    using inv that by (cases e) (auto simp: canvas_inv_def run_frames_def run_cleanup_def)
qed

end
