(* ===== verification/Desktop_Views.thy ===== *)
theory Desktop_Views
  imports Desktop_App Desktop_Canvas
begin

text \<open>
  What the desktop client shows: \<open>HomeView.tsx\<close>, \<open>TunnelDetailView.tsx\<close>, \<open>SettingsView.tsx\<close>
  and the choice between them in \<open>App.tsx\<close>. A view is the record of the texts and states its
  JSX puts on the screen. The parameters are those of the helpers: reading and printing a
  date, the URL parser, the current time.
\<close>

record world =
  w_parse_date :: read_date
  w_print_date :: "int \<Rightarrow> js_string"
  w_parse_url :: url_parser
  w_now :: int

subsection \<open>Labels\<close>

definition pathLabel :: "js_string option \<Rightarrow> js_string" where
  "pathLabel path =
     (if path = Some (js ''p2p'') then js ''P2P'' else if path = Some (js ''relay'') then js ''Relay''
      else if path = Some (js ''visitor_p2p'') then [0x8BBF, 0x5BA2, 0x20, 0x50, 0x32, 0x50]
      else if path = Some (js ''visitor_relay'') then [0x8BBF, 0x5BA2, 0x20, 0x52, 0x65, 0x6C, 0x61, 0x79] else [0x672A, 0x77E5])"

definition pathClass :: "js_string option \<Rightarrow> js_string" where
  "pathClass path =
     (if path = Some (js ''p2p'') then js ''p2p'' else if path = Some (js ''relay'') then js ''relay''
      else if path = Some (js ''visitor_p2p'') then js ''visitor-p2p''
      else if path = Some (js ''visitor_relay'') then js ''visitor-relay'' else js ''unknown'')"

definition pathLabel_detail :: "js_string option \<Rightarrow> js_string" where
  "pathLabel_detail path =
     (if path = Some (js ''p2p'') then js ''P2P'' else if path = Some (js ''relay'') then js ''Relay''
      else if path = Some (js ''visitor_p2p'') then [0x8BBF, 0x5BA2, 0x20, 0x50, 0x32, 0x50]
      else if path = Some (js ''visitor_relay'') then [0x8BBF, 0x5BA2, 0x20, 0x52, 0x65, 0x6C, 0x61, 0x79] else [0x672A, 0x77E5])"

definition pathClass_detail :: "js_string option \<Rightarrow> js_string" where
  "pathClass_detail path =
     (if \<not> truthy_opt path then []
      else if path = Some (js ''p2p'') then js ''path-p2p'' else if path = Some (js ''relay'') then js ''path-relay''
      else if path = Some (js ''visitor_p2p'') then js ''path-visitor-p2p''
      else if path = Some (js ''visitor_relay'') then js ''path-visitor-relay'' else js ''path-unknown'')"

definition statusLabel :: "js_string \<Rightarrow> js_string" where
  "statusLabel s =
     (if s = js ''running'' then [0x8FD0, 0x884C, 0x4E2D] else if s = js ''error'' then [0x5F02, 0x5E38] else [0x5DF2, 0x505C, 0x6B62])"

definition formatRate_desktop :: "rat \<Rightarrow> js_string" where
  "formatRate_desktop v =
     (if 1024 \<le> v then toFixed (v / 1024) 1 @ js '' MB/s'' else toFixed v 1 @ js '' KB/s'')"

definition serverName :: "url_parser \<Rightarrow> js_string option \<Rightarrow> js_string" where
  "serverName parse v =
     (if \<not> truthy_opt v then [0x672A, 0x914D, 0x7F6E, 0x670D, 0x52A1, 0x5668]
      else case parse (the v) of None \<Rightarrow> the v | Some u \<Rightarrow> host_text u)"

definition sectionTitle :: "settings_section \<Rightarrow> js_string" where
  "sectionTitle s =
     (case s of Network \<Rightarrow> [0x7F51, 0x7EDC, 0x8BBE, 0x7F6E] | Connection \<Rightarrow> [0x8FDE, 0x63A5, 0x8BBE, 0x7F6E] | _ \<Rightarrow> [0x5E38, 0x89C4, 0x8BBE, 0x7F6E])"

definition txt_connected :: "bool \<Rightarrow> js_string" where
  "txt_connected c = (if c then [0x5DF2, 0x8FDE, 0x63A5] else [0x672A, 0x8FDE, 0x63A5])"

definition is_connected :: "runtime_status option \<Rightarrow> bool" where
  "is_connected st = (case st of None \<Rightarrow> False | Some s \<Rightarrow> connected s)"

definition started_at :: "runtime_status option \<Rightarrow> js_string option" where
  "started_at st = Option.bind st lastStartedAt"

definition items :: "'a list option \<Rightarrow> 'a list" where
  "items v = (case v of None \<Rightarrow> [] | Some xs \<Rightarrow> xs)"

definition path_of :: "desktop_snapshot option \<Rightarrow> js_string \<Rightarrow> js_string option" where
  "path_of snap i = map_of (items (Option.bind snap snap_paths)) i"

subsection \<open>The home view (HomeView.tsx)\<close>

record tunnel_row_view =
  trv_online :: bool
  trv_name :: js_string
  trv_label :: js_string
  trv_protocol :: js_string
  trv_path_class :: js_string
  trv_path_label :: js_string
  trv_copy :: "js_string option"

definition TunnelRow :: "url_parser \<Rightarrow> agent_tunnel \<Rightarrow> js_string option \<Rightarrow> js_string \<Rightarrow> js_string \<Rightarrow> tunnel_row_view" where
  "TunnelRow parse t path publicHost server =
     (let e = resolveTunnelEndpoint parse t publicHost server in
      \<lparr>trv_online = (at_status t = js ''running''), trv_name = at_name t, trv_label = ep_label e,
       trv_protocol = toUpperCase (at_protocol t), trv_path_class = pathClass path, trv_path_label = pathLabel path,
       trv_copy = (if truthy_opt (ep_copyValue e) then ep_copyValue e else None)\<rparr>)"

text \<open>A click on copy: the text written to the clipboard, and the notice when that succeeded.\<close>

definition copyEndpoint :: "tunnel_endpoint \<Rightarrow> bool \<Rightarrow> js_string option \<times> notice list" where
  "copyEndpoint e written =
     (if \<not> truthy_opt (ep_copyValue e) then (None, [])
      else (ep_copyValue e, if written then [NoteSuccess [0x8BBF, 0x95EE, 0x5730, 0x5740, 0x5DF2, 0x590D, 0x5236]] else []))"

record update_banner =
  ub_title :: js_string
  ub_message :: js_string
  ub_downloading :: bool
  ub_apply_button :: bool

definition updateNotice :: "update_result option \<Rightarrow> update_banner option" where
  "updateNotice u =
     map_option (\<lambda>u. \<lparr>ub_title = [0x53D1, 0x73B0, 0x65B0, 0x7248, 0x672C, 0x20] @ latestVersion u, ub_message = update_message u,
       ub_downloading = (downloadState u = js ''downloading''), ub_apply_button = ready u\<rparr>) u"

record metric_item =
  mi_class :: js_string
  mi_label :: js_string
  mi_value :: js_string
  mi_compact :: bool

definition Metric_home :: "js_string \<Rightarrow> js_string \<Rightarrow> js_string option \<Rightarrow> bool \<Rightarrow> metric_item" where
  "Metric_home label v tone small =
     \<lparr>mi_class = js ''metric-item '' @ spread tone [], mi_label = label, mi_value = v, mi_compact = small\<rparr>"

record home_view =
  hv_connected :: bool
  hv_status :: js_string
  hv_update :: "update_banner option"
  hv_duration :: js_string
  hv_button :: js_string
  hv_button_loading :: bool
  hv_button_connects :: bool
  hv_feedback :: "js_string option"
  hv_metrics :: "metric_item list"
  hv_points :: "traffic_point list"
  hv_tunnels :: "tunnel_row_view list"
  hv_autostart :: bool
  hv_transport :: js_string
  hv_server :: js_string

definition HomeView :: "world \<Rightarrow> traffic_history \<Rightarrow> desktop_snapshot option \<Rightarrow> bool \<Rightarrow> js_string \<Rightarrow> home_view" where
  "HomeView w history snap is_loading server =
     (let status = map_option snap_status snap; config = map_option snap_config snap;
          tunnels = items (Option.bind snap snap_tunnels); conn = is_connected status;
          publicHost = tunnelPublicHost (w_parse_url w) config;
          total = (case status of None \<Rightarrow> 0 | Some s \<Rightarrow> uploadBytes s + downloadBytes s);
          feedback = connectionStatusMessage status in
      \<lparr>hv_connected = conn, hv_status = txt_connected conn, hv_update = updateNotice (Option.bind snap snap_update),
       hv_duration = formatElapsedTime (w_parse_date w) (started_at status) conn (w_now w),
       hv_button = (if conn then [0x65AD, 0x5F00, 0x8FDE, 0x63A5] else [0x7ACB, 0x5373, 0x8FDE, 0x63A5]), hv_button_loading = is_loading,
       hv_button_connects = (\<not> conn),
       hv_feedback = (if truthy_opt feedback then feedback else None),
       hv_metrics =
         [Metric_home [0x96A7, 0x9053, 0x6570] (nat_text (length tunnels)) None False,
          Metric_home [0x4E0A, 0x4F20, 0x901F, 0x7387] (formatRate_desktop (th_rate_upload history)) (Some (js ''green'')) False,
          Metric_home [0x4E0B, 0x8F7D, 0x901F, 0x7387] (formatRate_desktop (th_rate_download history)) (Some (js ''blue'')) False,
          Metric_home [0x7D2F, 0x8BA1, 0x6D41, 0x91CF] (formatBytes_desktop total) None True],
       hv_points = th_points history,
       hv_tunnels = map (\<lambda>t. TunnelRow (w_parse_url w) t (path_of snap (at_id t)) publicHost server) tunnels,
       hv_autostart = (case config of None \<Rightarrow> False | Some c \<Rightarrow> autoStart c),
       hv_transport = (if map_option transport config = Some (js ''quic'') then js ''QUIC'' else js ''WebSocket''),
       hv_server = serverName (w_parse_url w) (map_option serverUrl config)\<rparr>)"

subsection \<open>The details of a tunnel (TunnelDetailView.tsx)\<close>

record detail_cell =
  dc_label :: js_string
  dc_value :: js_string
  dc_badge :: bool
  dc_accent :: bool
  dc_path_class :: js_string

definition DetailCell :: "js_string \<Rightarrow> js_string \<Rightarrow> bool \<Rightarrow> bool \<Rightarrow> js_string option \<Rightarrow> detail_cell" where
  "DetailCell label v badge accent path =
     \<lparr>dc_label = label, dc_value = v, dc_badge = badge, dc_accent = accent, dc_path_class = pathClass_detail path\<rparr>"

definition local_address :: "agent_tunnel \<Rightarrow> js_string" where
  "local_address t = at_local_host t @ js '':'' @ int_text (at_local_port t)"

text \<open>\<open>new Date(v).toLocaleString()\<close> is \<open>Invalid Date\<close> when \<open>v\<close> cannot be read.\<close>

definition created_text :: "world \<Rightarrow> js_string \<Rightarrow> js_string" where
  "created_text w v = (case w_parse_date w v of None \<Rightarrow> js ''Invalid Date'' | Some t \<Rightarrow> w_print_date w t)"

definition Overview_detail :: "world \<Rightarrow> agent_tunnel \<Rightarrow> runtime_status option \<Rightarrow> js_string option \<Rightarrow> js_string \<Rightarrow> detail_cell list" where
  "Overview_detail w t status path label =
     [DetailCell [0x672C, 0x5730, 0x5730, 0x5740] (local_address t) False False None,
      DetailCell [0x96A7, 0x9053, 0x7C7B, 0x578B] (toUpperCase (at_protocol t)) True False None,
      DetailCell [0x5F53, 0x524D, 0x8DEF, 0x5F84] (pathLabel_detail path) True False path,
      DetailCell [0x521B, 0x5EFA, 0x65F6, 0x95F4] (created_text w (at_created_at t)) False False None,
      DetailCell [0x8FDE, 0x63A5, 0x72B6, 0x6001] (if is_connected status then [0x8FDE, 0x63A5, 0x4E2D] else [0x5DF2, 0x65AD, 0x5F00]) False (is_connected status) None,
      DetailCell [0x8BBF, 0x95EE, 0x5730, 0x5740] label False False None,
      DetailCell [0x8FD0, 0x884C, 0x65F6, 0x957F] (formatElapsedTime (w_parse_date w) (started_at status) (is_connected status) (w_now w)) False False None]"

definition TunnelConfig :: "agent_tunnel \<Rightarrow> detail_cell list" where
  "TunnelConfig t =
     [DetailCell [0x534F, 0x8BAE] (toUpperCase (at_protocol t)) False False None,
      DetailCell [0x672C, 0x5730, 0x76EE, 0x6807] (local_address t) False False None,
      DetailCell [0x8FDC, 0x7A0B, 0x7AEF, 0x53E3] (if at_remote_port t = 0 then js ''-'' else int_text (at_remote_port t)) False False None,
      DetailCell [0x57DF, 0x540D] (if truthy (at_domain t) then at_domain t else js ''-'') False False None,
      DetailCell [0x49, 0x50, 0x20, 0x767D, 0x540D, 0x5355] (str_or (map_option (js_join (js '', '')) (at_ip_allowlist t)) [0x5141, 0x8BB8, 0x5168, 0x90E8]) False False None]"

record detail_view =
  tv_online :: bool
  tv_name :: js_string
  tv_state :: js_string
  tv_label :: js_string
  tv_copy :: "js_string option"
  tv_overview :: "detail_cell list"
  tv_config :: "detail_cell list"
  tv_points :: "traffic_point list"

definition TunnelDetailView ::
  "world \<Rightarrow> traffic_history \<Rightarrow> agent_tunnel \<Rightarrow> runtime_status option \<Rightarrow> js_string option \<Rightarrow> js_string \<Rightarrow> js_string \<Rightarrow> detail_view" where
  "TunnelDetailView w history t status path publicHost server =
     (let e = resolveTunnelEndpoint (w_parse_url w) t publicHost server in
      \<lparr>tv_online = (at_status t = js ''running''), tv_name = at_name t, tv_state = statusLabel (at_status t),
       tv_label = ep_label e, tv_copy = (if truthy_opt (ep_copyValue e) then ep_copyValue e else None),
       tv_overview = Overview_detail w t status path (ep_label e), tv_config = TunnelConfig t,
       tv_points = th_points history\<rparr>)"

subsection \<open>The settings (SettingsView.tsx)\<close>

record log_line_view =
  llv_class :: js_string
  llv_level :: js_string
  llv_text :: js_string

definition LogsPanel :: "world \<Rightarrow> desktop_log list \<Rightarrow> js_string \<times> js_string \<times> log_line_view list" where
  "LogsPanel w logs =
     ([0x6700, 0x8FD1, 0x20] @ nat_text (length logs) @ [0x20, 0x6761],
      [0x65E5, 0x5FD7, 0x4E2D, 0x7684, 0x20, 0x54, 0x6F, 0x6B, 0x65, 0x6E, 0x20, 0x5DF2,
    0x81EA, 0x52A8, 0x8131, 0x654F],
      map (\<lambda>e. \<lparr>llv_class = toLowerCase (log_level e), llv_level = log_level e,
        llv_text = logLine (w_parse_date w) (w_print_date w) e\<rparr>) (rev logs))"

record about_view =
  ab_version :: js_string
  ab_connected :: js_string
  ab_started :: js_string
  ab_checking :: bool
  ab_apply_button :: bool

definition AboutPanel :: "world \<Rightarrow> runtime_status option \<Rightarrow> update_result option \<Rightarrow> bool \<Rightarrow> about_view" where
  "AboutPanel w status update updateLoading =
     \<lparr>ab_version = (case status of None \<Rightarrow> js ''1.0.0'' | Some s \<Rightarrow> version s),
      ab_connected = txt_connected (is_connected status),
      ab_started = formatTime (w_parse_date w) (w_print_date w) (started_at status),
      ab_checking = updateLoading,
      ab_apply_button = (case update of None \<Rightarrow> False | Some u \<Rightarrow> ready u)\<rparr>"

text \<open>The fields of a panel with the message shown when a required one is empty.\<close>

type_synonym form_field = "js_string \<times> js_string \<times> js_string option"

definition GeneralPanel :: "form_field list" where
  "GeneralPanel = [([0x5F00, 0x673A, 0x542F, 0x52A8], js ''autoStart'', None)]"

definition NetworkPanel :: "form_field list" where
  "NetworkPanel =
     [([0x63A7, 0x5236, 0x670D, 0x52A1, 0x5668], js ''serverUrl'', Some [0x8BF7, 0x8F93, 0x5165, 0x63A7, 0x5236, 0x670D, 0x52A1, 0x5668, 0x5730, 0x5740]),
      ([0x6570, 0x636E, 0x901A, 0x9053], js ''dataAddress'', Some [0x8BF7, 0x8F93, 0x5165, 0x6570, 0x636E, 0x901A, 0x9053, 0x5730, 0x5740]),
      ([0x4F20, 0x8F93, 0x534F, 0x8BAE], js ''transport'', None), ([0x51, 0x55, 0x49, 0x43, 0x20, 0x5730, 0x5740], js ''quicAddress'', None)]"

definition ConnectionPanel :: "form_field list" where
  "ConnectionPanel =
     [([0x8BBE, 0x5907, 0x540D, 0x79F0], js ''name'', None), ([0x8BBE, 0x5907, 0x20, 0x49, 0x44], js ''deviceId'', None),
      (js ''Agent Token'', js ''token'', Some [0x8BF7, 0x8F93, 0x5165, 0x20, 0x41, 0x67, 0x65, 0x6E, 0x74, 0x20, 0x54, 0x6F, 0x6B,
    0x65, 0x6E])]"

datatype settings_panel =
    LogsPane "js_string \<times> js_string \<times> log_line_view list"
  | AboutPane about_view
  | FormPane js_string "form_field list" bool

definition settings_nav :: "(js_string \<times> settings_section) list" where
  "settings_nav =
     [([0x5E38, 0x89C4, 0x8BBE, 0x7F6E], General), ([0x7F51, 0x7EDC, 0x8BBE, 0x7F6E], Network), ([0x8FDE, 0x63A5, 0x8BBE, 0x7F6E], Connection),
      ([0x8FD0, 0x884C, 0x65E5, 0x5FD7], Logs), ([0x5173, 0x4E8E, 0x20, 0x4E, 0x72, 0x79, 0x6E, 0x65, 0x74], About)]"

definition NavItem :: "js_string \<Rightarrow> bool \<Rightarrow> js_string \<times> js_string" where
  "NavItem label active = (js ''settings-nav-item '' @ (if active then js ''active'' else []), label)"

record settings_view =
  sv_nav :: "(js_string \<times> js_string) list"
  sv_panel :: settings_panel

definition SettingsView ::
  "world \<Rightarrow> settings_section \<Rightarrow> runtime_status option \<Rightarrow> desktop_log list \<Rightarrow> bool \<Rightarrow> update_result option \<Rightarrow> bool \<Rightarrow> settings_view" where
  "SettingsView w section status logs is_loading update updateLoading =
     \<lparr>sv_nav = map (\<lambda>(label, s). NavItem label (s = section)) settings_nav,
      sv_panel =
        (case section of
           Logs \<Rightarrow> LogsPane (LogsPanel w logs)
         | About \<Rightarrow> AboutPane (AboutPanel w status update updateLoading)
         | General \<Rightarrow> FormPane (sectionTitle section) GeneralPanel is_loading
         | Network \<Rightarrow> FormPane (sectionTitle section) NetworkPanel is_loading
         | Connection \<Rightarrow> FormPane (sectionTitle section) ConnectionPanel is_loading)\<rparr>"

text \<open>The effect of the view fills the form from the configuration until the user touched it.\<close>

definition settings_effect :: "bool \<Rightarrow> app_config \<Rightarrow> app_config option \<Rightarrow> app_config option" where
  "settings_effect touched config form = (if touched then form else Some config)"

subsection \<open>The choice of the view (App.tsx)\<close>

datatype desktop_screen = HomeScreen home_view | DetailScreen detail_view | SettingsScreen settings_view

definition selectedTunnel :: "desktop \<Rightarrow> agent_tunnel option" where
  "selectedTunnel s =
     (case dk_route s of
        TunnelRoute i \<Rightarrow> List.find (\<lambda>t. at_id t = i) (items (Option.bind (dk_snapshot s) snap_tunnels))
      | _ \<Rightarrow> None)"

definition DesktopApp :: "world \<Rightarrow> traffic_history \<Rightarrow> desktop \<Rightarrow> desktop_screen" where
  "DesktopApp w history s =
     (let snap = dk_snapshot s; config = spread (dk_config s) emptyConfig; status = map_option snap_status snap in
      case dk_route s of
        SettingsRoute section \<Rightarrow>
          SettingsScreen (SettingsView w section status (items (Option.bind snap snap_logs)) (dk_loading s)
            (Option.bind snap snap_update) (dk_update_loading s))
      | _ \<Rightarrow>
          (case selectedTunnel s of
             Some t \<Rightarrow>
               DetailScreen (TunnelDetailView w history t status (path_of snap (at_id t))
                 (tunnelPublicHost (w_parse_url w) (Some config)) (serverUrl config))
           | None \<Rightarrow> HomeScreen (HomeView w history snap (dk_loading s) (serverUrl config))))"

subsection \<open>Lemmas\<close>

lemma selected_tunnel_is_current:
  "selectedTunnel s = Some t \<Longrightarrow>
   t \<in> set (items (Option.bind (dk_snapshot s) snap_tunnels)) \<and> dk_route s = TunnelRoute (at_id t)"
  by (auto simp: selectedTunnel_def find_Some_iff split: app_route.splits)

lemma detail_screen_tunnel:
  assumes "DesktopApp w history s = DetailScreen v"
  obtains t where "selectedTunnel s = Some t" "tv_name v = at_name t"
  using assms
  by (auto simp: DesktopApp_def TunnelDetailView_def Let_def split: app_route.splits option.splits)

subsection \<open>Properties\<close>

text \<open>
  The detail page is shown only for a tunnel of the current snapshot: when a refresh
  brings a snapshot without the tunnel that is open, the home view is shown.
\<close>

lemma removed_tunnel_returns_home:
  assumes "dk_route s = TunnelRoute i"
    and "\<forall>t \<in> set (items (snap_tunnels next)). at_id t \<noteq> i"
  shows "\<exists>v. DesktopApp w history (snapshot_answered dev preview OnTimer (Inr next) s) = HomeScreen v"
proof -
  have "selectedTunnel (snapshot_answered dev preview OnTimer (Inr next) s) = None"
    using assms by (auto simp: selectedTunnel_def snapshot_answered_def resume_def find_None_iff)
  moreover have "dk_route (snapshot_answered dev preview OnTimer (Inr next) s) = TunnelRoute i"
    using assms(1) by (simp add: snapshot_answered_def resume_def)
  ultimately show ?thesis
    by (simp add: DesktopApp_def Let_def)
qed

end
