(* ===== verification/Bytes.thy ===== *)
theory Bytes
  imports Js_Prelude
begin

text \<open>
  Byte arrays and Base64, as the visitor page and its service worker use them: \<open>btoa\<close> and
  \<open>atob\<close> of the web platform, and the loops \<open>toBase64\<close> and \<open>fromBase64\<close> that both scripts
  wrap around them. \<open>blocks\<close> is the loop that takes a byte array apart in steps of fixed
  length. Decoding undoes encoding, whatever the step of the loop.
\<close>

type_synonym byte = "8 word"

subsection \<open>Blocks\<close>

text \<open>\<open>for (i = 0; i < xs.length; i += k) xs.subarray(i, i + k)\<close> for a positive \<open>k\<close>\<close>

function blocks :: "nat \<Rightarrow> 'a list \<Rightarrow> 'a list list" where
  "blocks k xs = (if xs = [] \<or> k = 0 then [] else take k xs # blocks k (drop k xs))"
  by pat_completeness auto

termination blocks
  by (relation "measure (\<lambda>(k, xs). length xs)") auto

declare blocks.simps [simp del]

lemma blocks_Nil [simp]: "blocks k [] = []"
  by (simp add: blocks.simps)

lemma concat_blocks [simp]: "0 < k \<Longrightarrow> concat (blocks k xs) = xs"
proof (induction k xs rule: blocks.induct)
  case (1 k xs)
  then show ?case
    by (subst blocks.simps) simp
qed

lemma block_length: "b \<in> set (blocks k xs) \<Longrightarrow> 0 < length b \<and> length b \<le> k"
proof (induction k xs rule: blocks.induct)
  case (1 k xs)
  then show ?case
    by (subst (asm) (2) blocks.simps) (auto split: if_splits)
qed

lemma length_blocks: "0 < k \<Longrightarrow> length (blocks k xs) = (length xs + k - 1) div k"
proof (induction k xs rule: blocks.induct)
  case (1 k xs)
  show ?case
  proof (cases "xs = []")
    case False
    have rest: "length (blocks k (drop k xs)) = (length xs - k + k - 1) div k"
      using 1 False by simp
    have "length (blocks k xs) = Suc (length (blocks k (drop k xs)))"
      using False 1(2) by (subst blocks.simps) simp
    also have "\<dots> = (length xs + k - 1) div k"
    proof (cases "k \<le> length xs")
      case True
      then have "length xs + k - 1 = (length xs - k + k - 1) + k"
        using 1(2) by simp
      then show ?thesis
        using 1(2) rest by (metis add.right_neutral add_Suc_right div_add_self2 not_gr_zero One_nat_def Suc_eq_plus1)
    next
      case small: False
      then have "(length xs + k - 1) div k = 1"
        using False 1(2) by (intro div_nat_eqI) (cases xs; simp)+
      then show ?thesis
        using small rest 1(2) by simp
    qed
    finally show ?thesis .
  qed (use 1(2) in simp)
qed

subsection \<open>Base64\<close>

definition b64_char :: "nat \<Rightarrow> 16 word" where
  "b64_char n =
     (if n < 26 then 0x41 + of_nat n else if n < 52 then 0x47 + of_nat n
      else if n < 62 then of_nat n - 0x4 else if n = 62 then 0x2B else 0x2F)"

definition b64_val :: "16 word \<Rightarrow> nat option" where
  "b64_val c =
     (if 0x41 \<le> c \<and> c \<le> 0x5A then Some (unat c - 0x41)
      else if 0x61 \<le> c \<and> c \<le> 0x7A then Some (unat c - 0x47)
      else if 0x30 \<le> c \<and> c \<le> 0x39 then Some (unat c + 0x4)
      else if c = 0x2B then Some 62 else if c = 0x2F then Some 63 else None)"

text \<open>The sextets of a byte string; the padding is added by \<open>b64_encode\<close>.\<close>

fun sextets :: "nat list \<Rightarrow> nat list" where
  "sextets [] = []"
| "sextets [a] = [a div 4, a mod 4 * 16]"
| "sextets [a, b] = [a div 4, a mod 4 * 16 + b div 16, b mod 16 * 4]"
| "sextets (a # b # c # r) = a div 4 # (a mod 4 * 16 + b div 16) # (b mod 16 * 4 + c div 64) # c mod 64 # sextets r"

fun octets :: "nat list \<Rightarrow> nat list" where
  "octets (a # b # c # d # r) = (a * 4 + b div 16) # (b mod 16 * 16 + c div 4) # (c mod 4 * 64 + d) # octets r"
| "octets [a, b, c] = [a * 4 + b div 16, b mod 16 * 16 + c div 4]"
| "octets [a, b] = [a * 4 + b div 16]"
| "octets _ = []"

definition padding :: "nat \<Rightarrow> js_string" where
  "padding n = (if n mod 3 = 1 then [0x3D, 0x3D] else if n mod 3 = 2 then [0x3D] else [])"

text \<open>\<open>None\<close> is the \<open>InvalidCharacterError\<close> for a unit that is not a byte.\<close>

definition btoa :: "js_string \<Rightarrow> js_string option" where
  "btoa s =
     (if list_all (\<lambda>c. c < 0x100) s then Some (map b64_char (sextets (map unat s)) @ padding (length s)) else None)"

definition ascii_space :: "16 word \<Rightarrow> bool" where
  "ascii_space c \<longleftrightarrow> c = 0x9 \<or> c = 0xA \<or> c = 0xC \<or> c = 0xD \<or> c = 0x20"

definition strip_padding :: "js_string \<Rightarrow> js_string" where
  "strip_padding s =
     (if length s mod 4 \<noteq> 0 then s
      else if suffix [0x3D, 0x3D] s then take (length s - 2) s
      else if suffix [0x3D] s then take (length s - 1) s else s)"

text \<open>The forgiving decoder: blanks are dropped, the padding is optional.\<close>

definition atob :: "js_string \<Rightarrow> js_string option" where
  "atob s =
     (let t = strip_padding (filter (\<lambda>c. \<not> ascii_space c) s) in
      if length t mod 4 = 1 \<or> list_ex (\<lambda>c. b64_val c = None) t then None
      else Some (map of_nat (octets (map (the \<circ> b64_val) t))))"

subsection \<open>The loops of the scripts\<close>

definition fromCharCode :: "byte list \<Rightarrow> js_string" where
  "fromCharCode bs = map ucast bs"

definition toBase64 :: "byte list \<Rightarrow> js_string option" where
  "toBase64 bytes = btoa (concat (map fromCharCode (blocks 0x8000 bytes)))"

text \<open>Writing a character code into a byte array keeps its low eight bits.\<close>

definition fromBase64 :: "js_string \<Rightarrow> byte list option" where
  "fromBase64 v = map_option (map ucast) (atob v)"

subsection \<open>Decoding undoes encoding\<close>

lemma b64_char_val [simp]:
  assumes "n < 64"
  shows "b64_val (b64_char n) = Some n"
proof -
  have "\<forall>n \<in> set [0..<64]. b64_val (b64_char n) = Some n"
    by code_simp
  with assms show ?thesis
    by simp
qed

lemma b64_char_plain:
  assumes "n < 64"
  shows "b64_char n \<noteq> 0x3D \<and> \<not> ascii_space (b64_char n)"
proof -
  have "\<forall>n \<in> set [0..<64]. b64_char n \<noteq> 0x3D \<and> \<not> ascii_space (b64_char n)"
    by code_simp
  with assms show ?thesis
    by simp
qed

lemma sextets_less: "list_all (\<lambda>a. a < 256) bs \<Longrightarrow> list_all (\<lambda>s. s < 64) (sextets bs)"
  by (induction bs rule: sextets.induct) auto

lemma octets_sextets: "list_all (\<lambda>a. a < 256) bs \<Longrightarrow> octets (sextets bs) = bs"
proof (induction bs rule: sextets.induct)
  case (2 a)
  then show ?case
    by simp
next
  case (3 a b)
  then have "(a mod 4 * 16 + b div 16) div 16 = a mod 4" "(a mod 4 * 16 + b div 16) mod 16 = b div 16"
    by auto
  then show ?case
    by simp
next
  case (4 a b c r)
  then have "(a mod 4 * 16 + b div 16) div 16 = a mod 4" "(a mod 4 * 16 + b div 16) mod 16 = b div 16"
    "(b mod 16 * 4 + c div 64) div 4 = b mod 16" "(b mod 16 * 4 + c div 64) mod 4 = c div 64"
    by auto
  then show ?case
    using 4 by simp
qed simp

lemma length_sextets_mod: "length (sextets bs) mod 4 = (if length bs mod 3 = 0 then 0 else Suc (length bs mod 3))"
proof (induction bs rule: sextets.induct)
  case (4 a b c r)
  have "length r mod 3 < 3"
    by simp
  then have "length r mod 3 = 0 \<or> length r mod 3 = 1 \<or> length r mod 3 = 2"
    by linarith
  with 4 show ?case
    by (auto simp: mod_Suc)
qed simp_all

lemma padding_plain: "list_all (\<lambda>c. \<not> ascii_space c) (padding n)"
  by (simp add: padding_def ascii_space_def)

lemma strip_padding_encoded:
  assumes "list_all (\<lambda>s. s < 64) xs" and "length xs mod 4 = (if n mod 3 = 0 then 0 else Suc (n mod 3))"
  shows "strip_padding (map b64_char xs @ padding n) = map b64_char xs"
proof -
  have last: "\<not> suffix (e @ [0x3D]) (map b64_char xs)" for e
  proof
    assume "suffix (e @ [0x3D]) (map b64_char xs)"
    then obtain z where "map b64_char xs = z @ e @ [0x3D]"
      by (auto simp: suffix_def)
    then have "0x3D \<in> set (map b64_char xs)"
      by simp
    then show False
      using assms(1) b64_char_plain by (auto simp: list_all_iff)
  qed
  have "n mod 3 < 3"
    by simp
  then consider "n mod 3 = 0" | "n mod 3 = 1" | "n mod 3 = 2"
    by linarith
  then show ?thesis
  proof cases
    case 1
    then show ?thesis
      using last [of "[]"] last [of "[0x3D]"] by (simp add: strip_padding_def padding_def)
  next
    case 2
    then show ?thesis
      using assms(2) by (simp add: strip_padding_def padding_def suffix_def mod_Suc)
  next
    case 3
    moreover have "\<not> suffix [0x3D, 0x3D] (map b64_char xs @ [0x3D])"
      using last [of "[]"] suffix_snoc [of "[0x3D, 0x3D]" "map b64_char xs" "0x3D"] by auto
    ultimately show ?thesis
      using assms(2) by (simp add: strip_padding_def padding_def mod_Suc)
  qed
qed

lemma atob_btoa:
  assumes "btoa s = Some t"
  shows "atob t = Some s"
proof -
  have bytes: "list_all (\<lambda>a. a < 256) (map unat s)" and t: "t = map b64_char (sextets (map unat s)) @ padding (length s)"
    using assms by (auto simp: btoa_def list_all_iff word_less_nat_alt split: if_splits)
  note small = sextets_less [OF bytes]
  have "filter (\<lambda>c. \<not> ascii_space c) t = t"
    using small b64_char_plain padding_plain [of "length s"] by (auto simp: t filter_id_conv list_all_iff)
  then have strip: "strip_padding (filter (\<lambda>c. \<not> ascii_space c) t) = map b64_char (sextets (map unat s))"
    using strip_padding_encoded [OF small, of "length s"] length_sextets_mod [of "map unat s"] t by simp
  have vals: "map (the \<circ> b64_val) (map b64_char (sextets (map unat s))) = sextets (map unat s)"
    using small by (auto simp: list_all_iff intro!: map_idI)
  have "length (sextets (map unat s)) mod 4 \<noteq> 1"
    using length_sextets_mod [of "map unat s"] by auto
  moreover have "\<not> list_ex (\<lambda>c. b64_val c = None) (map b64_char (sextets (map unat s)))"
    using small by (auto simp: list_ex_iff list_all_iff)
  ultimately have "atob t = Some (map of_nat (octets (sextets (map unat s))))"
    using strip vals by (simp add: atob_def Let_def)
  then show ?thesis
    using octets_sextets [OF bytes] by (simp add: comp_def)
qed

lemma toBase64_some: "toBase64 bs = btoa (fromCharCode bs)" "\<exists>t. toBase64 bs = Some t"
proof -
  show *: "toBase64 bs = btoa (fromCharCode bs)"
  proof -
    have "concat (map fromCharCode (blocks 0x8000 bs)) = map ucast (concat (blocks 0x8000 bs))"
      by (simp only: map_concat) (simp add: fromCharCode_def [abs_def])
    then show ?thesis
      by (simp add: toBase64_def fromCharCode_def)
  qed
  have "ucast b < (0x100 :: 16 word)" for b :: byte
    using unsigned_less [of b, where ?'a = nat] by (simp add: word_less_nat_alt unsigned_ucast_eq take_bit_eq_mod)
  then show "\<exists>t. toBase64 bs = Some t"
    by (simp add: * btoa_def fromCharCode_def list_all_iff)
qed

text \<open>The text that encodes a byte array.\<close>

definition base64 :: "byte list \<Rightarrow> js_string" where
  "base64 bs = the (toBase64 bs)"

lemma toBase64_base64 [simp]: "toBase64 bs = Some (base64 bs)"
  using toBase64_some(2) [of bs] by (auto simp: base64_def)

lemma fromBase64_base64 [simp]: "fromBase64 (base64 bs) = Some bs"
proof -
  have "atob (base64 bs) = Some (fromCharCode bs)"
    using atob_btoa toBase64_base64 [of bs] toBase64_some(1) by simp
  moreover have "map ucast (fromCharCode bs) = bs"
    by (auto simp: fromCharCode_def unsigned_ucast_eq take_bit_word_eq_self intro!: map_idI)
  ultimately show ?thesis
    by (simp add: fromBase64_def)
qed

end
