(* ===== verification/Visitor_Page.thy ===== *)
theory Visitor_Page
  imports Bytes Json Machines
begin

text \<open>
  The script of the visitor page (\<open>server/visitor/page.go\<close>): the broker between the service
  worker of the page and the agent at the other end of the data channel. A fetch of the
  worker becomes frames (\<open>request_start\<close>, \<open>request_chunk\<close> of at most 24576 bytes,
  \<open>request_end\<close>) that go through one queue; frames of the agent go to the port of the
  fetch they belong to.

  A port of the worker is a number, and \<open>vp_posted\<close> lists what was posted to which port. The
  promise chain \<open>state.sendQueue\<close> is the list \<open>vp_queue\<close>: an element is a fetch that awaits
  \<open>sendFrame\<close> with the frame and those that follow; the head runs, and \<open>vp_running\<close> is the
  deadline of its wait for capacity. \<open>vp_accepted\<close> records the fetches that were given an id.
  What the browser decides is an argument of the steps: the time, \<open>bufferedAmount\<close>, and an
  exception of \<open>channel.send\<close>.
\<close>

subsection \<open>Limits and messages\<close>

definition maxPendingRequests :: nat where
  "maxPendingRequests = 256"

definition maxRequestBytes :: nat where
  "maxRequestBytes = 16 * 1024 * 1024"

definition maxBufferedBytes :: nat where
  "maxBufferedBytes = 32 * 1024 * 1024"

definition sendTimeoutMs :: int where
  "sendTimeoutMs = 30000"

definition chunk_bytes :: nat where
  "chunk_bytes = 24576"

type_synonym header_lists = "(js_string \<times> js_string list) list"

record visitor_fetch =
  vf_method :: js_string
  vf_path :: js_string
  vf_headers :: "header_lists option"
  vf_body :: "byte list option"

definition fetch_body :: "visitor_fetch \<Rightarrow> byte list" where
  "fetch_body m = (case vf_body m of None \<Rightarrow> [] | Some b \<Rightarrow> b)"

definition fetch_headers :: "visitor_fetch \<Rightarrow> header_lists" where
  "fetch_headers m = (case vf_headers m of None \<Rightarrow> [] | Some h \<Rightarrow> h)"

definition headers_json :: "header_lists \<Rightarrow> json" where
  "headers_json hs = JObj (map (\<lambda>(n, vs). (n, JArr (map JStr vs))) hs)"

definition frame :: "string \<Rightarrow> js_string \<Rightarrow> (js_string \<times> json) list \<Rightarrow> json" where
  "frame kind i ms = JObj ((js ''kind'', JStr (js kind)) # (js ''id'', JStr i) # ms)"

definition request_start :: "js_string \<Rightarrow> visitor_fetch \<Rightarrow> json" where
  "request_start i m =
     frame ''request_start'' i
       [(js ''method'', JStr (vf_method m)), (js ''path'', JStr (vf_path m)), (js ''headers'', headers_json (fetch_headers m))]"

definition request_chunk :: "js_string \<Rightarrow> byte list \<Rightarrow> json" where
  "request_chunk i b = frame ''request_chunk'' i [(js ''body'', JStr (base64 b))]"

definition request_end :: "js_string \<Rightarrow> json" where
  "request_end i = frame ''request_end'' i []"

text \<open>The frames that \<open>forwardFetch\<close> sends one after the other.\<close>

definition request_frames :: "js_string \<Rightarrow> visitor_fetch \<Rightarrow> json list" where
  "request_frames i m = request_start i m # map (request_chunk i) (blocks chunk_bytes (fetch_body m)) @ [request_end i]"

definition response_error :: "js_string \<Rightarrow> js_string \<Rightarrow> json" where
  "response_error i e = frame ''response_end'' i [(js ''error'', JStr e)]"

subsection \<open>State\<close>

datatype ready_state = Connecting | Open | Closing | Closed

record send_job =
  sj_id :: js_string
  sj_port :: nat
  sj_frame :: json
  sj_rest :: "json list"

record visitor_page =
  vp_pending :: "(js_string \<times> nat) list"
  vp_sequence :: nat
  vp_queue :: "send_job list"
  vp_running :: "int option"
  vp_channel :: "ready_state option"
  vp_sent :: "js_string list"
  vp_posted :: "(nat \<times> json) list"
  vp_status :: "js_string \<times> js_string"
  vp_frame :: "js_string option"
  vp_accepted :: "(js_string \<times> nat \<times> visitor_fetch) list"

definition visitor_initial :: visitor_page where
  "visitor_initial =
     \<lparr>vp_pending = [], vp_sequence = 0, vp_queue = [], vp_running = None, vp_channel = None, vp_sent = [], vp_posted = [],
      vp_status = (js ''Connecting to the visitor tunnel...'', []), vp_frame = None, vp_accepted = []\<rparr>"

definition setStatus :: "js_string \<Rightarrow> js_string \<Rightarrow> visitor_page \<Rightarrow> visitor_page" where
  "setStatus v kind s = s\<lparr>vp_status := (v, kind)\<rparr>"

definition post :: "nat \<Rightarrow> json \<Rightarrow> visitor_page \<Rightarrow> visitor_page" where
  "post port v s = s\<lparr>vp_posted := vp_posted s @ [(port, v)]\<rparr>"

definition delete_key :: "'k \<Rightarrow> ('k \<times> 'v) list \<Rightarrow> ('k \<times> 'v) list" where
  "delete_key k m = filter (\<lambda>e. fst e \<noteq> k) m"

subsection \<open>Sending\<close>

text \<open>The messages of the errors that a task of the queue throws.\<close>

definition not_open :: js_string where
  "not_open = js ''P2P channel is not open''"

definition buffer_full :: js_string where
  "buffer_full = js ''P2P send buffer stayed full''"

text \<open>\<open>error.message || String(error)\<close>\<close>

definition error_text :: "js_string \<Rightarrow> js_string" where
  "error_text e = (if truthy e then e else js ''Error'')"

text \<open>The \<open>catch\<close> of \<open>forwardFetch\<close>\<close>

definition task_failed :: "js_string \<Rightarrow> visitor_page \<Rightarrow> visitor_page" where
  "task_failed e s =
     (case vp_queue s of
        [] \<Rightarrow> s
      | j # js' \<Rightarrow>
          post (sj_port j) (response_error (sj_id j) (error_text e))
            (s\<lparr>vp_queue := js', vp_running := None, vp_pending := delete_key (sj_id j) (vp_pending s)\<rparr>))"

text \<open>\<open>channel.send\<close> and the continuation of \<open>forwardFetch\<close>, which queues the next frame.\<close>

definition task_sent :: "visitor_page \<Rightarrow> visitor_page" where
  "task_sent s =
     (case vp_queue s of
        [] \<Rightarrow> s
      | j # js' \<Rightarrow>
          s\<lparr>vp_sent := vp_sent s @ [stringify (sj_frame j)], vp_running := None,
            vp_queue := js' @ (case sj_rest j of [] \<Rightarrow> [] | f # fs \<Rightarrow> [j\<lparr>sj_frame := f, sj_rest := fs\<rparr>])\<rparr>)"

text \<open>The first part of a task, up to the wait for capacity.\<close>

definition start_task :: "int \<Rightarrow> visitor_page \<Rightarrow> visitor_page" where
  "start_task now s =
     (if vp_channel s \<noteq> Some Open then task_failed not_open s
      else s\<lparr>vp_running := Some (now + sendTimeoutMs)\<rparr>)"

text \<open>One turn of the loop of \<open>waitSendCapacity\<close> and, once there is room, \<open>channel.send\<close>, which
  throws unless the channel is open.\<close>

definition waitSendCapacity :: "int \<Rightarrow> nat \<Rightarrow> js_string option \<Rightarrow> int \<Rightarrow> visitor_page \<Rightarrow> visitor_page" where
  "waitSendCapacity now buffered thrown deadline s =
     (if buffered > maxBufferedBytes
      then if now \<ge> deadline then task_failed buffer_full s else s
      else
        (case thrown of
           Some e \<Rightarrow> task_failed e s
         | None \<Rightarrow> if vp_channel s = Some Open then task_sent s else task_failed not_open s))"

subsection \<open>Requests and responses\<close>

definition forwardFetch :: "visitor_fetch \<Rightarrow> nat \<Rightarrow> visitor_page \<Rightarrow> visitor_page" where
  "forwardFetch m port s =
     (if length (vp_pending s) \<ge> maxPendingRequests then post port (response_error [] (js ''too many visitor requests'')) s
      else if length (fetch_body m) > maxRequestBytes
      then post port (response_error [] (js ''visitor request body is too large'')) s
      else
        (let n = Suc (vp_sequence s); i = nat_text n in
         case request_frames i m of
           [] \<Rightarrow> s
         | f # fs \<Rightarrow>
             s\<lparr>vp_sequence := n, vp_pending := vp_pending s @ [(i, port)],
               vp_queue := vp_queue s @ [\<lparr>sj_id = i, sj_port = port, sj_frame = f, sj_rest = fs\<rparr>],
               vp_accepted := vp_accepted s @ [(i, port, m)]\<rparr>))"

text \<open>A property of a parsed value; reading one of \<open>null\<close> throws, and the handler ends there, as
  it does for a value without an id.\<close>

definition field :: "string \<Rightarrow> json \<Rightarrow> json option" where
  "field k v = (case v of JObj ms \<Rightarrow> map_of ms (js k) | _ \<Rightarrow> None)"

definition is_kind :: "string \<Rightarrow> json \<Rightarrow> bool" where
  "is_kind k v \<longleftrightarrow> field ''kind'' v = Some (JStr (js k))"

definition for_id :: "js_string \<Rightarrow> json \<Rightarrow> bool" where
  "for_id i v \<longleftrightarrow> field ''id'' v = Some (JStr i)"

definition handleFrame :: "js_string \<Rightarrow> visitor_page \<Rightarrow> visitor_page" where
  "handleFrame data s =
     (case JSON_parse data of
        None \<Rightarrow> s
      | Some v \<Rightarrow>
          (case field ''id'' v of
             Some (JStr i) \<Rightarrow>
               (case map_of (vp_pending s) i of
                  None \<Rightarrow> s
                | Some port \<Rightarrow>
                    (let s' = post port v s in
                     if is_kind ''response_end'' v then s'\<lparr>vp_pending := delete_key i (vp_pending s')\<rparr> else s'))
           | _ \<Rightarrow> s))"

definition failPending :: "js_string \<Rightarrow> visitor_page \<Rightarrow> visitor_page" where
  "failPending e s =
     (fold (\<lambda>(i, port). post port (response_error i e)) (vp_pending s) s)\<lparr>vp_pending := []\<rparr>"

subsection \<open>Events of the channel\<close>

definition channel_open :: "js_string \<Rightarrow> visitor_page \<Rightarrow> visitor_page" where
  "channel_open scope_url s =
     (setStatus (js ''P2P connected to Agent'') (js ''ok'') (s\<lparr>vp_channel := Some Open\<rparr>))\<lparr>vp_frame := Some scope_url\<rparr>"

definition channel_closed :: "visitor_page \<Rightarrow> visitor_page" where
  "channel_closed s =
     (setStatus (js ''P2P connection closed'') (js ''err'')
       (failPending (js ''P2P connection closed'') (s\<lparr>vp_channel := Some Closed\<rparr>)))\<lparr>vp_frame := None\<rparr>"

definition channel_error :: "visitor_page \<Rightarrow> visitor_page" where
  "channel_error s =
     setStatus (js ''P2P data channel error'') (js ''err'') (failPending (js ''P2P data channel error'') s)"

subsection \<open>The machine\<close>

text \<open>The keys of a JavaScript object are distinct.\<close>

definition fetch_ok :: "visitor_fetch \<Rightarrow> bool" where
  "fetch_ok m \<longleftrightarrow> distinct (map fst (fetch_headers m))"

text \<open>The worker makes a channel for every fetch, so a port comes with one fetch only.\<close>

definition fresh_port :: "nat \<Rightarrow> visitor_page \<Rightarrow> bool" where
  "fresh_port port s \<longleftrightarrow> port \<notin> fst ` set (vp_posted s) \<and> port \<notin> (fst \<circ> snd) ` set (vp_accepted s)"

text \<open>What happens on the side of the page, and with it the frames that come over the channel.\<close>

inductive broker_step :: "visitor_page \<Rightarrow> visitor_page \<Rightarrow> bool" where
  created: "vp_channel s = None \<Longrightarrow> broker_step s (s\<lparr>vp_channel := Some Connecting\<rparr>)"
| opened: "vp_channel s = Some Connecting \<Longrightarrow> broker_step s (channel_open url s)"
| closing: "vp_channel s = Some Open \<Longrightarrow> broker_step s (s\<lparr>vp_channel := Some Closing\<rparr>)"
| closed: "vp_channel s \<noteq> None \<Longrightarrow> broker_step s (channel_closed s)"
| failed: "vp_channel s \<noteq> None \<Longrightarrow> broker_step s (channel_error s)"
| startup_failed: "broker_step s (setStatus e (js ''err'') s)"
| fetch: "fetch_ok m \<Longrightarrow> fresh_port port s \<Longrightarrow> broker_step s (forwardFetch m port s)"
| start: "vp_queue s \<noteq> [] \<Longrightarrow> vp_running s = None \<Longrightarrow> broker_step s (start_task now s)"
| turn: "vp_queue s \<noteq> [] \<Longrightarrow> vp_running s = Some deadline \<Longrightarrow>
    broker_step s (waitSendCapacity now buffered thrown deadline s)"

inductive visitor_step :: "visitor_page \<Rightarrow> visitor_page \<Rightarrow> bool" where
  local: "broker_step s t \<Longrightarrow> visitor_step s t"
| frame: "vp_channel s \<noteq> None \<Longrightarrow> visitor_step s (handleFrame data s)"

inductive visitor_reachable :: "visitor_page \<Rightarrow> bool" where
  initial: "visitor_reachable visitor_initial"
| step: "visitor_reachable s \<Longrightarrow> visitor_step s t \<Longrightarrow> visitor_reachable t"

subsection \<open>Frames\<close>

lemma field_frame [simp]:
  "field ''id'' (frame k i ms) = Some (JStr i)" "field ''kind'' (frame k i ms) = Some (JStr (js k))"
  by (simp_all add: field_def frame_def)

lemma is_kind_frame [simp]: "is_kind k (frame k' i ms) \<longleftrightarrow> k = k'"
  by (auto simp: is_kind_def)

lemma for_id_frame [simp]: "for_id j (frame k i ms) \<longleftrightarrow> j = i"
  by (auto simp: for_id_def)

lemmas frame_defs = request_start_def request_chunk_def request_end_def response_error_def

lemma headers_json_ok: "distinct (map fst hs) \<Longrightarrow> json_ok (headers_json hs)"
  by (auto simp: headers_json_def comp_def case_prod_beta)

lemma request_frames_ok:
  assumes "fetch_ok m" "f \<in> set (request_frames i m)"
  shows "json_ok f \<and> for_id i f"
  using assms headers_json_ok
  by (auto simp: request_frames_def fetch_ok_def frame_defs) (auto simp: frame_def)

text \<open>The frames with an id among the texts that were sent.\<close>

definition frames_of :: "js_string \<Rightarrow> js_string list \<Rightarrow> json list" where
  "frames_of i ts = filter (for_id i) (List.map_filter JSON_parse ts)"

lemma frames_of_Nil [simp]: "frames_of i [] = []"
  by (simp add: frames_of_def map_filter_def)

lemma frames_of_snoc:
  assumes "json_ok f"
  shows "frames_of i (ts @ [stringify f]) = frames_of i ts @ (if for_id i f then [f] else [])"
  using parse_stringify_json [OF assms] by (simp add: frames_of_def map_filter_def)

subsection \<open>Effects of the operations\<close>

lemma post_fields [simp]:
  "vp_pending (post p v s) = vp_pending s" "vp_sequence (post p v s) = vp_sequence s" "vp_queue (post p v s) = vp_queue s"
  "vp_sent (post p v s) = vp_sent s" "vp_accepted (post p v s) = vp_accepted s" "vp_posted (post p v s) = vp_posted s @ [(p, v)]"
  "vp_running (post p v s) = vp_running s" "vp_channel (post p v s) = vp_channel s"
  by (simp_all add: post_def)

lemma setStatus_fields [simp]:
  "vp_pending (setStatus v k s) = vp_pending s" "vp_sequence (setStatus v k s) = vp_sequence s"
  "vp_queue (setStatus v k s) = vp_queue s" "vp_sent (setStatus v k s) = vp_sent s"
  "vp_accepted (setStatus v k s) = vp_accepted s" "vp_posted (setStatus v k s) = vp_posted s"
  by (simp_all add: setStatus_def)

lemma post_all:
  "fold (\<lambda>(i, port). post port (g i)) ps s = s\<lparr>vp_posted := vp_posted s @ map (\<lambda>(i, port). (port, g i)) ps\<rparr>"
  by (induction ps arbitrary: s) (auto simp: post_def)

lemma failPending_eq:
  "failPending e s = s\<lparr>vp_posted := vp_posted s @ map (\<lambda>(i, port). (port, response_error i e)) (vp_pending s), vp_pending := []\<rparr>"
  by (simp add: failPending_def post_all)

lemmas channel_defs = channel_open_def channel_closed_def channel_error_def failPending_eq

text \<open>What was posted to a port. A log is open while no \<open>response_end\<close> came; it is answered when
  one came and nothing else after it.\<close>

definition is_end :: "json \<Rightarrow> bool" where
  "is_end v \<longleftrightarrow> is_kind ''response_end'' v"

definition port_log :: "nat \<Rightarrow> visitor_page \<Rightarrow> json list" where
  "port_log p s = map snd (filter (\<lambda>e. fst e = p) (vp_posted s))"

definition open_log :: "json list \<Rightarrow> bool" where
  "open_log l \<longleftrightarrow> (\<forall>v \<in> set l. \<not> is_end v)"

definition answered_log :: "json list \<Rightarrow> bool" where
  "answered_log l \<longleftrightarrow> \<not> open_log l \<and> (\<forall>v \<in> set (dropWhile (\<lambda>v. \<not> is_end v) l). is_end v)"

lemma port_log_post [simp]: "port_log q (post p v s) = port_log q s @ (if p = q then [v] else [])"
  by (simp add: port_log_def)

lemma port_log_cong: "vp_posted t = vp_posted s \<Longrightarrow> port_log p t = port_log p s"
  by (simp add: port_log_def)

lemma open_log_simps [simp]: "open_log []" "open_log (l @ [v]) \<longleftrightarrow> open_log l \<and> \<not> is_end v"
  by (auto simp: open_log_def)

lemma answered_log_end: "open_log l \<or> answered_log l \<Longrightarrow> is_end v \<Longrightarrow> answered_log (l @ [v])"
proof (elim disjE)
  assume "open_log l" "is_end v"
  then show ?thesis
    by (simp add: answered_log_def open_log_def dropWhile_append2)
next
  assume "answered_log l" "is_end v"
  then have "\<not> open_log l"
    unfolding answered_log_def by blast
  then obtain x where "x \<in> set l" "is_end x"
    by (auto simp: open_log_def)
  then have "set (dropWhile (\<lambda>v. \<not> is_end v) (l @ [v])) = insert v (set (dropWhile (\<lambda>v. \<not> is_end v) l))"
    using dropWhile_append1 [of x l "\<lambda>v. \<not> is_end v" "[v]"] by simp
  moreover have "\<not> open_log (l @ [v])"
    using \<open>is_end v\<close> by simp
  ultimately show ?thesis
    using \<open>answered_log l\<close> \<open>is_end v\<close> unfolding answered_log_def by (metis insertE)
qed

lemma is_end_response_error [simp]: "is_end (response_error i e)" "for_id j (response_error i e) \<longleftrightarrow> j = i"
  by (simp_all add: is_end_def response_error_def)

lemma set_delete_key [simp]: "e \<in> set (delete_key k m) \<longleftrightarrow> e \<in> set m \<and> fst e \<noteq> k"
  by (auto simp: delete_key_def)

lemma length_delete_key: "length (delete_key k m) \<le> length m"
  by (simp add: delete_key_def)

lemma distinct_delete_key: "distinct (map fst m) \<Longrightarrow> distinct (map fst (delete_key k m))"
  by (simp add: delete_key_def distinct_map_filter)

text \<open>Three operations end a request the same way: a message to its port, and the entry goes.\<close>

definition end_fetch :: "js_string \<Rightarrow> nat \<Rightarrow> json \<Rightarrow> visitor_page \<Rightarrow> visitor_page" where
  "end_fetch i p v s = (post p v s)\<lparr>vp_pending := delete_key i (vp_pending s)\<rparr>"

lemma end_fetch_fields [simp]:
  "vp_accepted (end_fetch i p v s) = vp_accepted s" "vp_sequence (end_fetch i p v s) = vp_sequence s"
  "vp_queue (end_fetch i p v s) = vp_queue s" "vp_sent (end_fetch i p v s) = vp_sent s"
  "vp_pending (end_fetch i p v s) = delete_key i (vp_pending s)"
  "port_log q (end_fetch i p v s) = port_log q s @ (if p = q then [v] else [])"
  by (simp_all add: end_fetch_def port_log_def)

lemma end_all:
  "fold (\<lambda>(i, port). end_fetch i port (g i)) ps s =
     s\<lparr>vp_posted := vp_posted s @ map (\<lambda>(i, port). (port, g i)) ps,
       vp_pending := filter (\<lambda>e. fst e \<notin> fst ` set ps) (vp_pending s)\<rparr>"
  by (induction ps arbitrary: s) (auto simp: end_fetch_def post_def delete_key_def intro!: arg_cong2 [of _ _ _ _ filter])

lemma failPending_fold: "failPending e s = fold (\<lambda>(i, port). end_fetch i port (response_error i e)) (vp_pending s) s"
proof -
  have "filter (\<lambda>x. fst x \<notin> fst ` set (vp_pending s)) (vp_pending s) = []"
    by (auto simp: filter_empty_conv)
  then show ?thesis
    by (simp add: failPending_eq end_all)
qed

lemma handleFrame_cases:
  obtains (ignored) "handleFrame data s = s"
  | (passed) i p v where "JSON_parse data = Some v" "for_id i v" "map_of (vp_pending s) i = Some p" "\<not> is_end v" "handleFrame data s = post p v s"
  | (ends) i p v where "JSON_parse data = Some v" "for_id i v" "map_of (vp_pending s) i = Some p" "is_end v" "handleFrame data s = end_fetch i p v s"
proof (cases "\<exists>v i p. JSON_parse data = Some v \<and> for_id i v \<and> map_of (vp_pending s) i = Some p")
  case True
  then obtain v i p where v: "JSON_parse data = Some v" "for_id i v" "map_of (vp_pending s) i = Some p"
    by blast
  then have "handleFrame data s = (if is_end v then end_fetch i p v s else post p v s)"
    by (simp add: handleFrame_def Let_def for_id_def is_end_def end_fetch_def)
  then show thesis
    using v passed ends by (cases "is_end v") auto
next
  case False
  then have "handleFrame data s = s"
    by (auto simp: handleFrame_def for_id_def split: option.splits json.splits)
  then show thesis
    by (rule ignored)
qed

subsection \<open>Invariant\<close>

text \<open>Every fetch that got an id is within the limits, only its own messages were posted to its
  port, and the port is answered once the fetch is no longer pending.\<close>

fun fetch_inv :: "visitor_page \<Rightarrow> js_string \<times> nat \<times> visitor_fetch \<Rightarrow> bool" where
  "fetch_inv s (i, p, m) \<longleftrightarrow>
     fetch_ok m \<and> length (fetch_body m) \<le> maxRequestBytes \<and> (\<forall>v \<in> set (port_log p s). for_id i v) \<and>
     (if (i, p) \<in> set (vp_pending s) then open_log (port_log p s) else answered_log (port_log p s))"

definition fetches_inv :: "visitor_page \<Rightarrow> bool" where
  "fetches_inv s \<longleftrightarrow>
     map fst (vp_accepted s) = map nat_text [1..<Suc (vp_sequence s)] \<and> distinct (map (fst \<circ> snd) (vp_accepted s)) \<and>
     length (vp_pending s) \<le> maxPendingRequests \<and> distinct (map fst (vp_pending s)) \<and>
     (\<forall>(i, p) \<in> set (vp_pending s). \<exists>m. (i, p, m) \<in> set (vp_accepted s)) \<and>
     (\<forall>a \<in> set (vp_accepted s). fetch_inv s a)"

text \<open>What was sent for a fetch and what is still queued for it are its frames, and a pending
  fetch is queued or was sent to the end.\<close>

definition queue_inv :: "visitor_page \<Rightarrow> bool" where
  "queue_inv s \<longleftrightarrow>
     distinct (map sj_id (vp_queue s)) \<and>
     (\<forall>j \<in> set (vp_queue s). \<exists>m. (sj_id j, sj_port j, m) \<in> set (vp_accepted s) \<and>
        frames_of (sj_id j) (vp_sent s) @ sj_frame j # sj_rest j = request_frames (sj_id j) m) \<and>
     (\<forall>i. frames_of i (vp_sent s) \<noteq> [] \<longrightarrow> i \<in> fst ` set (vp_accepted s)) \<and>
     (\<forall>(i, p, m) \<in> set (vp_accepted s). prefix (frames_of i (vp_sent s)) (request_frames i m) \<and>
        ((i, p) \<in> set (vp_pending s) \<longrightarrow> i \<in> sj_id ` set (vp_queue s) \<or> frames_of i (vp_sent s) = request_frames i m))"

definition visitor_inv :: "visitor_page \<Rightarrow> bool" where
  "visitor_inv s \<longleftrightarrow> fetches_inv s \<and> queue_inv s"

lemma pending_distinct: "fetches_inv s \<Longrightarrow> distinct (map fst (vp_pending s))"
  by (simp add: fetches_inv_def)

lemma pending_accepted: "fetches_inv s \<Longrightarrow> (i, p) \<in> set (vp_pending s) \<Longrightarrow> \<exists>m. (i, p, m) \<in> set (vp_accepted s)"
  by (auto simp: fetches_inv_def)

lemma accepted_inv: "fetches_inv s \<Longrightarrow> a \<in> set (vp_accepted s) \<Longrightarrow> fetch_inv s a"
  by (simp add: fetches_inv_def)

lemma accepted_distinct: "fetches_inv s \<Longrightarrow> distinct (map fst (vp_accepted s))"
  using nat_text_inj by (auto simp: fetches_inv_def distinct_map intro!: inj_onI)

lemma accepted_unique:
  assumes "fetches_inv s" "(i, p, m) \<in> set (vp_accepted s)" "(i, p', m') \<in> set (vp_accepted s)"
  shows "p = p' \<and> m = m'"
  using eq_key_imp_eq_value [OF accepted_distinct [OF assms(1)] assms(2,3)] by simp

lemma port_unique:
  assumes "fetches_inv s" "(i, p, m) \<in> set (vp_accepted s)" "(i', p, m') \<in> set (vp_accepted s)"
  shows "i = i' \<and> m = m'"
proof -
  have "inj_on (fst \<circ> snd) (set (vp_accepted s))"
    using assms(1) by (simp add: fetches_inv_def distinct_map)
  then show ?thesis
    using inj_onD [of "fst \<circ> snd" _ "(i, p, m)" "(i', p, m')"] assms(2,3) by simp
qed

lemma fresh_id:
  assumes "fetches_inv s"
  shows "nat_text (Suc (vp_sequence s)) \<notin> fst ` set (vp_accepted s)"
proof
  assume "nat_text (Suc (vp_sequence s)) \<in> fst ` set (vp_accepted s)"
  also have "fst ` set (vp_accepted s) = nat_text ` {1..<Suc (vp_sequence s)}"
    using arg_cong [of _ _ set, OF conjunct1 [OF assms [unfolded fetches_inv_def]]] by (simp only: set_map set_upt)
  finally obtain n where "n < Suc (vp_sequence s)" "nat_text (Suc (vp_sequence s)) = nat_text n"
    by auto
  then show False
    using nat_text_inj [of "Suc (vp_sequence s)" n] by simp
qed

text \<open>A step that adds no fetch keeps \<^const>\<open>fetches_inv\<close> when it keeps it for each fetch.\<close>

lemma fetches_inv_mono:
  assumes "fetches_inv s" "vp_accepted t = vp_accepted s" "vp_sequence t = vp_sequence s"
    "length (vp_pending t) \<le> length (vp_pending s)" "distinct (map fst (vp_pending t))" "set (vp_pending t) \<subseteq> set (vp_pending s)"
    "\<And>a. a \<in> set (vp_accepted s) \<Longrightarrow> fetch_inv t a"
  shows "fetches_inv t"
proof -
  have "\<forall>(i, p) \<in> set (vp_pending t). \<exists>m. (i, p, m) \<in> set (vp_accepted t)"
    using pending_accepted [OF assms(1)] assms(2,6) by (simp add: split_beta subset_eq)
  then show ?thesis
    using assms(1-5,7) unfolding fetches_inv_def by simp
qed

lemma fetches_inv_cong:
  assumes "fetches_inv s" "vp_accepted t = vp_accepted s" "vp_sequence t = vp_sequence s" "vp_pending t = vp_pending s"
    "vp_posted t = vp_posted s"
  shows "fetches_inv t"
proof (rule fetches_inv_mono [OF assms(1-3)])
  show "fetch_inv t a" if "a \<in> set (vp_accepted s)" for a
    using accepted_inv [OF assms(1) that] by (cases a) (simp add: assms(4) port_log_cong [OF assms(5)])
qed (simp_all add: assms(4) pending_distinct [OF assms(1)])

lemma queue_inv_mono:
  assumes "queue_inv s" "vp_queue t = vp_queue s" "vp_sent t = vp_sent s" "vp_accepted t = vp_accepted s"
    "set (vp_pending t) \<subseteq> set (vp_pending s)"
  shows "queue_inv t"
  using assms unfolding queue_inv_def by (simp add: split_beta subset_eq)

lemma inv_end_fetch:
  assumes "visitor_inv s" "(i, p, m) \<in> set (vp_accepted s)" "is_end v" "for_id i v"
  shows "visitor_inv (end_fetch i p v s)"
proof -
  have f: "fetches_inv s"
    using assms(1) by (simp add: visitor_inv_def)
  have "fetch_inv (end_fetch i p v s) a" if "a \<in> set (vp_accepted s)" for a
  proof (cases a)
    case (fields j q n)
    then have "p \<noteq> q" if "i \<noteq> j"
      using that \<open>a \<in> set (vp_accepted s)\<close> port_unique [OF f assms(2)] by auto
    then show ?thesis
      using accepted_inv [OF f \<open>a \<in> set (vp_accepted s)\<close>] accepted_unique [OF f assms(2)] assms(3,4)
        \<open>a \<in> set (vp_accepted s)\<close> answered_log_end [of "port_log p s" v] fields
      by (cases "i = j") (auto split: if_splits)
  qed
  then have "fetches_inv (end_fetch i p v s)"
    by (intro fetches_inv_mono [OF f]) (auto simp: length_delete_key distinct_delete_key pending_distinct f)
  moreover have "queue_inv (end_fetch i p v s)"
    by (rule queue_inv_mono [of s]) (use assms(1) in \<open>auto simp: visitor_inv_def\<close>)
  ultimately show ?thesis
    by (simp add: visitor_inv_def)
qed

lemma inv_failPending:
  assumes "visitor_inv s"
  shows "visitor_inv (failPending e s)"
proof -
  let ?P = "\<lambda>t. visitor_inv t \<and> vp_accepted t = vp_accepted s"
  have "?P (fold (\<lambda>(i, port). end_fetch i port (response_error i e)) (vp_pending s) s)"
  proof (rule fold_invariant [where Q = "\<lambda>x. x \<in> set (vp_pending s)"])
    fix x t
    assume x: "x \<in> set (vp_pending s)" "?P t"
    moreover obtain i p where "x = (i, p)"
      by fastforce
    moreover from this x(1) obtain m where "(i, p, m) \<in> set (vp_accepted s)"
      using assms pending_accepted [of s i p] by (auto simp: visitor_inv_def)
    ultimately show "?P ((\<lambda>(i, port). end_fetch i port (response_error i e)) x t)"
      by (simp add: inv_end_fetch)
  qed (use assms in auto)
  then show ?thesis
    by (simp add: failPending_fold)
qed

lemma inv_post:
  assumes "visitor_inv s" "\<And>i m. (i, p, m) \<in> set (vp_accepted s) \<Longrightarrow> (i, p) \<in> set (vp_pending s) \<and> for_id i v \<and> \<not> is_end v"
  shows "visitor_inv (post p v s)"
proof -
  have f: "fetches_inv s" and q: "queue_inv s"
    using assms(1) by (simp_all add: visitor_inv_def)
  have "fetch_inv (post p v s) a" if "a \<in> set (vp_accepted s)" for a
    using accepted_inv [OF f that] assms(2) that by (cases a) auto
  then have "fetches_inv (post p v s)"
    by (intro fetches_inv_mono [OF f]) (auto simp: pending_distinct f)
  then show ?thesis
    using queue_inv_mono [OF q, of "post p v s"] by (simp add: visitor_inv_def)
qed

lemma inv_handleFrame:
  assumes "visitor_inv s"
  shows "visitor_inv (handleFrame data s)"
proof (cases rule: handleFrame_cases [of data s])
  case ignored
  then show ?thesis using assms by simp
next
  case (passed i p v)
  have f: "fetches_inv s"
    using assms by (simp add: visitor_inv_def)
  obtain m where m: "(i, p, m) \<in> set (vp_accepted s)" "(i, p) \<in> set (vp_pending s)"
    using pending_accepted [OF f] map_of_SomeD [OF passed(3)] by blast
  have "visitor_inv (post p v s)"
    using m passed port_unique [OF f m(1)] by (intro inv_post [OF assms]) auto
  then show ?thesis
    using passed by simp
next
  case (ends i p v)
  then obtain m where "(i, p, m) \<in> set (vp_accepted s)"
    using assms pending_accepted map_of_SomeD by (metis visitor_inv_def)
  then show ?thesis
    using assms ends by (simp add: inv_end_fetch)
qed

lemma queue_job:
  assumes "queue_inv s" "j \<in> set (vp_queue s)"
  obtains m where "(sj_id j, sj_port j, m) \<in> set (vp_accepted s)"
    "frames_of (sj_id j) (vp_sent s) @ sj_frame j # sj_rest j = request_frames (sj_id j) m"
  using assms unfolding queue_inv_def by blast

text \<open>The job of a fetch that is no longer pending can be dropped.\<close>

lemma queue_inv_tail:
  assumes "queue_inv s" "vp_queue s = j # jobs" "\<And>p. (sj_id j, p) \<notin> set (vp_pending s)"
  shows "queue_inv (s\<lparr>vp_queue := jobs, vp_running := r\<rparr>)"
  using assms unfolding queue_inv_def by auto

lemma inv_task_failed:
  assumes "visitor_inv s"
  shows "visitor_inv (task_failed e s)"
proof (cases "vp_queue s")
  case Nil
  then show ?thesis using assms by (simp add: task_failed_def)
next
  case (Cons j jobs)
  let ?u = "end_fetch (sj_id j) (sj_port j) (response_error (sj_id j) (error_text e)) s"
  have t: "task_failed e s = ?u\<lparr>vp_queue := jobs, vp_running := None\<rparr>"
    by (simp add: task_failed_def Cons end_fetch_def post_def)
  obtain m where "(sj_id j, sj_port j, m) \<in> set (vp_accepted s)"
    using assms Cons queue_job [of s j] by (auto simp: visitor_inv_def)
  then have u: "visitor_inv ?u"
    by (intro inv_end_fetch [OF assms]) auto
  then have "fetches_inv (task_failed e s)"
    unfolding t using fetches_inv_cong [of ?u] by (simp add: visitor_inv_def)
  moreover have "queue_inv (task_failed e s)"
    unfolding t using u by (intro queue_inv_tail) (auto simp: visitor_inv_def Cons)
  ultimately show ?thesis
    by (simp add: visitor_inv_def)
qed

text \<open>A task that ends well adds its frame to those of its request and to no others.\<close>

lemma task_sent_frames:
  assumes "visitor_inv s" "vp_queue s = j # jobs"
  obtains m where "(sj_id j, sj_port j, m) \<in> set (vp_accepted s)"
    "frames_of (sj_id j) (vp_sent s) @ sj_frame j # sj_rest j = request_frames (sj_id j) m"
    "\<And>i. frames_of i (vp_sent (task_sent s)) = frames_of i (vp_sent s) @ (if i = sj_id j then [sj_frame j] else [])"
proof -
  have f: "fetches_inv s" and q: "queue_inv s"
    using assms by (simp_all add: visitor_inv_def)
  obtain m where m: "(sj_id j, sj_port j, m) \<in> set (vp_accepted s)"
    "frames_of (sj_id j) (vp_sent s) @ sj_frame j # sj_rest j = request_frames (sj_id j) m"
    using queue_job [OF q, of j] assms(2) by auto
  have "sj_frame j \<in> set (request_frames (sj_id j) m)"
    unfolding m(2) [symmetric] by simp
  then have "json_ok (sj_frame j)" "for_id (sj_id j) (sj_frame j)"
    using request_frames_ok accepted_inv [OF f m(1)] by auto
  then show thesis
    using that m by (auto simp: task_sent_def assms(2) frames_of_snoc for_id_def)
qed

lemma task_sent_queue:
  assumes "visitor_inv s" "vp_queue s = j # jobs" "k \<in> set (vp_queue (task_sent s))"
  shows "\<exists>m. (sj_id k, sj_port k, m) \<in> set (vp_accepted s) \<and>
    frames_of (sj_id k) (vp_sent (task_sent s)) @ sj_frame k # sj_rest k = request_frames (sj_id k) m"
proof -
  obtain m where m: "(sj_id j, sj_port j, m) \<in> set (vp_accepted s)"
    "frames_of (sj_id j) (vp_sent s) @ sj_frame j # sj_rest j = request_frames (sj_id j) m"
    and sent: "\<And>i. frames_of i (vp_sent (task_sent s)) = frames_of i (vp_sent s) @ (if i = sj_id j then [sj_frame j] else [])"
    by (rule task_sent_frames [OF assms(1,2)]) blast
  have queue: "vp_queue (task_sent s) = jobs @ (case sj_rest j of [] \<Rightarrow> [] | g # gs \<Rightarrow> [j\<lparr>sj_frame := g, sj_rest := gs\<rparr>])"
    by (simp add: task_sent_def assms(2))
  show ?thesis
  proof (cases "k \<in> set jobs")
    case True
    then have "sj_id k \<in> sj_id ` set jobs"
      by simp
    then have "sj_id k \<noteq> sj_id j"
      using assms(1,2) by (auto simp: visitor_inv_def queue_inv_def)
    then show ?thesis
      using assms(1,2) True by (auto simp: visitor_inv_def queue_inv_def sent)
  next
    case False
    then show ?thesis
      using m assms(3) queue by (auto simp: sent split: list.splits)
  qed
qed

lemma inv_task_sent:
  assumes "visitor_inv s"
  shows "visitor_inv (task_sent s)"
proof (cases "vp_queue s")
  case Nil
  then show ?thesis using assms by (simp add: task_sent_def)
next
  case (Cons j jobs)
  let ?t = "task_sent s"
  have f: "fetches_inv s" and q: "queue_inv s"
    using assms by (simp_all add: visitor_inv_def)
  obtain m where m: "(sj_id j, sj_port j, m) \<in> set (vp_accepted s)"
    "frames_of (sj_id j) (vp_sent s) @ sj_frame j # sj_rest j = request_frames (sj_id j) m"
    and sent: "\<And>i. frames_of i (vp_sent ?t) = frames_of i (vp_sent s) @ (if i = sj_id j then [sj_frame j] else [])"
    by (rule task_sent_frames [OF assms Cons]) blast
  have same: "vp_accepted ?t = vp_accepted s" "vp_pending ?t = vp_pending s"
    "vp_queue ?t = jobs @ (case sj_rest j of [] \<Rightarrow> [] | g # gs \<Rightarrow> [j\<lparr>sj_frame := g, sj_rest := gs\<rparr>])"
    by (simp_all add: task_sent_def Cons)
  have "fetches_inv ?t"
    by (rule fetches_inv_cong [OF f]) (auto simp: task_sent_def Cons)
  moreover have "distinct (map sj_id (vp_queue ?t))"
    using q by (auto simp: queue_inv_def same Cons split: list.splits)
  moreover have "i \<in> fst ` set (vp_accepted ?t)" if "frames_of i (vp_sent ?t) \<noteq> []" for i
    using that q m(1) by (auto simp: queue_inv_def sent same intro: rev_image_eqI split: if_splits)
  moreover have "prefix (frames_of i (vp_sent ?t)) (request_frames i n) \<and>
      ((i, p) \<in> set (vp_pending ?t) \<longrightarrow> i \<in> sj_id ` set (vp_queue ?t) \<or> frames_of i (vp_sent ?t) = request_frames i n)"
    if "(i, p, n) \<in> set (vp_accepted ?t)" for i p n
  proof (cases "i = sj_id j")
    case True
    then have "n = m"
      using accepted_unique [OF f] m(1) that by (simp add: same)
    then show ?thesis
      using True m(2) [symmetric] by (cases "sj_rest j") (auto simp: same sent prefix_def)
  next
    case False
    then show ?thesis
      using q that by (force simp: queue_inv_def sent same Cons)
  qed
  ultimately show ?thesis
    using task_sent_queue [OF assms Cons] unfolding visitor_inv_def queue_inv_def same(1) by blast
qed

lemma accepted_forwardFetch:
  assumes "length (vp_pending s) < maxPendingRequests" "length (fetch_body m) \<le> maxRequestBytes"
  shows "forwardFetch m port s = (let i = nat_text (Suc (vp_sequence s)) in
      s\<lparr>vp_sequence := Suc (vp_sequence s), vp_pending := vp_pending s @ [(i, port)],
        vp_queue := vp_queue s @ [\<lparr>sj_id = i, sj_port = port, sj_frame = request_start i m, sj_rest = tl (request_frames i m)\<rparr>],
        vp_accepted := vp_accepted s @ [(i, port, m)]\<rparr>)"
  using assms by (simp add: forwardFetch_def request_frames_def Let_def)

lemma fresh_unsent:
  assumes "visitor_inv s" "i \<notin> fst ` set (vp_accepted s)"
  shows "frames_of i (vp_sent s) = []" "i \<notin> sj_id ` set (vp_queue s)" "i \<notin> fst ` set (vp_pending s)"
proof -
  have f: "fetches_inv s" and q: "queue_inv s" and n: "(i, p, m) \<notin> set (vp_accepted s)" for p m
    using assms by (auto simp: visitor_inv_def intro: rev_image_eqI)
  show "frames_of i (vp_sent s) = []"
    using q assms(2) unfolding queue_inv_def by blast
  show "i \<notin> sj_id ` set (vp_queue s)"
    using queue_job [OF q] n by blast
  show "i \<notin> fst ` set (vp_pending s)"
    using pending_accepted [OF f] n by fastforce
qed

lemma inv_forwardFetch:
  assumes "visitor_inv s" "fetch_ok m" "fresh_port port s"
  shows "visitor_inv (forwardFetch m port s)"
proof (cases "length (vp_pending s) < maxPendingRequests \<and> length (fetch_body m) \<le> maxRequestBytes")
  case True
  let ?i = "nat_text (Suc (vp_sequence s))" and ?t = "forwardFetch m port s"
  let ?job = "\<lparr>sj_id = ?i, sj_port = port, sj_frame = request_start ?i m, sj_rest = tl (request_frames ?i m)\<rparr>"
  have f: "fetches_inv s" and q: "queue_inv s"
    using assms by (simp_all add: visitor_inv_def)
  note fresh = fresh_id [OF f] fresh_unsent [OF assms(1) fresh_id [OF f]]
  have t: "vp_sequence ?t = Suc (vp_sequence s)" "vp_pending ?t = vp_pending s @ [(?i, port)]" "vp_sent ?t = vp_sent s"
    "vp_queue ?t = vp_queue s @ [?job]" "vp_accepted ?t = vp_accepted s @ [(?i, port, m)]" "vp_posted ?t = vp_posted s"
    using True by (simp_all add: accepted_forwardFetch Let_def)
  have l: "port_log p ?t = port_log p s" for p
    by (rule port_log_cong) (rule t)
  have "port_log port s = []"
    using assms(3) by (auto simp: fresh_port_def port_log_def filter_empty_conv image_iff)
  then have "fetch_inv ?t (?i, port, m)"
    using True assms(2) by (simp add: t l)
  moreover have "fetch_inv ?t a" if "a \<in> set (vp_accepted s)" for a
    using accepted_inv [OF f that] that fresh(1) by (cases a) (auto simp: t l image_iff)
  ultimately have "fetches_inv ?t"
    using f fresh(4) True assms(3) unfolding fetches_inv_def t by (auto simp: fresh_port_def)
  moreover have "queue_inv ?t"
    unfolding queue_inv_def t using q fresh
    by (auto simp: queue_inv_def request_frames_def [of ?i] image_iff)
  ultimately show ?thesis
    by (simp add: visitor_inv_def)
next
  case False
  have "visitor_inv (post port v s)" for v
    using assms(1,3) by (intro inv_post) (auto simp: fresh_port_def image_iff)
  then show ?thesis
    using False by (auto simp: forwardFetch_def)
qed

text \<open>Changes of the channel, the status or the frame of the page do not matter.\<close>

lemma visitor_inv_cong:
  assumes "visitor_inv s" "vp_accepted t = vp_accepted s" "vp_sequence t = vp_sequence s" "vp_pending t = vp_pending s"
    "vp_posted t = vp_posted s" "vp_queue t = vp_queue s" "vp_sent t = vp_sent s"
  shows "visitor_inv t"
  using assms fetches_inv_cong [of s t] queue_inv_mono [of s t] by (simp add: visitor_inv_def)

lemma inv_channel:
  assumes "visitor_inv s"
  shows "visitor_inv (channel_open url s)" "visitor_inv (channel_closed s)" "visitor_inv (channel_error s)"
proof -
  show "visitor_inv (channel_open url s)"
    by (rule visitor_inv_cong [OF assms]) (simp_all add: channel_open_def setStatus_def)
  have "visitor_inv (s\<lparr>vp_channel := c\<rparr>)" for c
    by (rule visitor_inv_cong [OF assms]) simp_all
  from inv_failPending [OF this] show "visitor_inv (channel_closed s)"
    by (rule visitor_inv_cong) (simp_all add: channel_closed_def setStatus_def)
  from inv_failPending [OF assms] show "visitor_inv (channel_error s)"
    by (rule visitor_inv_cong) (simp_all add: channel_error_def setStatus_def)
qed

lemma inv_broker_step:
  assumes "broker_step s t" "visitor_inv s"
  shows "visitor_inv t"
  using assms
proof cases
  case (start now)
  then show ?thesis
    using assms(2) visitor_inv_cong [OF assms(2), of t] by (auto simp: start_task_def inv_task_failed)
next
  case (turn deadline now buffered thrown)
  then show ?thesis
    using assms(2) by (auto simp: waitSendCapacity_def inv_task_failed inv_task_sent split: option.splits)
qed (use assms(2) visitor_inv_cong [OF assms(2), of t] in \<open>auto simp: inv_channel inv_forwardFetch setStatus_def\<close>)

lemma inv_visitor_step: "visitor_step s t \<Longrightarrow> visitor_inv s \<Longrightarrow> visitor_inv t"
  by (auto elim: visitor_step.cases intro: inv_broker_step inv_handleFrame)

lemma inv_visitor_initial: "visitor_inv visitor_initial"
  by (simp add: visitor_inv_def fetches_inv_def queue_inv_def visitor_initial_def)

lemma inv_visitor_reachable: "visitor_reachable s \<Longrightarrow> visitor_inv s"
  by (induction rule: visitor_reachable.induct) (auto intro: inv_visitor_initial inv_visitor_step)

subsection \<open>The queue drains\<close>

text \<open>A step of the queue that gets on: a task begins, or its wait ends because there is room or
  the deadline has passed. The load counts the tasks that are still to begin and to end.\<close>

inductive send_step :: "visitor_page \<Rightarrow> visitor_page \<Rightarrow> bool" where
  begins: "vp_queue s \<noteq> [] \<Longrightarrow> vp_running s = None \<Longrightarrow> send_step s (start_task now s)"
| ends: "vp_queue s \<noteq> [] \<Longrightarrow> vp_running s = Some deadline \<Longrightarrow> buffered \<le> maxBufferedBytes \<or> deadline \<le> now \<Longrightarrow>
    send_step s (waitSendCapacity now buffered thrown deadline s)"

definition frames_left :: "visitor_page \<Rightarrow> nat" where
  "frames_left s = (\<Sum>j \<leftarrow> vp_queue s. Suc (length (sj_rest j)))"

definition send_load :: "visitor_page \<Rightarrow> nat" where
  "send_load s = 2 * frames_left s - (if vp_running s = None then 0 else 1)"

lemma send_step_visitor: "send_step s t \<Longrightarrow> visitor_step s t"
  by (induction rule: send_step.induct) (auto intro: visitor_step.local broker_step.start broker_step.turn)

lemma frames_left_running [simp]: "frames_left (s\<lparr>vp_running := r\<rparr>) = frames_left s"
  by (simp add: frames_left_def)

lemma frames_left_queue: "frames_left s = 0 \<longleftrightarrow> vp_queue s = []"
  by (simp add: frames_left_def)

lemma task_ends_load:
  assumes "vp_queue s = j # jobs"
  shows "frames_left (task_failed e s) < frames_left s" "frames_left (task_sent s) < frames_left s"
    "vp_running (task_failed e s) = None" "vp_running (task_sent s) = None"
  using assms by (auto simp: frames_left_def task_failed_def task_sent_def split: list.splits)

lemma send_load_queue: "send_load s = 0 \<Longrightarrow> vp_queue s = []"
  by (cases "vp_queue s") (auto simp: send_load_def frames_left_def split: if_splits)

lemma send_step_less:
  assumes "send_step s t"
  shows "send_load t < send_load s"
  using assms
proof cases
  case (begins now)
  then obtain j jobs where q: "vp_queue s = j # jobs"
    by (cases "vp_queue s") auto
  then show ?thesis
    using begins task_ends_load(1,3) [OF q, of not_open] frames_left_queue [of s]
    by (auto simp: send_load_def start_task_def)
next
  case (ends deadline buffered now thrown)
  then obtain j jobs where q: "vp_queue s = j # jobs"
    by (cases "vp_queue s") auto
  have "t = task_sent s \<or> (\<exists>e. t = task_failed e s)"
    using ends by (auto simp: waitSendCapacity_def split: option.splits)
  then have "frames_left t < frames_left s" "vp_running t = None"
    using task_ends_load [OF q] by auto
  then show ?thesis
    using ends by (simp add: send_load_def)
qed

lemma send_step_some:
  assumes "0 < send_load s"
  shows "\<exists>t. send_step s t"
proof -
  have "vp_queue s \<noteq> []"
    using assms frames_left_queue [of s] by (auto simp: send_load_def)
  then show ?thesis
    using send_step.begins [of s 0] send_step.ends [of s _ 0] by (cases "vp_running s") blast+
qed

definition sent_or_answered :: "visitor_page \<Rightarrow> bool" where
  "sent_or_answered s \<longleftrightarrow>
     (\<forall>(i, p, m) \<in> set (vp_accepted s). frames_of i (vp_sent s) = request_frames i m \<or> answered_log (port_log p s))"

lemma idle_queue:
  assumes "visitor_reachable s" "send_load s = 0"
  shows "sent_or_answered s"
  unfolding sent_or_answered_def
proof clarify
  fix i p m
  assume a: "(i, p, m) \<in> set (vp_accepted s)" "\<not> answered_log (port_log p s)"
  have inv: "fetches_inv s" "queue_inv s"
    using inv_visitor_reachable [OF assms(1)] by (auto simp: visitor_inv_def)
  have "vp_queue s = []"
    using assms(2) by (rule send_load_queue)
  moreover have "(i, p) \<in> set (vp_pending s)"
    using accepted_inv [OF inv(1) a(1)] a(2) by (auto split: if_splits)
  ultimately show "frames_of i (vp_sent s) = request_frames i m"
    using inv(2) a(1) by (auto simp: queue_inv_def)
qed

interpretation send_queue: settling send_step send_load visitor_reachable sent_or_answered
  by unfold_locales (auto intro: send_step_less send_step_some idle_queue visitor_reachable.step send_step_visitor)

subsection \<open>Demultiplexing of responses\<close>

text \<open>The part of a list of frames up to the first \<open>response_end\<close>.\<close>

fun upto_end :: "json list \<Rightarrow> json list" where
  "upto_end [] = []"
| "upto_end (v # vs) = (if is_end v then [v] else v # upto_end vs)"

lemma frames_of_Cons:
  "frames_of i (d # ds) =
     (case JSON_parse d of None \<Rightarrow> [] | Some v \<Rightarrow> if for_id i v then [v] else []) @ frames_of i ds"
  by (simp add: frames_of_def map_filter_def split: option.splits)

lemma handleFrame_other:
  assumes "fetches_inv s" "(i, p) \<in> set (vp_pending s)" "\<not> (\<exists>v. JSON_parse d = Some v \<and> for_id i v)"
  shows "port_log p (handleFrame d s) = port_log p s \<and> (i, p) \<in> set (vp_pending (handleFrame d s))"
proof -
  have other: "j \<noteq> i \<and> q \<noteq> p" if a: "JSON_parse d = Some v" "for_id j v" "map_of (vp_pending s) j = Some q" for j q v
  proof -
    have "j \<noteq> i"
      using a assms(3) by auto
    moreover obtain m n where "(i, p, m) \<in> set (vp_accepted s)" "(j, q, n) \<in> set (vp_accepted s)"
      using pending_accepted [OF assms(1)] assms(2) map_of_SomeD [OF a(3)] by blast
    ultimately show ?thesis
      using port_unique [OF assms(1)] by blast
  qed
  show ?thesis
    by (cases rule: handleFrame_cases [of d s]) (use assms(2) other in auto)
qed

lemma handleFrame_own:
  assumes "fetches_inv s" "(i, p) \<in> set (vp_pending s)" "JSON_parse d = Some v" "for_id i v"
  shows "handleFrame d s = (if is_end v then end_fetch i p v s else post p v s)"
  using assms(3,4) map_of_is_SomeI [OF pending_distinct [OF assms(1)] assms(2)]
  by (simp add: handleFrame_def Let_def for_id_def is_end_def end_fetch_def)

lemma fold_handleFrame_ended:
  assumes "visitor_inv s" "(i, p, m) \<in> set (vp_accepted s)" "(i, p) \<notin> set (vp_pending s)"
  shows "port_log p (fold handleFrame ds s) = port_log p s"
  using assms
proof (induction ds arbitrary: s)
  case (Cons d ds)
  have f: "fetches_inv s"
    using Cons.prems(1) by (simp add: visitor_inv_def)
  have "q \<noteq> p \<and> vp_accepted (handleFrame d s) = vp_accepted s" if "map_of (vp_pending s) j = Some q" for j q
    using pending_accepted [OF f map_of_SomeD [OF that]] port_unique [OF f Cons.prems(2)] Cons.prems(3) map_of_SomeD [OF that]
    by (cases rule: handleFrame_cases [of d s]) auto
  then have "port_log p (handleFrame d s) = port_log p s \<and> vp_accepted (handleFrame d s) = vp_accepted s \<and>
      (i, p) \<notin> set (vp_pending (handleFrame d s))"
    by (cases rule: handleFrame_cases [of d s]) (use Cons.prems(3) in auto)
  then show ?case
    using Cons.IH [OF inv_handleFrame [OF Cons.prems(1), of d]] Cons.prems(2) by simp
qed simp

lemma fold_handleFrame:
  assumes "visitor_inv s" "(i, p) \<in> set (vp_pending s)"
  shows "port_log p (fold handleFrame ds s) = port_log p s @ upto_end (frames_of i ds)"
  using assms
proof (induction ds arbitrary: s)
  case (Cons d ds)
  have f: "fetches_inv s"
    using Cons.prems(1) by (simp add: visitor_inv_def)
  note inv = inv_handleFrame [OF Cons.prems(1), of d]
  show ?case
  proof (cases "\<exists>v. JSON_parse d = Some v \<and> for_id i v")
    case True
    then obtain v where v: "JSON_parse d = Some v" "for_id i v"
      by blast
    then have h: "handleFrame d s = (if is_end v then end_fetch i p v s else post p v s)"
      by (rule handleFrame_own [OF f Cons.prems(2)])
    obtain m where m: "(i, p, m) \<in> set (vp_accepted s)"
      using pending_accepted [OF f Cons.prems(2)] by blast
    show ?thesis
    proof (cases "is_end v")
      case True
      then show ?thesis
        using inv m fold_handleFrame_ended [of "handleFrame d s" i p m ds] v by (simp add: h frames_of_Cons)
    next
      case False
      then show ?thesis
        using inv Cons.IH [of "handleFrame d s"] Cons.prems(2) v by (simp add: h frames_of_Cons)
    qed
  next
    case False
    then show ?thesis
      using Cons.IH [OF inv] handleFrame_other [OF f Cons.prems(2) False] by (auto simp: frames_of_Cons split: option.splits)
  qed
qed simp

subsection \<open>What the agent reads\<close>

text \<open>The body the agent puts together from the chunks among the frames of a request.\<close>

definition chunk_body :: "json \<Rightarrow> byte list option" where
  "chunk_body v = (case field ''body'' v of Some (JStr t) \<Rightarrow> fromBase64 t | _ \<Rightarrow> None)"

definition assembled :: "json list \<Rightarrow> byte list option" where
  "assembled fs = map_option concat (those (map chunk_body (filter (is_kind ''request_chunk'') fs)))"

lemma chunk_body_request_chunk [simp]: "chunk_body (request_chunk i b) = Some b"
  by (simp add: chunk_body_def field_def request_chunk_def frame_def)

lemma those_map_Some: "those (map (\<lambda>x. Some (f x)) xs) = Some (map f xs)"
  by (induction xs) auto

lemma request_kinds [simp]:
  "is_kind k (request_start i m) \<longleftrightarrow> k = ''request_start''" "is_kind k (request_chunk i b) \<longleftrightarrow> k = ''request_chunk''"
  "is_kind k (request_end i) \<longleftrightarrow> k = ''request_end''"
  by (simp_all add: frame_defs)

lemma assembled_request: "assembled (request_frames i m) = Some (fetch_body m)"
  by (simp add: assembled_def request_frames_def filter_map comp_def chunk_bytes_def those_map_Some [of "\<lambda>x. x", simplified])

lemma request_frames_prefix:
  assumes "prefix fs (request_frames i m)" "request_end i \<in> set fs"
  shows "fs = request_frames i m"
proof (rule ccontr)
  assume "fs \<noteq> request_frames i m"
  then have "prefix fs (request_start i m # map (request_chunk i) (blocks chunk_bytes (fetch_body m)))"
    using assms(1) by (simp add: request_frames_def flip: append_Cons)
  then have "set fs \<subseteq> set (request_start i m # map (request_chunk i) (blocks chunk_bytes (fetch_body m)))"
    by (rule set_mono_prefix)
  then have "request_end i = request_start i m \<or> (\<exists>b. request_end i = request_chunk i b)"
    using assms(2) by auto
  then show False
    using request_kinds(3) [of "''request_end''" i] by (auto simp del: request_kinds(3) simp: request_kinds(1,2))
qed

lemma accepted_prefix:
  "visitor_reachable s \<Longrightarrow> (i, p, m) \<in> set (vp_accepted s) \<Longrightarrow> prefix (frames_of i (vp_sent s)) (request_frames i m)"
  using inv_visitor_reachable [of s] by (auto simp: visitor_inv_def queue_inv_def)

lemma reachable_fetches: "visitor_reachable s \<Longrightarrow> fetches_inv s"
  using inv_visitor_reachable by (auto simp: visitor_inv_def)

text \<open>A run: the channel opens, a fetch with three bytes comes, and its three frames are sent.\<close>

definition demo_fetch :: visitor_fetch where
  "demo_fetch = \<lparr>vf_method = js ''POST'', vf_path = js ''/a'', vf_headers = Some [(js ''accept'', [js ''*/*''])], vf_body = Some [1, 2, 3]\<rparr>"

definition demo_asked :: visitor_page where
  "demo_asked = forwardFetch demo_fetch 7 (channel_open (js ''/v/'') (visitor_initial\<lparr>vp_channel := Some Connecting\<rparr>))"

definition send_one :: "visitor_page \<Rightarrow> visitor_page" where
  "send_one s = waitSendCapacity 5 0 None 30000 (start_task 0 s)"

definition demo_sent :: visitor_page where
  "demo_sent = send_one (send_one (send_one demo_asked))"

lemma demo_frames: "request_frames i demo_fetch = [request_start i demo_fetch, request_chunk i [1, 2, 3], request_end i]"
  by (simp add: request_frames_def demo_fetch_def fetch_body_def chunk_bytes_def blocks.simps)

lemma pages_reachable: "broker_step\<^sup>*\<^sup>* s t \<Longrightarrow> visitor_reachable s \<Longrightarrow> visitor_reachable t"
  by (induction rule: rtranclp_induct) (auto intro: visitor_reachable.step visitor_step.local)

lemma demo_asked_pages: "broker_step\<^sup>*\<^sup>* visitor_initial demo_asked"
proof -
  let ?c = "visitor_initial\<lparr>vp_channel := Some Connecting\<rparr>"
  have "broker_step visitor_initial ?c"
    by (rule broker_step.created) (simp add: visitor_initial_def)
  moreover have "broker_step ?c (channel_open (js ''/v/'') ?c)"
    by (rule broker_step.opened) simp
  moreover have "broker_step (channel_open (js ''/v/'') ?c) demo_asked"
    unfolding demo_asked_def
    by (rule broker_step.fetch)
      (simp_all add: demo_fetch_def fetch_ok_def fetch_headers_def fresh_port_def channel_open_def setStatus_def visitor_initial_def)
  ultimately show ?thesis
    by (meson converse_rtranclp_into_rtranclp rtranclp.rtrancl_refl)
qed

lemma send_one_pages:
  assumes "broker_step\<^sup>*\<^sup>* s t" "vp_queue t \<noteq> []" "vp_running t = None" "vp_channel t = Some Open"
  shows "broker_step\<^sup>*\<^sup>* s (send_one t)"
proof -
  have "broker_step t (start_task 0 t)"
    using broker_step.start [of t 0] assms by blast
  moreover have "broker_step (start_task 0 t) (send_one t)"
    unfolding send_one_def by (rule broker_step.turn) (simp_all add: assms start_task_def sendTimeoutMs_def)
  ultimately show ?thesis
    using assms(1) by (meson rtranclp.rtrancl_into_rtrancl)
qed

lemmas demo_eval = demo_asked_def accepted_forwardFetch channel_open_def setStatus_def visitor_initial_def Let_def demo_frames
  send_one_def start_task_def waitSendCapacity_def task_sent_def maxPendingRequests_def maxRequestBytes_def maxBufferedBytes_def

lemma demo_body [simp]: "fetch_body demo_fetch = [1, 2, 3]"
  by (simp add: demo_fetch_def fetch_body_def)

lemma demo_sent_pages: "broker_step\<^sup>*\<^sup>* visitor_initial demo_sent"
  unfolding demo_sent_def
  by (intro send_one_pages demo_asked_pages) (simp_all add: demo_eval)

lemma demo_sent_reachable: "visitor_reachable demo_sent"
  by (rule pages_reachable [OF demo_sent_pages visitor_reachable.initial])

lemma demo_sent_frames: "frames_of (nat_text 1) (vp_sent demo_sent) = request_frames (nat_text 1) demo_fetch"
proof -
  have "vp_sent demo_sent = map stringify (request_frames (nat_text 1) demo_fetch)"
    unfolding demo_sent_def by (simp add: demo_eval)
  moreover have "fetch_ok demo_fetch"
    by (simp add: demo_fetch_def fetch_ok_def fetch_headers_def)
  ultimately show ?thesis
    using request_frames_ok [of demo_fetch _ "nat_text 1"]
    by (simp add: demo_frames frames_of_def map_filter_def parse_stringify_json)
qed

lemma fetch_answered:
  assumes "visitor_reachable s" "(i, p, m) \<in> set (vp_accepted s)"
  shows "(\<forall>v \<in> set (port_log p s). for_id i v) \<and>
    (if (i, p) \<in> set (vp_pending s) then open_log (port_log p s) else answered_log (port_log p s)) \<and>
    answered_log (port_log p (channel_closed s))"
proof -
  have "visitor_inv (channel_closed s)"
    using inv_channel inv_visitor_reachable [OF assms(1)] by blast
  then have "fetch_inv (channel_closed s) (i, p, m)"
    by (intro accepted_inv) (use assms(2) in \<open>auto simp: visitor_inv_def channel_defs setStatus_def\<close>)
  moreover have "(i, p) \<notin> set (vp_pending (channel_closed s))"
    by (simp add: channel_defs setStatus_def)
  ultimately show ?thesis
    using accepted_inv [OF reachable_fetches [OF assms(1)] assms(2)] by simp
qed

subsection \<open>Properties\<close>

text \<open>However the frames of several requests interleave in the queue and whatever
  fails in between, what was sent for a request is a beginning of its frames in their order; once its
  \<open>request_end\<close> was sent, the chunks decode to the body the worker handed over.\<close>

lemma requests_arrive_whole:
  assumes "visitor_reachable s" "(i, p, m) \<in> set (vp_accepted s)"
  shows "prefix (frames_of i (vp_sent s)) (request_frames i m) \<and>
    (request_end i \<in> set (frames_of i (vp_sent s)) \<longrightarrow> assembled (frames_of i (vp_sent s)) = Some (fetch_body m))"
  using accepted_prefix [OF assms] request_frames_prefix [OF accepted_prefix [OF assms]] assembled_request [of i m] by auto

text \<open>At most 256 requests are pending, no request with more than 16 MiB was given an
  id, and a chunk that was sent carries between 1 and 24576 bytes.\<close>

lemma visitor_page_limits:
  assumes "visitor_reachable s"
  shows "length (vp_pending s) \<le> 256 \<and>
    (\<forall>(i, p, m) \<in> set (vp_accepted s). length (fetch_body m) \<le> 16777216 \<and>
      (\<forall>v \<in> set (frames_of i (vp_sent s)). is_kind ''request_chunk'' v \<longrightarrow>
        (\<exists>b. chunk_body v = Some b \<and> 0 < length b \<and> length b \<le> 24576)))"
proof (intro conjI ballI, goal_cases)
  case 1
  then show ?case
    using reachable_fetches [OF assms] by (simp add: fetches_inv_def maxPendingRequests_def)
next
  case (2 a)
  then obtain i p m where a: "a = (i, p, m)" "(i, p, m) \<in> set (vp_accepted s)"
    by (metis prod_cases3)
  have "set (frames_of i (vp_sent s)) \<subseteq> set (request_frames i m)"
    by (rule set_mono_prefix [OF accepted_prefix [OF assms a(2)]])
  then have "\<exists>b. chunk_body v = Some b \<and> 0 < length b \<and> length b \<le> 24576"
    if "v \<in> set (frames_of i (vp_sent s))" "is_kind ''request_chunk'' v" for v
    using that block_length [of _ chunk_bytes "fetch_body m"] by (auto simp: request_frames_def chunk_bytes_def dest!: subsetD)
  moreover have "length (fetch_body m) \<le> 16777216"
    using accepted_inv [OF reachable_fetches [OF assms] a(2)] by (simp add: maxRequestBytes_def)
  ultimately show ?case
    by (simp add: a(1))
qed

text \<open>Whatever frames come over the data channel, the port of a pending
  request gets those with its id, in their order, up to and including the first \<open>response_end\<close>.\<close>

lemma responses_are_demultiplexed:
  assumes "visitor_reachable s" "(i, p) \<in> set (vp_pending s)"
  shows "port_log p (fold handleFrame ds s) = port_log p s @ upto_end (frames_of i ds)"
  using fold_handleFrame inv_visitor_reachable assms by blast

text \<open>A port hears only of its own request, nothing after a \<open>response_end\<close> but
  further ones, and has its \<open>response_end\<close> once the request is no longer pending; the end of the channel answers
  every request that was accepted.\<close>

lemma every_fetch_is_answered:
  assumes "visitor_reachable s" "(i, p, m) \<in> set (vp_accepted s)"
  shows "(\<forall>v \<in> set (port_log p s). for_id i v) \<and>
    (if (i, p) \<in> set (vp_pending s) then open_log (port_log p s) else answered_log (port_log p s)) \<and>
    answered_log (port_log p (channel_closed s))"
  by (rule fetch_answered [OF assms])

text \<open>C20. The queue empties: its tasks end after at most two steps for each frame that is
  left, in whatever order rooms and deadlines come, and then every accepted request was sent whole or answered.\<close>

theorem send_queue_drains:
  assumes "visitor_reachable s"
  shows "(\<forall>n t. (send_step ^^ n) s t \<longrightarrow> n \<le> 2 * frames_left s) \<and>
    (\<exists>t. send_step\<^sup>*\<^sup>* s t \<and> vp_queue t = [] \<and>
      (\<forall>(i, p, m) \<in> set (vp_accepted t). frames_of i (vp_sent t) = request_frames i m \<or> answered_log (port_log p t)))"
proof
  show "\<forall>n t. (send_step ^^ n) s t \<longrightarrow> n \<le> 2 * frames_left s"
    using send_queue.chain_bounded [of _ s] by (fastforce simp: send_load_def split: if_splits)
  show "\<exists>t. send_step\<^sup>*\<^sup>* s t \<and> vp_queue t = [] \<and>
      (\<forall>(i, p, m) \<in> set (vp_accepted t). frames_of i (vp_sent t) = request_frames i m \<or> answered_log (port_log p t))"
    using send_queue.settles [OF assms] send_load_queue unfolding sent_or_answered_def by blast
qed

theorem send_queue_drains_witness:
  "vp_queue demo_asked \<noteq> [] \<and> (\<exists>t. send_step\<^sup>*\<^sup>* demo_asked t \<and> vp_queue t = [])"
proof -
  have "vp_queue demo_asked \<noteq> []"
    by (simp add: demo_eval)
  then show ?thesis
    using send_queue_drains [OF pages_reachable [OF demo_asked_pages visitor_reachable.initial]] by blast
qed

end
