(* ===== verification/Visitor_Rewrite.thy ===== *)
theory Visitor_Rewrite
  imports Bytes Json
begin

text \<open>
  How the service worker of the visitor page changes documents (\<open>rewriteBody\<close>, \<open>rewriteHTML\<close> and
  \<open>bridgeScript\<close> of \<open>server/visitor/worker.go\<close>), so that links to the root of the site stay in
  the path of the tunnel. The regular expressions are matchers that say how many units they
  match at a position, and \<open>replace\<close> is the scan that tries them from left to right.
\<close>

subsection \<open>Text and bytes\<close>

text \<open>\<open>new TextEncoder().encode\<close>: a lone surrogate becomes U+FFFD.\<close>

definition text_encode :: "js_string \<Rightarrow> byte list" where
  "text_encode s = map of_nat (concat (map (\<lambda>c. utf8 (case c of None \<Rightarrow> 0xFFFD | Some n \<Rightarrow> n)) (scalars s)))"

text \<open>\<open>new TextDecoder().decode\<close>: the continuation bytes of a sequence, each in the bounds that the lead
  byte allows; the byte that is out of bounds ends the sequence with U+FFFD and is read again.\<close>

fun utf8_cont :: "nat \<Rightarrow> nat \<Rightarrow> nat \<Rightarrow> nat \<Rightarrow> nat list \<Rightarrow> nat \<times> nat list" where
  "utf8_cont 0 acc lo hi r = (acc, r)"
| "utf8_cont (Suc k) acc lo hi [] = (0xFFFD, [])"
| "utf8_cont (Suc k) acc lo hi (b # r) =
     (if lo \<le> b \<and> b \<le> hi then utf8_cont k (64 * acc + (b - 0x80)) 0x80 0xBF r else (0xFFFD, b # r))"

definition utf8_lead :: "nat \<Rightarrow> nat list \<Rightarrow> nat \<times> nat list" where
  "utf8_lead b r =
     (if b < 0x80 then (b, r)
      else if 0xC2 \<le> b \<and> b \<le> 0xDF then utf8_cont 1 (b - 0xC0) 0x80 0xBF r
      else if 0xE0 \<le> b \<and> b \<le> 0xEF then
        utf8_cont 2 (b - 0xE0) (if b = 0xE0 then 0xA0 else 0x80) (if b = 0xED then 0x9F else 0xBF) r
      else if 0xF0 \<le> b \<and> b \<le> 0xF4 then
        utf8_cont 3 (b - 0xF0) (if b = 0xF0 then 0x90 else 0x80) (if b = 0xF4 then 0x8F else 0xBF) r
      else (0xFFFD, r))"

lemma utf8_cont_length: "utf8_cont k acc lo hi r = (n, t) \<Longrightarrow> length t \<le> length r"
  by (induction k acc lo hi r rule: utf8_cont.induct) (auto split: if_splits)

lemma utf8_lead_length: "utf8_lead b r = (n, t) \<Longrightarrow> length t \<le> length r"
  by (auto simp: utf8_lead_def dest: utf8_cont_length split: if_splits)

function utf8_scalars :: "nat list \<Rightarrow> nat list" where
  "utf8_scalars [] = []"
| "utf8_scalars (b # r) = (let (n, t) = utf8_lead b r in n # utf8_scalars t)"
  by pat_completeness auto

termination
  by (relation "measure length") (auto simp: less_Suc_eq_le dest!: utf8_lead_length [OF sym])

definition text_decode :: "byte list \<Rightarrow> js_string" where
  "text_decode bs =
     (let ns = utf8_scalars (map unat bs) in concat (map utf16 (case ns of n # r \<Rightarrow> if n = 0xFEFF then r else ns | [] \<Rightarrow> [])))"

text \<open>Decoding undoes encoding: the bounds that a lead byte sets for the next one are those that the code points
  without surrogates need.\<close>

lemma utf8_lead_3:
  assumes "a < 16" "b < 64" "c < 64" "0x800 \<le> 4096 * a + 64 * b + c" "\<not> (0xD800 \<le> 4096 * a + 64 * b + c \<and> 4096 * a + 64 * b + c < 0xE000)"
  shows "utf8_lead (0xE0 + a) ((0x80 + b) # (0x80 + c) # r) = (4096 * a + 64 * b + c, r)"
proof -
  have "32 \<le> b" if "a = 0"
    using assms that by simp
  moreover have "b < 32" if "a = 13"
    using assms that by simp
  ultimately show ?thesis
    using assms(1-3) by (auto simp: utf8_lead_def numeral_2_eq_2)
qed

lemma utf8_lead_4:
  assumes "a < 5" "b < 64" "c < 64" "d < 64" "0x10000 \<le> 262144 * a + 4096 * b + 64 * c + d" "262144 * a + 4096 * b + 64 * c + d < 0x110000"
  shows "utf8_lead (0xF0 + a) ((0x80 + b) # (0x80 + c) # (0x80 + d) # r) = (262144 * a + 4096 * b + 64 * c + d, r)"
proof -
  have "16 \<le> b" if "a = 0"
    using assms that by simp
  moreover have "b < 16" if "a = 4"
    using assms that by simp
  ultimately show ?thesis
    using assms(1-4) by (auto simp: utf8_lead_def numeral_3_eq_3)
qed

lemma utf8_scalars_utf8:
  assumes "scalar_ok n"
  shows "utf8_scalars (utf8 n @ r) = n # utf8_scalars r"
proof -
  consider "n < 0x80" | "0x80 \<le> n" "n < 0x800" | "0x800 \<le> n" "n < 0x10000" | "0x10000 \<le> n" "n < 0x110000"
    using assms unfolding scalar_ok_def by linarith
  then show ?thesis
  proof cases
    case 1
    then show ?thesis by (simp add: utf8_def utf8_lead_def)
  next
    case 2
    then have "64 * (n div 64) + n mod 64 = n" "2 \<le> n div 64" "n div 64 < 32" by auto
    moreover have "n mod 64 \<le> 63"
      using mod_less_divisor [of 64 n] by simp
    ultimately show ?thesis
      using 2 by (simp add: utf8_def utf8_lead_def)
  next
    case 3
    have "n div 4096 = n div 64 div 64"
      by (simp flip: div_mult2_eq)
    then have "64 * (64 * (n div 4096) + n div 64 mod 64) + n mod 64 = n"
      by simp
    then have n: "4096 * (n div 4096) + 64 * (n div 64 mod 64) + n mod 64 = n"
      by simp
    have "utf8_lead (0xE0 + n div 4096) ((0x80 + n div 64 mod 64) # (0x80 + n mod 64) # r) = (n, r)"
      using utf8_lead_3 [of "n div 4096" "n div 64 mod 64" "n mod 64" r] 3 assms by (simp add: n scalar_ok_def less_mult_imp_div_less)
    then show ?thesis
      using 3 by (simp add: utf8_def)
  next
    case 4
    have "n div 4096 = n div 64 div 64" "n div 262144 = n div 64 div 64 div 64"
      by (simp_all flip: div_mult2_eq)
    then have "64 * (64 * (64 * (n div 262144) + n div 4096 mod 64) + n div 64 mod 64) + n mod 64 = n"
      by simp
    then have n: "262144 * (n div 262144) + 4096 * (n div 4096 mod 64) + 64 * (n div 64 mod 64) + n mod 64 = n"
      by simp
    have "utf8_lead (0xF0 + n div 262144) ((0x80 + n div 4096 mod 64) # (0x80 + n div 64 mod 64) # (0x80 + n mod 64) # r) = (n, r)"
      using utf8_lead_4 [of "n div 262144" "n div 4096 mod 64" "n div 64 mod 64" "n mod 64" r] 4 by (simp add: n less_mult_imp_div_less)
    then show ?thesis
      using 4 by (simp add: utf8_def)
  qed
qed

lemma utf8_scalars_concat: "list_all scalar_ok ns \<Longrightarrow> utf8_scalars (concat (map utf8 ns)) = ns"
  by (induction ns) (auto simp: utf8_scalars_utf8)

lemma text_decode_encode:
  assumes "None \<notin> set (scalars s)" "s = [] \<or> hd s \<noteq> 0xFEFF"
  shows "text_decode (text_encode s) = s"
proof -
  define ns where "ns = map the (scalars s)"
  have some: "scalars s = map Some ns"
    using assms(1) by (auto simp: ns_def map_idI intro!: map_idI [symmetric]) (metis option.collapse)
  then have ok: "list_all scalar_ok ns"
    using scalars_ok [of _ s] by (auto simp: list_all_iff)
  have "b < 256" if "b \<in> set (concat (map utf8 ns))" for b
    using that ok utf8_bytes by (fastforce simp: list_all_iff scalar_ok_def)
  then have "map unat (text_encode s) = concat (map utf8 ns)"
    by (auto simp: text_encode_def some comp_def unat_of_nat intro!: map_idI)
  then have "utf8_scalars (map unat (text_encode s)) = ns"
    using utf8_scalars_concat [OF ok] by simp
  moreover have "concat (map utf16 ns) = s"
    using utf16_scalars [OF assms(1)] by (simp add: some comp_def)
  moreover have "n \<noteq> 0xFEFF" if "ns = n # r" for n r
    using assms(2) that \<open>concat (map utf16 ns) = s\<close> by (auto simp: utf16_def)
  ultimately show ?thesis
    by (auto simp: text_decode_def Let_def split: list.splits)
qed

subsection \<open>Matchers\<close>

text \<open>\<open>\w\<close>, a literal without regard to case, and the word boundary before a word character.\<close>

definition word_unit :: "16 word \<Rightarrow> bool" where
  "word_unit c \<longleftrightarrow> (0x30 \<le> c \<and> c \<le> 0x39) \<or> (0x41 \<le> c \<and> c \<le> 0x5A) \<or> (0x61 \<le> c \<and> c \<le> 0x7A) \<or> c = 0x5F"

definition at_word :: "16 word option \<Rightarrow> bool" where
  "at_word prev \<longleftrightarrow> (case prev of None \<Rightarrow> True | Some c \<Rightarrow> \<not> word_unit c)"

definition literal :: "string \<Rightarrow> js_string \<Rightarrow> bool" where
  "literal p s \<longleftrightarrow> map fold_unit (take (length p) s) = js p"

definition slash :: "16 word" where
  "slash = 0x2F"

text \<open>\<open>\/(?!\/)\<close>\<close>

definition lone_slash :: "js_string \<Rightarrow> bool" where
  "lone_slash s \<longleftrightarrow> (case s of c # r \<Rightarrow> c = slash \<and> (r = [] \<or> hd r \<noteq> slash) | [] \<Rightarrow> False)"

definition link_attributes :: "string list" where
  "link_attributes = [''src'', ''href'', ''action'', ''poster'']"

text \<open>\<open>/\b(?:src|href|action|poster)=(["'])\/(?!\/)/i\<close>: the length of the match.\<close>

definition attr_match :: "16 word option \<Rightarrow> js_string \<Rightarrow> nat option" where
  "attr_match prev s =
     (if \<not> at_word prev then None
      else
        (case List.find (\<lambda>a. literal (a @ ''='') s) link_attributes of
           None \<Rightarrow> None
         | Some a \<Rightarrow>
             (case drop (length a + 1) s of
                [] \<Rightarrow> None
              | q # r \<Rightarrow> if (q = 0x22 \<or> q = 0x27) \<and> lone_slash r then Some (length a + 3) else None)))"

text \<open>\<open>/url\(\s*\/(?!\/)/i\<close>\<close>

definition url_match :: "js_string \<Rightarrow> nat option" where
  "url_match s =
     (if \<not> literal ''url('' s then None
      else
        (let spaces = takeWhile js_space (drop 4 s) in
         if lone_slash (drop (4 + length spaces) s) then Some (4 + length spaces + 1) else None))"

text \<open>\<open>/<head\b[^>]*>/i\<close>\<close>

definition head_match :: "js_string \<Rightarrow> nat option" where
  "head_match s =
     (if literal ''<head'' s \<and> (case drop 5 s of [] \<Rightarrow> True | c # _ \<Rightarrow> \<not> word_unit c) \<and> 0x3E \<in> set (drop 5 s)
      then Some (5 + length (takeWhile (\<lambda>c. c \<noteq> 0x3E) (drop 5 s)) + 1) else None)"

subsection \<open>What the matchers match\<close>

lemma fold_unit_sign [simp]: "fold_unit c = 0x3D \<longleftrightarrow> c = 0x3D"
proof -
  have "c + 0x20 \<noteq> 0x3D" if "0x41 \<le> c" "c \<le> 0x5A"
    using that by unat_arith
  then show ?thesis
    by (auto simp: fold_unit_def)
qed

lemma link_attributes_plain: "a \<in> set link_attributes \<Longrightarrow> 0x3D \<notin> set (js a) \<and> (\<forall>c \<in> set (js a). 0x61 \<le> c \<and> c \<le> 0x7A) \<and> 3 \<le> length a"
  by (auto simp: link_attributes_def js_def)

lemma name_length: "map fold_unit w = js a \<Longrightarrow> length w = length a"
  by (auto simp: js_def dest: map_eq_imp_length_eq)

lemma literal_attr:
  "literal (a @ ''='') s \<longleftrightarrow> (\<exists>w r. s = w @ 0x3D # r \<and> map fold_unit w = js a)"
proof
  assume l: "literal (a @ ''='') s"
  then have m: "map fold_unit (take (Suc (length a)) s) = js a @ [0x3D]"
    by (simp add: literal_def js_append) (simp add: js_def)
  have "length (take (Suc (length a)) s) = Suc (length a)"
    using arg_cong [OF m, of length] by (simp add: js_def)
  then have t: "take (Suc (length a)) s = take (length a) s @ [s ! length a]"
    by (simp add: take_Suc_conv_app_nth)
  with m have "map fold_unit (take (length a) s) = js a" "s ! length a = 0x3D"
    by auto
  moreover have "s = take (length a) s @ s ! length a # drop (Suc (length a)) s"
    by (metis t append_take_drop_id append_Cons append_Nil append_assoc)
  ultimately show "\<exists>w r. s = w @ 0x3D # r \<and> map fold_unit w = js a"
    by metis
next
  assume "\<exists>w r. s = w @ 0x3D # r \<and> map fold_unit w = js a"
  then obtain w r where w: "s = w @ 0x3D # r" "map fold_unit w = js a"
    by blast
  then have "length w = length a"
    by (simp add: name_length)
  then show "literal (a @ ''='') s"
    using w by (simp add: literal_def js_append) (simp add: js_def fold_unit_def)
qed

lemma takeWhile_sign: "x \<notin> set w \<Longrightarrow> takeWhile (\<lambda>c. c \<noteq> x) (w @ x # r) = w"
  by (induction w) auto

text \<open>An attribute: its name in any case, the equals sign, a quote, and a slash that is not doubled.\<close>

definition attr_text :: "js_string \<Rightarrow> 16 word \<Rightarrow> js_string \<Rightarrow> bool" where
  "attr_text w q r \<longleftrightarrow> map fold_unit w \<in> js ` set link_attributes \<and> (q = 0x22 \<or> q = 0x27) \<and> (r = [] \<or> hd r \<noteq> slash)"

lemma attr_name_plain:
  assumes "map fold_unit w = js a" "a \<in> set link_attributes"
  shows "0x3D \<notin> set w \<and> (\<forall>c \<in> set w. word_unit c) \<and> 3 \<le> length w"
proof -
  have "0x3D \<notin> set (map fold_unit w)" and l: "\<forall>c \<in> set (map fold_unit w). 0x61 \<le> c \<and> c \<le> 0x7A" and "3 \<le> length w"
    using assms link_attributes_plain [OF assms(2)] name_length [OF assms(1)] by auto
  moreover have "word_unit c" if "c \<in> set w" for c
    using l that by (force simp: fold_unit_def word_unit_def split: if_splits)
  ultimately show ?thesis
    by (auto simp: fold_unit_def split: if_splits)
qed

lemma attr_match_iff:
  "attr_match prev s = Some n \<longleftrightarrow>
     at_word prev \<and> (\<exists>w q r. s = w @ 0x3D # q # slash # r \<and> attr_text w q r \<and> n = length w + 3)"
proof
  assume m: "attr_match prev s = Some n"
  then obtain a where a: "List.find (\<lambda>a. literal (a @ ''='') s) link_attributes = Some a"
    by (auto simp: attr_match_def split: if_splits option.splits)
  then have "a \<in> set link_attributes" "literal (a @ ''='') s"
    by (auto simp: find_Some_iff)
  then obtain w t where w: "s = w @ 0x3D # t" "map fold_unit w = js a"
    by (auto simp: literal_attr)
  have l: "length w = length a"
    by (rule name_length [OF w(2)])
  then obtain q r where "t = q # slash # r" "q = 0x22 \<or> q = 0x27" "r = [] \<or> hd r \<noteq> slash" "n = length w + 3" "at_word prev"
    using m a w by (auto simp: attr_match_def lone_slash_def split: if_splits list.splits)
  then show "at_word prev \<and> (\<exists>w q r. s = w @ 0x3D # q # slash # r \<and> attr_text w q r \<and> n = length w + 3)"
    using w \<open>a \<in> set link_attributes\<close> unfolding attr_text_def by blast
next
  assume "at_word prev \<and> (\<exists>w q r. s = w @ 0x3D # q # slash # r \<and> attr_text w q r \<and> n = length w + 3)"
  then obtain w q r b where s: "at_word prev" "s = w @ 0x3D # q # slash # r" "attr_text w q r" "n = length w + 3"
    and b: "map fold_unit w = js b" "b \<in> set link_attributes"
    by (auto simp: attr_text_def)
  obtain a where a: "List.find (\<lambda>a. literal (a @ ''='') s) link_attributes = Some a"
    using b s(2) by (cases "List.find (\<lambda>a. literal (a @ ''='') s) link_attributes") (auto simp: find_None_iff literal_attr)
  then have "a \<in> set link_attributes" "literal (a @ ''='') s"
    by (auto simp: find_Some_iff)
  then obtain v t where v: "s = v @ 0x3D # t" "map fold_unit v = js a" "0x3D \<notin> set v"
    using attr_name_plain by (auto simp: literal_attr)
  have "w = v"
    using takeWhile_sign [OF v(3), of t] takeWhile_sign [of "0x3D" w "q # slash # r"] v(1) s(2) attr_name_plain [OF b] by simp
  then have "length w = length a"
    using name_length [OF v(2)] by simp
  then show "attr_match prev s = Some n"
    using a s by (auto simp: attr_match_def attr_text_def lone_slash_def)
qed

lemma attr_match_bounds: "attr_match prev s = Some n \<Longrightarrow> 0 < n \<and> n \<le> length s"
  by (auto simp: attr_match_iff)

subsection \<open>Replacing\<close>

function rewrite_attrs :: "js_string \<Rightarrow> 16 word option \<Rightarrow> js_string \<Rightarrow> js_string" where
  "rewrite_attrs pre prev s =
     (case attr_match prev s of
        Some n \<Rightarrow> take (n - 1) s @ pre @ slash # rewrite_attrs pre (Some slash) (drop n s)
      | None \<Rightarrow> (case s of [] \<Rightarrow> [] | c # r \<Rightarrow> c # rewrite_attrs pre (Some c) r))"
  by pat_completeness auto

termination
  by (relation "measure (\<lambda>(_, _, s). length s)") (auto dest: attr_match_bounds)

declare rewrite_attrs.simps [simp del]

fun insert_head :: "js_string \<Rightarrow> js_string \<Rightarrow> js_string" where
  "insert_head ins [] = []"
| "insert_head ins (c # r) =
     (case head_match (c # r) of
        Some n \<Rightarrow> take n (c # r) @ ins @ drop n (c # r)
      | None \<Rightarrow> c # insert_head ins r)"

definition bridgeScript :: "js_string \<Rightarrow> js_string" where
  "bridgeScript pre =
     js ''<script>(function(){var p='' @ quote pre @
     js '',r=function(v){if(typeof v!==\"string\")return v;try{var u=new URL(v,location.href);'' @
     js ''if(u.origin===location.origin&&u.pathname.charAt(0)===\"/\"&&u.pathname.indexOf(p)!==0)'' @
     js ''return p+u.pathname+u.search+u.hash}catch(e){}return v},f=window.fetch;'' @
     js ''window.fetch=function(i,o){if(i instanceof Request)return f(new Request(r(i.url),i),o);return f(r(i),o)};'' @
     js ''var open=XMLHttpRequest.prototype.open;XMLHttpRequest.prototype.open=function(){'' @
     js ''if(arguments.length>1)arguments[1]=r(arguments[1]);return open.apply(this,arguments)}})();</script>''"

definition rewriteHTML :: "js_string \<Rightarrow> js_string \<Rightarrow> js_string" where
  "rewriteHTML text pre =
     insert_head (js ''<base href=\"'' @ pre @ js ''/\">'' @ bridgeScript pre) (rewrite_attrs pre None text)"

text \<open>In a replacement that is a string \<open>$$\<close>, \<open>$&\<close> and the two quotes after a dollar are special.\<close>

fun expand :: "js_string \<Rightarrow> js_string \<Rightarrow> js_string \<Rightarrow> js_string \<Rightarrow> js_string" where
  "expand matched before after (c # d # t) =
     (if c = 0x24 \<and> d = 0x24 then 0x24 # expand matched before after t
      else if c = 0x24 \<and> d = 0x26 then matched @ expand matched before after t
      else if c = 0x24 \<and> d = 0x60 then before @ expand matched before after t
      else if c = 0x24 \<and> d = 0x27 then after @ expand matched before after t
      else c # expand matched before after (d # t))"
| "expand matched before after t = t"

lemma lone_slash_inside: "lone_slash (drop k s) \<Longrightarrow> k < length s"
  by (rule ccontr) (simp add: lone_slash_def)

lemma url_match_bounds: "url_match s = Some n \<Longrightarrow> 0 < n \<and> n \<le> length s"
  by (auto simp: url_match_def Let_def dest: lone_slash_inside split: if_splits)

function rewriteCSS :: "js_string \<Rightarrow> js_string \<Rightarrow> js_string \<Rightarrow> js_string" where
  "rewriteCSS pre before s =
     (case url_match s of
        Some n \<Rightarrow>
          expand (take n s) before (drop n s) (js ''url('' @ pre @ [slash]) @ rewriteCSS pre (before @ take n s) (drop n s)
      | None \<Rightarrow> (case s of [] \<Rightarrow> [] | c # r \<Rightarrow> c # rewriteCSS pre (before @ [c]) r))"
  by pat_completeness auto

termination
  by (relation "measure (\<lambda>(_, _, s). length s)") (auto dest: url_match_bounds)

declare rewriteCSS.simps [simp del]

text \<open>\<open>rewriteBody\<close>: the first \<open>content-type\<close> decides, in any case.\<close>

definition content_type :: "(js_string \<times> js_string list) list \<Rightarrow> js_string" where
  "content_type hs =
     (case List.find (\<lambda>(n, vs). toLowerCase n = js ''content-type'') hs of
        None \<Rightarrow> []
      | Some (n, vs) \<Rightarrow> js_join [0x3B] vs)"

fun has_literal :: "string \<Rightarrow> js_string \<Rightarrow> bool" where
  "has_literal p [] = (p = [])"
| "has_literal p (c # s) = (literal p (c # s) \<or> has_literal p s)"

definition rewriteBody :: "js_string \<Rightarrow> byte list \<Rightarrow> (js_string \<times> js_string list) list \<Rightarrow> byte list" where
  "rewriteBody shellPath bytes hs =
     (let content = content_type hs; text = text_decode bytes in
      text_encode
        (if has_literal ''text/html'' content then rewriteHTML text shellPath else rewriteCSS shellPath [] text))"

subsection \<open>Nothing is lost\<close>

lemma rewrite_attrs_None:
  "attr_match prev (c # r) = None \<Longrightarrow> rewrite_attrs pre prev (c # r) = c # rewrite_attrs pre (Some c) r"
  by (subst rewrite_attrs.simps) simp

lemma rewrite_attrs_Nil [simp]: "rewrite_attrs pre prev [] = []"
  by (subst rewrite_attrs.simps) (simp add: attr_match_def literal_def link_attributes_def js_def)

lemma rewrite_attrs_Some:
  assumes "attr_match prev s = Some n"
  obtains w q r where "s = w @ 0x3D # q # slash # r" "attr_text w q r" "at_word prev"
    "rewrite_attrs pre prev s = w @ 0x3D # q # pre @ slash # rewrite_attrs pre (Some slash) r"
proof -
  obtain w q r where w: "at_word prev" "s = w @ 0x3D # q # slash # r" "attr_text w q r" "n = length w + 3"
    using assms by (auto simp: attr_match_iff)
  moreover have "rewrite_attrs pre prev s = take (n - 1) s @ pre @ slash # rewrite_attrs pre (Some slash) (drop n s)"
    using assms by (subst rewrite_attrs.simps) simp
  ultimately show thesis
    using that by (simp add: numeral_eq_Suc)
qed

lemma subseq_rewrite_attrs: "subseq s (rewrite_attrs pre prev s)"
proof (induction s arbitrary: prev rule: length_induct)
  case (1 s)
  show ?case
  proof (cases "attr_match prev s")
    case (Some n)
    then obtain w q r where w: "s = w @ 0x3D # q # slash # r"
      "rewrite_attrs pre prev s = w @ 0x3D # q # pre @ slash # rewrite_attrs pre (Some slash) r"
      by (rule rewrite_attrs_Some)
    moreover from this 1 have "subseq r (rewrite_attrs pre (Some slash) r)"
      by simp
    ultimately show ?thesis
      by (simp add: subseq_append' list_emb_append2)
  next
    case None
    then show ?thesis
      using 1 by (cases s) (auto simp: rewrite_attrs_None)
  qed
qed

lemma subseq_insert_head: "subseq s (insert_head ins s)"
proof (induction s)
  case (Cons c s)
  have "subseq (take n x @ drop n x) (take n x @ ins @ drop n x)" for n x
    by (intro list_emb_append_mono) (auto intro: list_emb_append2)
  then show ?case
    using Cons by (auto split: option.splits simp del: take_Cons' drop_Cons')
qed simp

lemma subseq_rewriteHTML: "subseq text (rewriteHTML text pre)"
  unfolding rewriteHTML_def using subseq_rewrite_attrs subseq_insert_head by (rule subseq_order.order_trans)

lemma rewrite_attrs_Cons: "\<exists>t. rewrite_attrs pre prev (c # r) = c # t"
proof (cases "attr_match prev (c # r)")
  case (Some n)
  then obtain w q t where w: "c # r = w @ 0x3D # q # slash # t" "attr_text w q t"
    "rewrite_attrs pre prev (c # r) = w @ 0x3D # q # pre @ slash # rewrite_attrs pre (Some slash) t"
    by (rule rewrite_attrs_Some)
  moreover from this(2) have "w \<noteq> []"
    using attr_name_plain [of w] by (force simp: attr_text_def)
  ultimately show ?thesis
    by (cases w) auto
qed (simp add: rewrite_attrs_None)

subsection \<open>Well-formed text\<close>

text \<open>A text without lone surrogates is the UTF-16 of code points. Decoding gives such a text, and the rewriting
  keeps it so, as it inserts at ASCII characters only.\<close>

definition well_formed :: "js_string \<Rightarrow> bool" where
  "well_formed s \<longleftrightarrow> None \<notin> set (scalars s)"

lemma scalars_utf16:
  assumes "scalar_ok n"
  shows "scalars (utf16 n @ s) = Some n # scalars s"
proof (cases "n < 0x10000")
  case True
  then have u: "unat (of_nat n :: 16 word) = n"
    by (simp add: unat_of_nat)
  then have "\<not> is_high (of_nat n)" "scalar_of_unit (of_nat n) = Some n"
    using assms by (auto simp: is_high_def is_low_def scalar_of_unit_def scalar_ok_def word_le_nat_alt)
  then show ?thesis
    using True by (cases s) (auto simp: utf16_def)
next
  case False
  define a b where "a = (n - 0x10000) div 0x400" and "b = (n - 0x10000) mod 0x400"
  have n: "n = 0x10000 + a * 0x400 + b"
    using False by (simp add: a_def b_def)
  have "a < 0x400" "b < 0x400"
    using assms by (auto simp: a_def b_def scalar_ok_def less_mult_imp_div_less)
  then have "unat (of_nat (0xD800 + a) :: 16 word) = 0xD800 + a" "unat (of_nat (0xDC00 + b) :: 16 word) = 0xDC00 + b"
    by (auto simp only: unat_of_nat) (simp_all)
  then have "is_high (of_nat (0xD800 + a))" "is_low (of_nat (0xDC00 + b))"
    using \<open>a < 0x400\<close> \<open>b < 0x400\<close> by (auto simp: is_high_def is_low_def word_le_nat_alt)
  moreover have "utf16 n = [of_nat (0xD800 + a), of_nat (0xDC00 + b)]"
    using False by (simp add: utf16_def a_def b_def)
  ultimately show ?thesis
    using \<open>unat (of_nat (0xD800 + a) :: 16 word) = 0xD800 + a\<close> \<open>unat (of_nat (0xDC00 + b) :: 16 word) = 0xDC00 + b\<close> n
    by simp
qed

lemma scalars_concat: "list_all scalar_ok ns \<Longrightarrow> scalars (concat (map utf16 ns)) = map Some ns"
  by (induction ns) (auto simp: scalars_utf16)

lemma well_formed_iff: "well_formed s \<longleftrightarrow> (\<exists>ns. list_all scalar_ok ns \<and> s = concat (map utf16 ns))"
proof
  assume w: "well_formed s"
  have "list_all scalar_ok (map the (scalars s))"
    using w scalars_ok [of _ s] by (auto simp: well_formed_def list_all_iff) (metis option.collapse)
  moreover have "s = concat (map utf16 (map the (scalars s)))"
    using utf16_scalars [of s] w by (simp add: well_formed_def)
  ultimately show "\<exists>ns. list_all scalar_ok ns \<and> s = concat (map utf16 ns)"
    by blast
next
  assume "\<exists>ns. list_all scalar_ok ns \<and> s = concat (map utf16 ns)"
  then show "well_formed s"
    using scalars_concat by (auto simp: well_formed_def)
qed

lemma well_formed_append: "well_formed a \<Longrightarrow> well_formed b \<Longrightarrow> well_formed (a @ b)"
  by (metis well_formed_iff list_all_append map_append concat_append)

text \<open>A unit that is no surrogate is a code point of its own.\<close>

definition plain_unit :: "16 word \<Rightarrow> bool" where
  "plain_unit c \<longleftrightarrow> \<not> is_high c \<and> \<not> is_low c"

lemma utf16_split:
  assumes "scalar_ok n" "utf16 n @ t = a @ c # b" "plain_unit c"
  shows "a = [] \<and> utf16 n = [c] \<or> (\<exists>a'. a = utf16 n @ a' \<and> t = a' @ c # b)"
proof (cases "n < 0x10000")
  case True
  then show ?thesis
    using assms(2) by (cases a) (auto simp: utf16_def)
next
  case False
  have "is_high (hd (utf16 n))" "is_low (last (utf16 n))" "length (utf16 n) = 2"
    using scalars_utf16 [OF assms(1), of "[]"] False by (auto simp: utf16_def scalar_of_unit_def split: if_splits)
  then obtain x y where "utf16 n = [x, y]" "is_high x" "is_low y"
    by (cases "utf16 n") (auto simp: length_Suc_conv numeral_2_eq_2)
  then show ?thesis
    using assms(2,3) by (cases a; cases "tl a") (auto simp: plain_unit_def)
qed

lemma well_formed_split:
  assumes "well_formed (a @ c # b)" "plain_unit c"
  shows "well_formed a \<and> well_formed b"
proof -
  have "list_all scalar_ok ns \<Longrightarrow> concat (map utf16 ns) = a @ c # b \<Longrightarrow> well_formed a \<and> well_formed b" for ns
  proof (induction ns arbitrary: a)
    case (Cons n ns)
    then have "scalar_ok n" "utf16 n @ concat (map utf16 ns) = a @ c # b"
      by auto
    then consider "a = []" "utf16 n = [c]" | a' where "a = utf16 n @ a'" "concat (map utf16 ns) = a' @ c # b"
      using utf16_split [OF _ _ assms(2)] by metis
    then show ?case
    proof cases
      case 1
      then have "b = concat (map utf16 ns)"
        using Cons.prems(2) by simp
      then show ?thesis
        using 1 Cons.prems(1) by (auto simp: well_formed_iff intro: exI [of _ "[]"])
    next
      case 2
      then have "well_formed a'" "well_formed b"
        using Cons by auto
      moreover have "well_formed (utf16 n)"
        using \<open>scalar_ok n\<close> by (auto simp: well_formed_iff intro: exI [of _ "[n]"])
      ultimately show ?thesis
        using 2(1) well_formed_append by blast
    qed
  qed simp
  then show ?thesis
    using assms(1) by (auto simp: well_formed_iff)
qed

lemma well_formed_unit: "plain_unit c \<Longrightarrow> well_formed [c]"
  by (simp add: well_formed_def plain_unit_def scalar_of_unit_def)

lemma well_formed_units: "\<forall>c \<in> set s. plain_unit c \<Longrightarrow> well_formed s"
proof (induction s)
  case (Cons c s)
  then show ?case
    using well_formed_append [of "[c]" s] well_formed_unit [of c] by simp
qed (simp add: well_formed_def)

lemma plain_js: "c \<in> set (js s) \<Longrightarrow> plain_unit c"
  using js_ascii [of c s] by (auto simp: plain_unit_def is_high_def is_low_def word_le_nat_alt)

lemma well_formed_js: "well_formed (js s)"
  using well_formed_units plain_js by blast

lemma well_formed_rewrite_attrs:
  assumes "well_formed pre"
  shows "well_formed (p @ s) \<Longrightarrow> well_formed (p @ rewrite_attrs pre prev s)"
proof (induction s arbitrary: p prev rule: length_induct)
  case (1 s)
  note IH = 1(1) and wf = 1(2)
  show ?case
  proof (cases "attr_match prev s")
    case (Some n)
    then obtain w q r where w: "s = w @ 0x3D # q # slash # r" "attr_text w q r"
      "rewrite_attrs pre prev s = w @ 0x3D # q # pre @ slash # rewrite_attrs pre (Some slash) r"
      by (rule rewrite_attrs_Some)
    have plain: "plain_unit 0x3D" "plain_unit q" "plain_unit slash"
      using w(2) by (auto simp: attr_text_def plain_unit_def is_high_def is_low_def slash_def)
    have "well_formed (p @ w)" "well_formed (q # slash # r)"
      using well_formed_split [of "p @ w" "0x3D" "q # slash # r"] wf w(1) plain by auto
    moreover from this(2) have "well_formed r"
      using well_formed_split [of "[q]" slash r] plain by simp
    then have "well_formed (rewrite_attrs pre (Some slash) r)"
      using IH [rule_format, of r "[]"] w(1) by simp
    moreover have "well_formed [0x3D, q]" "well_formed [slash]"
      using plain by (auto intro: well_formed_units)
    moreover define u where "u = p @ w"
    ultimately have "well_formed (u @ [0x3D, q] @ pre @ [slash] @ rewrite_attrs pre (Some slash) r)"
      using assms by (intro well_formed_append) auto
    then show ?thesis
      by (simp add: u_def w(3))
  next
    case None
    show ?thesis
    proof (cases s)
      case (Cons c r)
      then have "well_formed ((p @ [c]) @ rewrite_attrs pre (Some c) r)"
        using IH [rule_format, of r "p @ [c]"] wf by simp
      then show ?thesis
        using None Cons by (simp add: rewrite_attrs_None)
    qed (use wf in simp)
  qed
qed

lemma head_match_split: "head_match s = Some n \<Longrightarrow> \<exists>x y. s = x @ 0x3E # y \<and> take n s = x @ [0x3E] \<and> drop n s = y"
proof -
  assume h: "head_match s = Some n"
  then have "0x3E \<in> set (drop 5 s)" and n: "n = 5 + length (takeWhile (\<lambda>c. c \<noteq> 0x3E) (drop 5 s)) + 1"
    by (auto simp: head_match_def split: if_splits)
  then obtain z y where z: "drop 5 s = z @ 0x3E # y" "0x3E \<notin> set z"
    using split_list_first by metis
  then have "length (takeWhile (\<lambda>c. c \<noteq> 0x3E) (drop 5 s)) = length z"
    by (simp add: takeWhile_sign)
  moreover have "s = (take 5 s @ z) @ 0x3E # y"
    using append_take_drop_id [of 5 s] z(1) by simp
  moreover have "length (take 5 s) = 5"
    using z(1) by (cases "5 \<le> length s") auto
  moreover define x where "x = take 5 s @ z"
  ultimately have "s = x @ 0x3E # y" "n = length x + 1"
    using n by simp_all
  then show ?thesis
    by auto
qed

lemma well_formed_insert_head:
  assumes "well_formed ins"
  shows "well_formed (p @ s) \<Longrightarrow> well_formed (p @ insert_head ins s)"
proof (induction s arbitrary: p)
  case (Cons c r)
  show ?case
  proof (cases "head_match (c # r)")
    case None
    then show ?thesis
      using Cons.IH [of "p @ [c]"] Cons.prems by simp
  next
    case (Some n)
    then obtain x y where x: "c # r = x @ 0x3E # y" "take n (c # r) = x @ [0x3E]" "drop n (c # r) = y"
      using head_match_split by blast
    have plain: "plain_unit 0x3E"
      by (simp add: plain_unit_def is_high_def is_low_def)
    then have "well_formed (p @ x)" "well_formed y"
      using well_formed_split [of "p @ x" "0x3E" y] Cons.prems x(1) by auto
    moreover define u where "u = p @ x"
    ultimately have "well_formed (u @ [0x3E] @ ins @ y)"
      using assms well_formed_unit [OF plain] by (intro well_formed_append) auto
    moreover have "insert_head ins (c # r) = x @ [0x3E] @ ins @ y"
      using Some x(2,3) by simp
    ultimately show ?thesis
      by (simp add: u_def)
  qed
qed simp

text \<open>The path of the tunnel, as a URL gives it, is ASCII.\<close>

lemma plain_small: "unat c < 0xD800 \<Longrightarrow> plain_unit c"
  by (simp add: plain_unit_def is_high_def is_low_def word_le_nat_alt)

lemma plain_hex: "d < 16 \<Longrightarrow> plain_unit (hex_lower d)"
  by (rule plain_small) (simp add: hex_lower_def unat_word_ariths unat_of_nat)

lemma plain_quote_unit: "plain_unit c \<Longrightarrow> x \<in> set (quote_unit c) \<Longrightarrow> plain_unit x"
  using unat16_less [of c]
  by (auto simp: quote_unit_def hex4_def Let_def less_mult_imp_div_less intro: plain_hex plain_small split: if_splits)

lemma plain_quote: "\<forall>c \<in> set s. plain_unit c \<Longrightarrow> x \<in> set (quote s) \<Longrightarrow> plain_unit x"
proof -
  have "\<forall>c \<in> set s. plain_unit c \<Longrightarrow> x \<in> set (quote_units s) \<Longrightarrow> plain_unit x"
    by (induction s rule: quote_units.induct) (auto dest: plain_quote_unit split: if_splits)
  then show "\<forall>c \<in> set s. plain_unit c \<Longrightarrow> x \<in> set (quote s) \<Longrightarrow> plain_unit x"
    by (auto simp: quote_def intro: plain_small)
qed

lemma well_formed_rewriteHTML:
  assumes "\<forall>c \<in> set pre. plain_unit c" "well_formed s"
  shows "well_formed (rewriteHTML s pre)"
proof -
  have "well_formed pre" "well_formed (quote pre)"
    using assms(1) plain_quote [OF assms(1)] by (blast intro: well_formed_units)+
  then have "well_formed (js ''<base href=\"'' @ pre @ js ''/\">'' @ bridgeScript pre)"
    unfolding bridgeScript_def by (intro well_formed_append well_formed_js)
  moreover have "well_formed (rewrite_attrs pre None s)"
    using well_formed_rewrite_attrs [OF \<open>well_formed pre\<close>, of "[]" s] assms(2) by simp
  ultimately show ?thesis
    using well_formed_insert_head [of _ "[]"] by (simp add: rewriteHTML_def)
qed

lemma utf8_lead_ok: "b < 256 \<Longrightarrow> \<forall>x \<in> set r. x < 256 \<Longrightarrow> utf8_lead b r = (n, t) \<Longrightarrow> scalar_ok n \<and> (\<forall>x \<in> set t. x < 256)"
  by (cases r; cases "tl r"; cases "tl (tl r)")
    (auto simp: utf8_lead_def scalar_ok_def numeral_2_eq_2 numeral_3_eq_3 split: if_splits)

lemma utf8_scalars_ok: "\<forall>x \<in> set bs. x < 256 \<Longrightarrow> list_all scalar_ok (utf8_scalars bs)"
proof (induction bs rule: utf8_scalars.induct)
  case (2 b r)
  obtain n t where l: "utf8_lead b r = (n, t)"
    by fastforce
  then show ?case
    using 2 utf8_lead_ok [OF _ _ l] by simp
qed simp

lemma well_formed_text_decode: "well_formed (text_decode bs)"
proof -
  have "\<forall>x \<in> set (map unat bs). x < 256"
    using unsigned_less [where ?'a = nat and ?'b = 8] by auto
  then have "list_all scalar_ok (utf8_scalars (map unat bs))"
    by (rule utf8_scalars_ok)
  then show ?thesis
    unfolding well_formed_iff text_decode_def Let_def
    by (intro exI [of _ "case utf8_scalars (map unat bs) of n # r \<Rightarrow> if n = 0xFEFF then r else utf8_scalars (map unat bs) | [] \<Rightarrow> []"])
      (auto split: list.splits)
qed

subsection \<open>No link to the root is left\<close>

text \<open>Wherever the expression matches, the link lies below the path of the tunnel.\<close>

fun rooted :: "js_string \<Rightarrow> 16 word option \<Rightarrow> js_string \<Rightarrow> bool" where
  "rooted pre prev [] = True"
| "rooted pre prev (c # s) =
     ((case attr_match prev (c # s) of None \<Rightarrow> True | Some n \<Rightarrow> startsWith (drop (n - 1) (c # s)) (pre @ [slash])) \<and>
      rooted pre (Some c) s)"

lemma plain_units [simp]: "\<not> word_unit slash" "\<not> word_unit 0x3D" "\<not> word_unit 0x22" "\<not> word_unit 0x27"
  by (simp_all add: word_unit_def slash_def)

lemma attr_text_name:
  assumes "attr_text w q r"
  shows "w \<noteq> []" "0x3D \<notin> set w" "\<forall>c \<in> set w. word_unit c" "\<not> word_unit q"
  using assms attr_name_plain [of w] by (force simp: attr_text_def)+

lemma attr_match_word: "word_unit c \<Longrightarrow> attr_match (Some c) s = None"
  by (simp add: attr_match_def at_word_def)

lemma attr_match_plain: "\<not> word_unit c \<Longrightarrow> attr_match prev (c # s) = None"
proof (rule ccontr)
  assume "\<not> word_unit c" "attr_match prev (c # s) \<noteq> None"
  then obtain w q r where "c # s = w @ 0x3D # q # slash # r" "attr_text w q r"
    by (auto simp: attr_match_iff)
  then show False
    using attr_text_name [of w q r] \<open>\<not> word_unit c\<close> by (cases w) auto
qed

lemma rewrite_attrs_plain:
  assumes "rewrite_attrs pre prev s = c # t" "\<not> word_unit c"
  shows "\<exists>s'. s = c # s' \<and> t = rewrite_attrs pre (Some c) s'"
proof (cases s)
  case (Cons d s')
  then have "d = c"
    using assms(1) rewrite_attrs_Cons [of pre prev d s'] by auto
  then show ?thesis
    using assms Cons by (simp add: rewrite_attrs_None attr_match_plain)
qed (use assms(1) in simp)

lemma rewrite_attrs_word:
  assumes "rewrite_attrs pre (Some x) s = w @ y" "word_unit x" "\<forall>c \<in> set w. word_unit c"
  shows "\<exists>s' z. s = w @ s' \<and> word_unit z \<and> y = rewrite_attrs pre (Some z) s'"
  using assms
proof (induction w arbitrary: x s)
  case (Cons c w)
  then obtain d s' where s: "s = d # s'"
    by (cases s) auto
  then have "c = d" "rewrite_attrs pre (Some c) s' = w @ y"
    using Cons.prems by (auto simp: rewrite_attrs_None attr_match_word)
  then show ?case
    using Cons.IH [of c s'] Cons.prems(3) s by auto
qed auto

lemma rewrite_attrs_no_new:
  assumes "attr_match prev (c # s) = None"
  shows "attr_match prev (c # rewrite_attrs pre (Some c) s) = None"
proof (rule ccontr)
  assume "attr_match prev (c # rewrite_attrs pre (Some c) s) \<noteq> None"
  then obtain w q r where w: "c # rewrite_attrs pre (Some c) s = w @ 0x3D # q # slash # r" "attr_text w q r" "at_word prev"
    by (auto simp: attr_match_iff)
  note name = attr_text_name [OF w(2)]
  from w(1) name(1) obtain v where v: "w = c # v" "rewrite_attrs pre (Some c) s = v @ 0x3D # q # slash # r"
    by (cases w) auto
  then obtain s1 z where s1: "s = v @ s1" "rewrite_attrs pre (Some z) s1 = 0x3D # q # slash # r"
    using rewrite_attrs_word [of pre c s v "0x3D # q # slash # r"] name(3) by auto
  then obtain s2 where s2: "s1 = 0x3D # s2" "rewrite_attrs pre (Some 0x3D) s2 = q # slash # r"
    using rewrite_attrs_plain by fastforce
  then obtain s3 where s3: "s2 = q # s3" "rewrite_attrs pre (Some q) s3 = slash # r"
    using rewrite_attrs_plain [OF s2(2) name(4)] by fastforce
  then obtain s4 where s4: "s3 = slash # s4" "r = rewrite_attrs pre (Some slash) s4"
    using rewrite_attrs_plain by fastforce
  have "s4 = [] \<or> hd s4 \<noteq> slash"
  proof (cases s4)
    case (Cons d t)
    then show ?thesis
      using w(2) s4(2) rewrite_attrs_Cons [of pre "Some slash" d t] by (auto simp: attr_text_def)
  qed simp
  then have "attr_text w q s4"
    using w(2) by (simp add: attr_text_def)
  moreover have "c # s = w @ 0x3D # q # slash # s4"
    by (simp add: v(1) s1(1) s2(1) s3(1) s4(1))
  ultimately have "attr_match prev (c # s) = Some (length w + 3)"
    using w(3) by (auto simp: attr_match_iff)
  then show False
    using assms by simp
qed

lemma attr_match_prefix:
  assumes "0x3D \<notin> set p"
  shows "attr_match prev (p @ slash # s) = None"
proof (rule ccontr)
  assume "attr_match prev (p @ slash # s) \<noteq> None"
  then obtain w q r where w: "p @ slash # s = w @ 0x3D # q # slash # r" "attr_text w q r"
    by (auto simp: attr_match_iff)
  then have "takeWhile (\<lambda>c. c \<noteq> 0x3D) (p @ slash # s) = w"
    using takeWhile_sign [OF attr_text_name(2) [OF w(2)], of "q # slash # r"] by (simp only: w(1))
  moreover have "takeWhile (\<lambda>c. c \<noteq> 0x3D) (p @ slash # s) = p @ slash # takeWhile (\<lambda>c. c \<noteq> 0x3D) s"
    using assms by (induction p) (auto simp: slash_def)
  ultimately have "slash \<in> set w"
    by auto
  then show False
    using attr_text_name(3) [OF w(2)] plain_units(1) by blast
qed

lemma rooted_prefix: "0x3D \<notin> set p \<Longrightarrow> rooted pre (Some slash) s \<Longrightarrow> rooted pre prev (p @ slash # s)"
  by (induction p arbitrary: prev)
    (auto simp: attr_match_plain attr_match_prefix [of "_ # _", simplified])

lemma rooted_word:
  "word_unit x \<Longrightarrow> \<forall>c \<in> set w. word_unit c \<Longrightarrow> (\<And>z. rooted pre (Some z) y) \<Longrightarrow> rooted pre (Some x) (w @ y)"
  by (induction w arbitrary: x) (auto simp: attr_match_word)

lemma rooted_attr:
  assumes "attr_text w q r" "0x3D \<notin> set pre" "rooted pre (Some slash) s"
  shows "rooted pre prev (w @ 0x3D # q # pre @ slash # s)"
proof -
  note name = attr_text_name [OF assms(1)]
  obtain c v where w: "w = c # v"
    using name(1) by (cases w) auto
  have "rooted pre (Some z) (0x3D # q # pre @ slash # s)" for z
    using name(4) assms(2,3) by (simp add: attr_match_plain rooted_prefix)
  then have "rooted pre (Some c) (v @ 0x3D # q # pre @ slash # s)"
    using name(3) w by (intro rooted_word) auto
  moreover have "n = length w + 3" if n: "attr_match prev (w @ 0x3D # q # pre @ slash # s) = Some n" for n
  proof -
    obtain w' q' r' where w': "w @ 0x3D # q # pre @ slash # s = w' @ 0x3D # q' # slash # r'" "attr_text w' q' r'"
      "n = length w' + 3"
      using n by (auto simp: attr_match_iff)
    then have "w = w'"
      using takeWhile_sign [OF name(2)] takeWhile_sign [OF attr_text_name(2) [OF w'(2)]] by metis
    then show ?thesis
      using w'(3) by simp
  qed
  ultimately show ?thesis
    by (auto simp: w startsWith_iff numeral_3_eq_3 split: option.splits)
qed

lemma rooted_rewrite_attrs:
  assumes "0x3D \<notin> set pre"
  shows "rooted pre prev (rewrite_attrs pre prev s)"
proof (induction s arbitrary: prev rule: length_induct)
  case (1 s)
  show ?case
  proof (cases "attr_match prev s")
    case (Some n)
    then obtain w q r where w: "s = w @ 0x3D # q # slash # r" "attr_text w q r"
      "rewrite_attrs pre prev s = w @ 0x3D # q # pre @ slash # rewrite_attrs pre (Some slash) r"
      by (rule rewrite_attrs_Some)
    moreover have "rooted pre (Some slash) (rewrite_attrs pre (Some slash) r)"
      using 1 w(1) by simp
    ultimately show ?thesis
      using rooted_attr [OF w(2) assms] by simp
  next
    case None
    show ?thesis
    proof (cases s)
      case (Cons c r)
      then show ?thesis
        using 1 None rewrite_attrs_no_new [of prev c r pre] by (simp add: rewrite_attrs_None)
    qed simp
  qed
qed

subsection \<open>The document with its head\<close>

text \<open>A tag ends what a match may reach, as neither an attribute nor the path of the tunnel has its closing bracket.\<close>

lemma attr_match_gt: "attr_match prev (x @ 0x3E # y) = attr_match prev (x @ [0x3E])"
proof -
  have "attr_match prev (x @ 0x3E # y) = Some n \<longleftrightarrow> attr_match prev (x @ 0x3E # z) = Some n" for n y z
  proof -
    have "attr_match prev (x @ 0x3E # z) = Some n" if m: "attr_match prev (x @ 0x3E # y) = Some n" for y z
    proof -
      obtain w q r where w: "x @ 0x3E # y = (w @ [0x3D, q, slash]) @ r" "attr_text w q r" "n = length w + 3" "at_word prev"
        using m by (auto simp: attr_match_iff)
      have "0x3E \<notin> set (w @ [0x3D, q, slash])"
        using w(2) attr_text_name(3) [OF w(2)] by (auto simp: attr_text_def slash_def word_unit_def)
      then obtain v where v: "x = (w @ [0x3D, q, slash]) @ v" "r = v @ 0x3E # y"
        using w(1) by (auto simp: append_eq_append_conv2 append_eq_Cons_conv Cons_eq_append_conv)
      then have "attr_text w q (v @ 0x3E # z)"
        using w(2) by (cases v) (auto simp: attr_text_def slash_def)
      then show ?thesis
        using w(3,4) v(1) by (auto simp: attr_match_iff)
    qed
    then show ?thesis
      by blast
  qed
  then show ?thesis
    by (metis not_None_eq)
qed

lemma rooted_gt:
  assumes "0x3E \<notin> set pre"
  shows "rooted pre prev (x @ 0x3E # y) \<longleftrightarrow> rooted pre prev (x @ [0x3E]) \<and> rooted pre (Some 0x3E) y"
proof (induction x arbitrary: prev)
  case Nil
  then show ?case
    by (simp add: attr_match_plain word_unit_def)
next
  case (Cons c x)
  have "startsWith (drop (n - 1) (c # x @ 0x3E # y)) (pre @ [slash]) \<longleftrightarrow> startsWith (drop (n - 1) (c # x @ [0x3E])) (pre @ [slash])"
    if m: "attr_match prev (c # x @ [0x3E]) = Some n" for n
  proof -
    obtain w q r where w: "(c # x) @ [0x3E] = (w @ [0x3D, q, slash]) @ r" "attr_text w q r" "n = length w + 3"
      using m by (auto simp: attr_match_iff)
    have "n - 1 \<le> length (c # x)"
      using arg_cong [OF w(1), of length] w(3) by simp
    then obtain u where u: "drop (n - 1) ((c # x) @ 0x3E # z) = u @ 0x3E # z" for z
      by (metis drop_append diff_is_0_eq drop_0)
    have "startsWith (u @ 0x3E # z) (pre @ [slash]) \<longleftrightarrow> startsWith u (pre @ [slash])" for z
    proof
      assume "startsWith (u @ 0x3E # z) (pre @ [slash])"
      then obtain t where "u @ 0x3E # z = (pre @ [slash]) @ t"
        by (auto simp: startsWith_iff)
      moreover have "0x3E \<notin> set (pre @ [slash])"
        using assms by (simp add: slash_def)
      ultimately show "startsWith u (pre @ [slash])"
        by (auto simp: startsWith_iff append_eq_append_conv2 append_eq_Cons_conv Cons_eq_append_conv)
    qed (auto simp: startsWith_iff)
    then show ?thesis
      using u by simp
  qed
  then show ?case
    using Cons attr_match_gt [of prev "c # x" y] by (auto split: option.splits)
qed

text \<open>The head goes after a closing bracket.\<close>

lemma insert_head_cases:
  obtains "insert_head ins s = s" | x y where "s = x @ 0x3E # y" "insert_head ins s = x @ 0x3E # ins @ y"
proof -
  have "insert_head ins s = s \<or> (\<exists>x y. s = x @ 0x3E # y \<and> insert_head ins s = x @ 0x3E # ins @ y)"
  proof (induction s)
    case (Cons c r)
    show ?case
    proof (cases "head_match (c # r)")
      case None
      then show ?thesis
        using Cons by simp (metis append_Cons)
    next
      case (Some n)
      then obtain x y where x: "c # r = x @ 0x3E # y" "take n (c # r) = x @ [0x3E]" "drop n (c # r) = y"
        using head_match_split by blast
      have "insert_head ins (c # r) = x @ 0x3E # ins @ y"
        using Some x(2,3) by simp
      then show ?thesis
        using x(1) by blast
    qed
  qed simp
  then show thesis
    using that by blast
qed

text \<open>A text in which no equals sign before a quote follows a letter that ends a name of a link; \<open>a\<close> is the unit before the
  text.\<close>

definition name_end :: "16 word \<Rightarrow> bool" where
  "name_end c \<longleftrightarrow> fold_unit c \<in> {0x63, 0x66, 0x6E, 0x72}"

fun no_links :: "16 word \<Rightarrow> js_string \<Rightarrow> bool" where
  "no_links a [] = True"
| "no_links a (c # s) = ((c = 0x3D \<and> s \<noteq> [] \<and> (hd s = 0x22 \<or> hd s = 0x27) \<longrightarrow> \<not> name_end a) \<and> no_links c s)"

lemma no_links_append:
  "p \<noteq> [] \<Longrightarrow> last p \<noteq> 0x3D \<Longrightarrow> no_links a (p @ s) \<longleftrightarrow> no_links a p \<and> no_links (last p) s"
  by (induction a p rule: no_links.induct) (auto split: if_splits)

lemma no_links_no_sign: "0x3D \<notin> set p \<Longrightarrow> no_links a p"
  by (induction a p rule: no_links.induct) auto

lemma attr_text_end:
  assumes "attr_text w q r"
  shows "name_end (last w)"
proof -
  have "w \<noteq> []"
    using attr_text_name(1) [OF assms] .
  then have "fold_unit (last w) = last (map fold_unit w)"
    by (simp add: last_map)
  moreover obtain a where "map fold_unit w = js a" "a \<in> set link_attributes"
    using assms by (auto simp: attr_text_def)
  ultimately show ?thesis
    by (auto simp: name_end_def link_attributes_def js_def)
qed

lemma rooted_no_links: "no_links a s \<Longrightarrow> rooted pre prev s"
proof (induction s arbitrary: a prev)
  case (Cons c s)
  have "attr_match prev (c # s) = None"
  proof (rule ccontr)
    assume "attr_match prev (c # s) \<noteq> None"
    then obtain w q r where w: "c # s = w @ 0x3D # q # slash # r" "attr_text w q r"
      by (auto simp: attr_match_iff)
    moreover have "w \<noteq> []" "last w \<noteq> 0x3D"
      using attr_text_name(1,2) [OF w(2)] last_in_set [of w] by metis+
    ultimately have "no_links (last w) (0x3D # q # slash # r)"
      using Cons.prems no_links_append by metis
    then show False
      using w(2) attr_text_end [OF w(2)] by (auto simp: attr_text_def)
  qed
  then show ?case
    using Cons by auto
qed simp

lemma quote_no_sign:
  assumes "0x3D \<notin> set s"
  shows "0x3D \<notin> set (quote_units s)"
proof -
  have hex: "hex_lower d \<noteq> 0x3D" if "d < 16" for d
    using hex_lower_val [OF that] by (auto simp: hex_val_def)
  have "0x3D \<notin> set (quote_unit c)" if "c \<noteq> 0x3D" for c
    using that unat16_less [of c] hex [THEN not_sym]
    by (auto simp: quote_unit_def hex4_def Let_def less_mult_imp_div_less split: if_splits)
  then show ?thesis
    using assms by (induction s rule: quote_units.induct) (auto split: if_splits)
qed

text \<open>The text of the script after the path of the tunnel, a piece at a time.\<close>

lemma no_links_pieces:
  "no_links a (js ''<script>(function(){var p=\"'')"
  "no_links a (js '',r=function(v){if(typeof v!==\"string\")return v;try{var u=new URL(v,location.href);'')"
  "no_links a (js ''if(u.origin===location.origin&&u.pathname.charAt(0)===\"/\"&&u.pathname.indexOf(p)!==0)'')"
  "no_links a (js ''return p+u.pathname+u.search+u.hash}catch(e){}return v},f=window.fetch;'')"
  "no_links a (js ''window.fetch=function(i,o){if(i instanceof Request)return f(new Request(r(i.url),i),o);return f(r(i),o)};'')"
  "no_links a (js ''var open=XMLHttpRequest.prototype.open;XMLHttpRequest.prototype.open=function(){'')"
  "no_links a (js ''if(arguments.length>1)arguments[1]=r(arguments[1]);return open.apply(this,arguments)}})();</script>'')"
  by (simp_all add: js_def name_end_def fold_unit_def)

lemma bridgeScript_pieces:
  "bridgeScript pre = js ''<script>(function(){var p=\"'' @ (quote_units pre @ [0x22]) @
     js '',r=function(v){if(typeof v!==\"string\")return v;try{var u=new URL(v,location.href);'' @
     js ''if(u.origin===location.origin&&u.pathname.charAt(0)===\"/\"&&u.pathname.indexOf(p)!==0)'' @
     js ''return p+u.pathname+u.search+u.hash}catch(e){}return v},f=window.fetch;'' @
     js ''window.fetch=function(i,o){if(i instanceof Request)return f(new Request(r(i.url),i),o);return f(r(i),o)};'' @
     js ''var open=XMLHttpRequest.prototype.open;XMLHttpRequest.prototype.open=function(){'' @
     js ''if(arguments.length>1)arguments[1]=r(arguments[1]);return open.apply(this,arguments)}})();</script>''"
proof -
  have "js ''<script>(function(){var p=\"'' = js ''<script>(function(){var p='' @ [0x22]"
    by (simp add: js_def)
  then show ?thesis
    by (simp only: bridgeScript_def quote_def append_assoc)
qed

lemma no_links_js:
  assumes "no_links a (js p)" "p \<noteq> []" "last p \<noteq> CHR ''=''" "\<And>c. no_links c s"
  shows "no_links a (js p @ s)"
proof -
  have "last (js p) \<noteq> 0x3D"
    using assms(2,3) last_map [of p "of_char :: char \<Rightarrow> 16 word"] js_eq_iff [of "[last p]" "[CHR ''='']"] by (simp add: js_def)
  then show ?thesis
    using assms by (simp add: no_links_append)
qed

lemma no_links_bridgeScript:
  assumes "0x3D \<notin> set pre"
  shows "no_links a (bridgeScript pre)"
proof -
  have mid: "no_links c ((quote_units pre @ [0x22]) @ s)" if "\<And>d. no_links d s" for c s
    using that quote_no_sign [OF assms] no_links_no_sign [of "quote_units pre @ [0x22]" c]
    by (subst no_links_append) auto
  show ?thesis
    unfolding bridgeScript_pieces by (intro no_links_js mid no_links_pieces) simp_all
qed

lemma bridgeScript_end: "\<exists>z. bridgeScript pre = z @ [0x3E]"
proof -
  have "js ''if(arguments.length>1)arguments[1]=r(arguments[1]);return open.apply(this,arguments)}})();</script>'' =
      js ''if(arguments.length>1)arguments[1]=r(arguments[1]);return open.apply(this,arguments)}})();</script'' @ [0x3E]"
    by (simp add: js_def)
  then show ?thesis
    unfolding bridgeScript_pieces by (metis append_assoc)
qed

lemma rooted_base: "rooted pre (Some 0x3E) (js ''<base '' @ s) \<longleftrightarrow> rooted pre (Some 0x20) s"
proof -
  have "attr_match (Some 0x3C) (0x62 # t) = None" for t
    by (simp add: attr_match_def literal_def link_attributes_def js_def fold_unit_def)
  then show ?thesis
    by (simp add: js_def attr_match_plain attr_match_word word_unit_def)
qed

lemma rooted_head:
  assumes "0x3D \<notin> set pre" "0x3E \<notin> set pre" "rooted pre (Some 0x3E) y"
  shows "rooted pre (Some 0x3E) ((js ''<base href=\"'' @ pre @ js ''/\">'' @ bridgeScript pre) @ y)"
proof -
  obtain z where z: "bridgeScript pre = z @ [0x3E]"
    using bridgeScript_end by blast
  have "rooted pre (Some 0x3E) (z @ [0x3E])"
    using rooted_no_links [OF no_links_bridgeScript [OF assms(1)]] by (simp add: z)
  then have "rooted pre (Some 0x3E) (bridgeScript pre @ y)"
    using rooted_gt [OF assms(2), of "Some 0x3E" z y] assms(3) by (simp add: z)
  moreover have base: "js ''<base href=\"'' = js ''<base '' @ js ''href'' @ [0x3D, 0x22]" "js ''/\">'' = [slash, 0x22, 0x3E]"
    by (simp_all add: js_def slash_def)
  have "rooted pre (Some 0x20) (js ''href'' @ 0x3D # 0x22 # pre @ slash # [0x22, 0x3E])"
    using assms(1) by (intro rooted_attr [of _ _ "[]"]) (auto simp: attr_text_def link_attributes_def js_def fold_unit_def attr_match_plain word_unit_def)
  then have "rooted pre (Some 0x3E) ((js ''<base '' @ js ''href'' @ [0x3D, 0x22] @ pre @ [slash, 0x22]) @ [0x3E])"
    by (simp add: rooted_base)
  ultimately show ?thesis
    using rooted_gt [OF assms(2), of "Some 0x3E" "js ''<base '' @ js ''href'' @ [0x3D, 0x22] @ pre @ [slash, 0x22]" "bridgeScript pre @ y"]
    by (simp add: base)
qed

lemma rooted_rewriteHTML:
  assumes "0x3D \<notin> set pre" "0x3E \<notin> set pre"
  shows "rooted pre None (rewriteHTML text pre)"
proof -
  have "rooted pre None (insert_head (js ''<base href=\"'' @ pre @ js ''/\">'' @ bridgeScript pre) s)" if r: "rooted pre None s" for s
  proof (cases rule: insert_head_cases [of "js ''<base href=\"'' @ pre @ js ''/\">'' @ bridgeScript pre" s])
    case (2 x y)
    then show ?thesis
      using r rooted_gt [OF assms(2), of None x] rooted_head [OF assms] by metis
  qed (use r in simp)
  then show ?thesis
    using rooted_rewrite_attrs [OF assms(1)] by (simp add: rewriteHTML_def)
qed

text \<open>A link to the root of the site, said without the expressions of the code: the text \<open>x\<close> ends with one of the four
  attributes as a word of its own, in any case, an equals sign and a quote, and \<open>l\<close> starts with one slash.\<close>

definition root_link :: "js_string \<Rightarrow> js_string \<Rightarrow> bool" where
  "root_link x l \<longleftrightarrow>
     (\<exists>v n q. x = v @ n @ [0x3D, q] \<and> (v = [] \<or> \<not> word_unit (last v)) \<and>
        map fold_unit n \<in> {js ''src'', js ''href'', js ''action'', js ''poster''} \<and> q \<in> {0x22, 0x27}) \<and>
     startsWith l [slash] \<and> \<not> startsWith l [slash, slash]"

lemma rooted_suffix: "rooted pre prev (v @ s) \<Longrightarrow> rooted pre (if v = [] then prev else Some (last v)) s"
  by (induction v arbitrary: prev) auto

lemma root_link_text:
  assumes "root_link x l"
  shows "\<exists>v n q r. x = v @ n @ [0x3D, q] \<and> (v = [] \<or> \<not> word_unit (last v)) \<and> l = slash # r \<and> attr_text n q r"
proof -
  obtain v n q where x: "x = v @ n @ [0x3D, q]" "v = [] \<or> \<not> word_unit (last v)" "q \<in> {0x22, 0x27}"
    "map fold_unit n \<in> {js ''src'', js ''href'', js ''action'', js ''poster''}"
    using assms unfolding root_link_def by blast
  obtain r where "l = slash # r" "\<not> startsWith r [slash]"
    using assms by (auto simp: root_link_def startsWith_iff)
  then have "attr_text n q r"
    using x(3,4) by (cases r) (auto simp: attr_text_def link_attributes_def startsWith_iff)
  with x(1,2) \<open>l = slash # r\<close> show ?thesis
    by blast
qed

lemma rooted_link:
  assumes "rooted pre None (x @ l)" "root_link x l"
  shows "startsWith l (pre @ [slash])"
proof -
  obtain v n q r where v: "x = v @ n @ [0x3D, q]" "v = [] \<or> \<not> word_unit (last v)" and l: "l = slash # r" "attr_text n q r"
    using root_link_text [OF assms(2)] by blast
  define prev where "prev = (if v = [] then None else Some (last v))"
  have "rooted pre prev (n @ 0x3D # q # slash # r)"
    using rooted_suffix [of pre None v] assms(1) v(1) l(1) by (simp add: prev_def)
  moreover have "attr_match prev (n @ 0x3D # q # slash # r) = Some (length n + 3)"
    using v(2) l(2) by (auto simp: attr_match_iff prev_def at_word_def)
  ultimately show ?thesis
    using attr_text_name(1) [OF l(2)] l(1) by (cases n) (auto simp: numeral_3_eq_3)
qed

subsection \<open>What the browser reads\<close>

lemma insert_head_Cons: "\<exists>t. insert_head ins (c # r) = c # t"
proof (cases "head_match (c # r)")
  case (Some n)
  then have "0 < n"
    by (auto simp: head_match_def split: if_splits)
  then show ?thesis
    using Some by (cases n) simp_all
qed simp

lemma hd_rewriteHTML: "s \<noteq> [] \<Longrightarrow> hd (rewriteHTML s pre) = hd s"
proof -
  assume "s \<noteq> []"
  then obtain c r where "s = c # r"
    by (cases s) auto
  moreover obtain t where "rewrite_attrs pre None (c # r) = c # t"
    using rewrite_attrs_Cons by blast
  ultimately show ?thesis
    using insert_head_Cons [of _ c t] by (metis rewriteHTML_def list.sel(1))
qed

text \<open>The bytes that \<open>rewriteBody\<close> makes of an HTML document decode to the rewritten text.\<close>

lemma rewriteBody_text:
  assumes "\<forall>c \<in> set shell. plain_unit c" "has_literal ''text/html'' (content_type hs)" "hd (text_decode bytes) \<noteq> 0xFEFF"
  shows "text_decode (rewriteBody shell bytes hs) = rewriteHTML (text_decode bytes) shell"
proof -
  let ?t = "text_decode bytes"
  have "well_formed (rewriteHTML ?t shell)"
    using assms(1) well_formed_text_decode by (rule well_formed_rewriteHTML)
  moreover have "rewriteHTML ?t shell = [] \<or> hd (rewriteHTML ?t shell) \<noteq> 0xFEFF"
    using assms(3) hd_rewriteHTML [of ?t shell] by (cases "?t = []") (auto simp: rewriteHTML_def)
  ultimately show ?thesis
    using assms(2) by (simp add: rewriteBody_def Let_def text_decode_encode well_formed_def)
qed

subsection \<open>The bridge\<close>

text \<open>The script that \<open>bridgeScript\<close> puts in the head wraps \<open>fetch\<close> and \<open>XMLHttpRequest.open\<close> with its
  function \<open>r\<close>. \<open>parse\<close> is \<open>new URL(v,location.href)\<close> of the browser, \<open>None\<close> its exception.\<close>

record page_url =
  pu_origin :: js_string
  pu_pathname :: js_string
  pu_search :: js_string
  pu_hash :: js_string

definition bridge_link :: "(js_string \<Rightarrow> page_url option) \<Rightarrow> js_string \<Rightarrow> js_string \<Rightarrow> js_string \<Rightarrow> js_string" where
  "bridge_link parse origin p v =
     (case parse v of
        None \<Rightarrow> v
      | Some u \<Rightarrow>
          if pu_origin u = origin \<and> startsWith (pu_pathname u) [slash] \<and> \<not> startsWith (pu_pathname u) p
          then p @ pu_pathname u @ pu_search u @ pu_hash u else v)"

text \<open>What the URL standard says of a link that starts with one slash: it keeps the origin of the page, and a
  path, query and fragment that a parse produced are read back as they are.\<close>

definition resolves_paths :: "(js_string \<Rightarrow> page_url option) \<Rightarrow> js_string \<Rightarrow> js_string \<Rightarrow> bool" where
  "resolves_paths parse origin p \<longleftrightarrow>
     (\<forall>v u. parse v = Some u \<and> pu_origin u = origin \<and> startsWith (pu_pathname u) [slash] \<longrightarrow>
        parse (p @ pu_pathname u @ pu_search u @ pu_hash u) =
          Some \<lparr>pu_origin = origin, pu_pathname = p @ pu_pathname u, pu_search = pu_search u, pu_hash = pu_hash u\<rparr>)"

subsection \<open>Properties\<close>

text \<open>C29. In the document that the browser gets, with the base and the script that
  the worker puts into its head, every \<open>src\<close>, \<open>href\<close>, \<open>action\<close> or \<open>poster\<close> (in any case, as a word of its own) whose quoted
  link starts with one slash has a link below the path of the tunnel; and nothing of the document is lost, its text
  is left in the order it had. The path of the tunnel may have neither \<open>=\<close> nor \<open>>\<close>.\<close>

theorem rewritten_links_stay_in_the_tunnel:
  assumes "0x3D \<notin> set pre" "0x3E \<notin> set pre"
  shows "(\<forall>x l. rewriteHTML text pre = x @ l \<and> root_link x l \<longrightarrow> startsWith l (pre @ [slash])) \<and> subseq text (rewriteHTML text pre)"
  using rooted_rewriteHTML [OF assms] rooted_link subseq_rewriteHTML by metis

theorem rewritten_links_stay_in_the_tunnel_witness:
  "rewriteHTML (js ''<video POSTER='' @ 0x22 # js ''/x'') (js ''/t'') = js ''<video POSTER='' @ 0x22 # js ''/t/x'' \<and>
   root_link (js ''<video POSTER='' @ [0x22]) (js ''/t/x'') \<and> startsWith (js ''/t/x'') (js ''/t'' @ [slash])"
proof -
  have pre: "0x3D \<notin> set (js ''/t'')" "0x3E \<notin> set (js ''/t'')"
    by (simp_all add: js_def)
  have "rewriteHTML (js ''<video POSTER='' @ 0x22 # js ''/x'') (js ''/t'') = (js ''<video POSTER='' @ [0x22]) @ js ''/t/x''"
    by (simp add: js_def rewriteHTML_def rewrite_attrs.simps attr_match_def at_word_def word_unit_def literal_def fold_unit_def
        link_attributes_def lone_slash_def slash_def head_match_def)
  moreover have "root_link (js ''<video POSTER='' @ [0x22]) (js ''/t/x'')"
    unfolding root_link_def
    by (intro conjI exI [of _ "js ''<video ''"] exI [of _ "js ''POSTER''"] exI [of _ "0x22"])
      (simp_all add: js_def word_unit_def fold_unit_def startsWith_iff slash_def)
  ultimately show ?thesis
    using rewritten_links_stay_in_the_tunnel [OF pre, of "js ''<video POSTER='' @ 0x22 # js ''/x''"] by simp
qed

text \<open>A request that a script of the site makes leaves the bridge inside
  the tunnel when it is for the site's own origin, and a link that went through the bridge once is not changed
  again.\<close>

lemma bridged_requests_stay_in_the_tunnel:
  assumes "resolves_paths parse origin p" "parse v = Some u" "pu_origin u = origin" "startsWith (pu_pathname u) [slash]"
  shows "(\<exists>u'. parse (bridge_link parse origin p v) = Some u' \<and> startsWith (pu_pathname u') p) \<and>
    bridge_link parse origin p (bridge_link parse origin p v) = bridge_link parse origin p v"
proof (cases "startsWith (pu_pathname u) p")
  case True
  then show ?thesis
    using assms(2) by (simp add: bridge_link_def)
next
  case False
  let ?v = "p @ pu_pathname u @ pu_search u @ pu_hash u"
  have "parse ?v = Some \<lparr>pu_origin = origin, pu_pathname = p @ pu_pathname u, pu_search = pu_search u, pu_hash = pu_hash u\<rparr>"
    using assms unfolding resolves_paths_def by blast
  moreover have "bridge_link parse origin p v = ?v"
    using assms(2-4) False by (simp add: bridge_link_def)
  moreover have "startsWith (p @ pu_pathname u) p"
    by (auto simp: startsWith_iff)
  ultimately show ?thesis
    by (simp add: bridge_link_def)
qed

text \<open>A parser for paths only, with which the hypothesis holds.\<close>

definition path_url :: "js_string \<Rightarrow> page_url option" where
  "path_url v = Some \<lparr>pu_origin = js ''o'', pu_pathname = v, pu_search = [], pu_hash = []\<rparr>"

lemma path_url_resolves: "resolves_paths path_url (js ''o'') p"
  by (simp add: resolves_paths_def path_url_def)

lemma url_match_paren: "0x28 \<notin> set s \<Longrightarrow> url_match s = None"
proof (rule ccontr)
  assume no: "0x28 \<notin> set s" and "url_match s \<noteq> None"
  then have m: "map fold_unit (take 4 s) = js ''url(''"
    by (auto simp: url_match_def literal_def numeral_eq_Suc split: if_splits)
  have "0x28 \<in> set (map fold_unit (take 4 s))"
    unfolding m by (simp add: js_def)
  then have "0x28 \<in> set (take 4 s)"
    by (auto simp: fold_unit_def split: if_splits)
  then show False
    using no by (auto dest: in_set_takeD)
qed

lemma rewriteCSS_paren: "0x28 \<notin> set s \<Longrightarrow> rewriteCSS pre before s = s"
proof (induction s arbitrary: before)
  case (Cons c s)
  then show ?case
    using url_match_paren [of "c # s"] by (subst rewriteCSS.simps) simp
qed (subst rewriteCSS.simps, simp add: url_match_paren)

text \<open>In a style sheet only \<open>url(/\<close> without quotes is rewritten: a link in
  quotes, single or double, to the root of the site stays as it is and so names a path outside the tunnel.\<close>

lemma quoted_css_links_leave_the_tunnel:
  assumes "q = 0x22 \<or> q = 0x27" "0x28 \<notin> set rest"
  shows "rewriteCSS pre [] (js ''url('' @ q # slash # rest) = js ''url('' @ q # slash # rest"
proof -
  have u: "url_match (0x75 # 0x72 # 0x6C # 0x28 # q # slash # rest) = None"
    using assms(1) by (auto simp: url_match_def lone_slash_def js_space_def slash_def)
  have "url_match (c # t) = None" if "c = 0x72 \<or> c = 0x6C \<or> c = 0x28" for c t
    using that by (auto simp: url_match_def literal_def js_def fold_unit_def)
  moreover have "rewriteCSS pre b (q # slash # rest) = q # slash # rest" for b
    using assms by (intro rewriteCSS_paren) (auto simp: slash_def)
  ultimately show ?thesis
    using u by (simp add: js_def rewriteCSS.simps)
qed

end
