(* ===== verification/Visitor_Worker.thy ===== *)
theory Visitor_Worker
  imports Visitor_Page Visitor_Rewrite Api_Client
begin

text \<open>
  The service worker of the visitor page (\<open>server/visitor/worker.go\<close>): which requests it takes
  (\<open>intercepts\<close>), what it asks the page to forward (\<open>proxy\<close>), and how it makes a response of the
  messages that come back on the port (\<open>responseStream\<close>).

  The response is a state machine over the messages of the port. Its stream is what was put in
  with \<open>enqueue\<close> and whether it is open, closed or errored; the promise of \<open>responseStream\<close> is
  \<open>rs_answer\<close>. The messages have the types that the agent's protocol gives them (\<open>read_message\<close>);
  an exception in the handler leaves the state as it was, as the browser only reports it.
\<close>

subsection \<open>Requests\<close>

text \<open>\<open>scopePath.slice(0,-1)\<close>\<close>

definition shellPath :: "js_string \<Rightarrow> js_string" where
  "shellPath scopePath = butlast scopePath"

definition intercepts :: "js_string \<Rightarrow> js_string \<Rightarrow> page_url \<Rightarrow> bool" where
  "intercepts origin scopePath url \<longleftrightarrow>
     \<not> (pu_origin url \<noteq> origin \<or> \<not> startsWith (pu_pathname url) scopePath \<or> pu_pathname url = scopePath @ js ''sw.js'')"

text \<open>The window that forwards: the one with the visitor page, else one below it. A window is given by the path
  of its address.\<close>

definition find_broker :: "js_string \<Rightarrow> (nat \<times> js_string) list \<Rightarrow> nat option" where
  "find_broker shell windows =
     map_option fst
       (case List.find (\<lambda>(i, path). path = shell) windows of
          Some w \<Rightarrow> Some w
        | None \<Rightarrow> List.find (\<lambda>(i, path). startsWith path shell) windows)"

text \<open>\<open>vr_length\<close> is \<open>Number(request.headers.get('content-length')||0)\<close>; the names of \<open>vr_headers\<close> are in lower
  case, as \<open>forEach\<close> gives them.\<close>

record worker_request =
  vr_method :: js_string
  vr_url :: page_url
  vr_length :: number
  vr_headers :: headers
  vr_body :: "byte list"

text \<open>\<open>(headers[name]||(headers[name]=[])).push(value)\<close> on an object, which has two properties with names in
  lower case from its prototype that are no arrays: there the call throws.\<close>

definition push_header :: "js_string \<Rightarrow> js_string \<Rightarrow> header_lists \<Rightarrow> header_lists option" where
  "push_header name v hs =
     (if name = js ''constructor'' \<or> name = js ''__proto__'' then None
      else Some (obj_set name ((case map_of hs name of None \<Rightarrow> [] | Some vs \<Rightarrow> vs) @ [v]) hs))"

fun copy_headers :: "headers \<Rightarrow> header_lists \<Rightarrow> header_lists option" where
  "copy_headers [] hs = Some hs"
| "copy_headers ((name, v) # r) hs =
     (if name = js ''host'' \<or> name = js ''content-length'' then copy_headers r hs
      else (case push_header name v hs of None \<Rightarrow> None | Some hs' \<Rightarrow> copy_headers r hs'))"

definition forward_path :: "js_string \<Rightarrow> page_url \<Rightarrow> js_string" where
  "forward_path scopePath url = slash # drop (length scopePath) (pu_pathname url) @ pu_search url"

definition maxProxyBytes :: nat where
  "maxProxyBytes = 16 * 1024 * 1024"

definition number_above :: "number \<Rightarrow> nat \<Rightarrow> bool" where
  "number_above x n = (case x of Fin r \<Rightarrow> of_nat n < r | PosInf \<Rightarrow> True | _ \<Rightarrow> False)"

datatype proxy_result = Refuse nat js_string | Forward nat visitor_fetch | Throws

definition proxy :: "js_string \<Rightarrow> (nat \<times> js_string) list \<Rightarrow> worker_request \<Rightarrow> proxy_result" where
  "proxy scopePath windows r =
     (case find_broker (shellPath scopePath) windows of
        None \<Rightarrow> Refuse 502 (js ''visitor broker is unavailable'')
      | Some w \<Rightarrow>
          if number_above (vr_length r) maxProxyBytes then Refuse 413 (js ''visitor request is too large'')
          else if length (vr_body r) > maxProxyBytes then Refuse 413 (js ''visitor request is too large'')
          else
            (case copy_headers (vr_headers r) [] of
               None \<Rightarrow> Throws
             | Some hs \<Rightarrow>
                 Forward w \<lparr>vf_method = vr_method r, vf_path = forward_path scopePath (vr_url r), vf_headers = Some hs,
                   vf_body = Some (vr_body r)\<rparr>))"

subsection \<open>Responses\<close>

definition maxProxyResponseBytes :: nat where
  "maxProxyResponseBytes = 16 * 1024 * 1024"

datatype worker_message =
  Response_Start (ms_status: "rat option") (ms_headers: header_lists)
| Response_Chunk js_string
| Response_End js_string
| Other_Message

definition text_field :: "string \<Rightarrow> json \<Rightarrow> js_string" where
  "text_field k v = (case field k v of Some (JStr t) \<Rightarrow> t | _ \<Rightarrow> [])"

definition headers_field :: "json \<Rightarrow> header_lists" where
  "headers_field v =
     (case field ''headers'' v of
        Some (JObj ms) \<Rightarrow> map (\<lambda>(n, w). (n, case w of JArr vs \<Rightarrow> json_elems_String vs | _ \<Rightarrow> [])) ms
      | _ \<Rightarrow> [])"

definition read_message :: "json \<Rightarrow> worker_message" where
  "read_message v =
     (if is_kind ''response_start'' v
      then Response_Start (case field ''status'' v of Some (JNum x) \<Rightarrow> Some x | _ \<Rightarrow> None) (headers_field v)
      else if is_kind ''response_chunk'' v then Response_Chunk (text_field ''body'' v)
      else if is_kind ''response_end'' v then Response_End (text_field ''error'' v)
      else Other_Message)"

text \<open>\<open>undefined\<close> compares as false.\<close>

definition validStatus :: "rat option \<Rightarrow> rat" where
  "validStatus v = (case v of Some x \<Rightarrow> if 200 \<le> x \<and> x \<le> 599 then x else 502 | None \<Rightarrow> 502)"

definition toHeaders :: "header_lists \<Rightarrow> headers result" where
  "toHeaders values = headers_fold headers_append (concat (map (\<lambda>(name, vs). map (Pair name) vs) values)) []"

text \<open>The last \<open>content-type\<close> counts here.\<close>

definition isRewriteable :: "header_lists option \<Rightarrow> bool" where
  "isRewriteable info =
     (let hs = (case info of None \<Rightarrow> [] | Some h \<Rightarrow> h);
          content = fold (\<lambda>(name, vs) c. if toLowerCase name = js ''content-type'' then js_join [0x3B] vs else c) hs []
      in has_literal ''text/html'' content \<or> has_literal ''text/css'' content)"

definition concat_parts :: "byte list list \<Rightarrow> byte list" where
  "concat_parts parts = fold (\<lambda>v acc. acc @ v) parts []"

datatype stream_state = Readable | Stream_Closed | Stream_Errored js_string

text \<open>The body of a 502 is the message of the error; \<open>None\<close> when it is an exception of the browser.\<close>

datatype worker_answer = Streamed rat headers | Bad_Gateway "js_string option"

record response_stream =
  rs_started :: bool
  rs_total :: nat
  rs_info :: "header_lists option"
  rs_parts :: "byte list list"
  rs_port_open :: bool
  rs_stream :: stream_state
  rs_enqueued :: "byte list list"
  rs_answer :: "worker_answer option"

definition stream_initial :: response_stream where
  "stream_initial =
     \<lparr>rs_started = False, rs_total = 0, rs_info = None, rs_parts = [], rs_port_open = True, rs_stream = Readable,
      rs_enqueued = [], rs_answer = None\<rparr>"

text \<open>A response with a stream as its body may not have one of the statuses without a body.\<close>

definition null_body_status :: "rat \<Rightarrow> bool" where
  "null_body_status x \<longleftrightarrow> \<lfloor>x\<rfloor> \<in> {204, 205, 304}"

definition respond :: "rat option \<Rightarrow> header_lists \<Rightarrow> worker_answer" where
  "respond st hs =
     (case toHeaders hs of
        Inl e \<Rightarrow> Bad_Gateway None
      | Inr h \<Rightarrow> if null_body_status (validStatus st) then Bad_Gateway None else Streamed (validStatus st) h)"

text \<open>\<open>startedPromise\<close> settles once.\<close>

definition settle_start :: "worker_answer \<Rightarrow> response_stream \<Rightarrow> response_stream" where
  "settle_start a s = (if rs_answer s = None then s\<lparr>rs_answer := Some a\<rparr> else s)"

definition on_start :: "rat option \<Rightarrow> header_lists \<Rightarrow> response_stream \<Rightarrow> response_stream" where
  "on_start st hs s = settle_start (respond st hs) (s\<lparr>rs_info := Some hs, rs_started := True\<rparr>)"

text \<open>\<open>atob\<close> throws on a text that is not Base64.\<close>

definition on_chunk :: "js_string \<Rightarrow> response_stream \<Rightarrow> response_stream" where
  "on_chunk b s =
     (case fromBase64 b of
        None \<Rightarrow> s
      | Some bytes \<Rightarrow>
          (let total = rs_total s + length bytes; s' = s\<lparr>rs_total := total\<rparr> in
           if total > maxProxyResponseBytes
           then s'\<lparr>rs_stream := Stream_Errored (js ''visitor response is too large''), rs_port_open := False\<rparr>
           else if isRewriteable (rs_info s) then s'\<lparr>rs_parts := rs_parts s @ [bytes]\<rparr>
           else s'\<lparr>rs_enqueued := rs_enqueued s @ [bytes]\<rparr>))"

definition on_end :: "js_string \<Rightarrow> js_string \<Rightarrow> response_stream \<Rightarrow> response_stream" where
  "on_end shell err s =
     (let s' = s\<lparr>rs_port_open := False\<rparr> in
      if truthy err
      then if \<not> rs_started s then settle_start (Bad_Gateway (Some err)) s' else s'\<lparr>rs_stream := Stream_Errored err\<rparr>
      else if \<not> rs_started s then settle_start (Bad_Gateway (Some (js ''visitor response did not start''))) s'
      else
        (let s'' = (if isRewriteable (rs_info s)
                    then s'\<lparr>rs_enqueued := rs_enqueued s @
                      [rewriteBody shell (concat_parts (rs_parts s)) (case rs_info s of None \<Rightarrow> [] | Some h \<Rightarrow> h)]\<rparr>
                    else s')
         in s''\<lparr>rs_stream := Stream_Closed\<rparr>))"

definition on_message :: "js_string \<Rightarrow> worker_message \<Rightarrow> response_stream \<Rightarrow> response_stream" where
  "on_message shell m s =
     (if \<not> rs_port_open s then s
      else
        (case m of
           Response_Start st hs \<Rightarrow> on_start st hs s
         | Response_Chunk b \<Rightarrow> on_chunk b s
         | Response_End e \<Rightarrow> on_end shell e s
         | Other_Message \<Rightarrow> s))"

definition responseStream :: "js_string \<Rightarrow> worker_message list \<Rightarrow> response_stream" where
  "responseStream shell ms = fold (on_message shell) ms stream_initial"

subsection \<open>Invariant of the stream\<close>

lemma concat_parts_concat: "concat_parts parts = concat parts"
proof -
  have "fold (\<lambda>v acc. acc @ v) parts acc = acc @ concat parts" for acc
    by (induction parts arbitrary: acc) auto
  then show ?thesis
    by (simp add: concat_parts_def)
qed

text \<open>While the port is open the stream is readable and everything that came is in it or among the parts;
  once the port is closed the stream has ended or there never was a start.\<close>

definition stream_open_inv :: "response_stream \<Rightarrow> bool" where
  "stream_open_inv s \<longleftrightarrow>
     rs_stream s = Readable \<and> rs_total s \<le> maxProxyResponseBytes \<and>
     length (concat (rs_enqueued s)) + length (concat (rs_parts s)) = rs_total s \<and> (rs_started s \<longleftrightarrow> rs_answer s \<noteq> None)"

definition too_large :: js_string where
  "too_large = js ''visitor response is too large''"

definition stream_closed_inv :: "response_stream \<Rightarrow> bool" where
  "stream_closed_inv s \<longleftrightarrow>
     (rs_started s \<longrightarrow> rs_stream s \<noteq> Readable) \<and>
     (rs_answer s = None \<longrightarrow> \<not> rs_started s \<and> rs_stream s = Stream_Errored too_large) \<and>
     (rs_total s \<le> maxProxyResponseBytes \<or> rs_stream s = Stream_Errored too_large) \<and>
     length (concat (rs_parts s)) \<le> maxProxyResponseBytes \<and>
     (isRewriteable (rs_info s) \<and> rs_stream s = Stream_Closed \<or> length (concat (rs_enqueued s)) \<le> maxProxyResponseBytes)"

definition stream_inv :: "response_stream \<Rightarrow> bool" where
  "stream_inv s \<longleftrightarrow> (if rs_port_open s then stream_open_inv s else stream_closed_inv s)"

lemma inv_on_start: "stream_open_inv s \<Longrightarrow> stream_open_inv (on_start st hs s)"
  by (auto simp: stream_open_inv_def on_start_def settle_start_def)

lemma port_on_start [simp]: "rs_port_open (on_start st hs s) = rs_port_open s"
  by (simp add: on_start_def settle_start_def)

lemma inv_on_chunk:
  assumes "rs_port_open s" "stream_open_inv s"
  shows "stream_inv (on_chunk b s)"
  using assms
  by (auto simp: stream_inv_def stream_open_inv_def stream_closed_inv_def on_chunk_def Let_def too_large_def split: option.splits)

lemma inv_on_end:
  assumes "stream_open_inv s"
  shows "stream_inv (on_end shell e s)"
  using assms
  by (auto simp: stream_inv_def stream_open_inv_def stream_closed_inv_def on_end_def settle_start_def Let_def)

lemma inv_on_message: "stream_inv s \<Longrightarrow> stream_inv (on_message shell m s)"
  using inv_on_start [of s] inv_on_chunk [of s] inv_on_end [of s]
  by (cases m) (simp_all add: on_message_def stream_inv_def [of s] stream_inv_def [of "on_start _ _ _"])

lemma inv_responseStream: "stream_inv (responseStream shell ms)"
  unfolding responseStream_def
  by (rule fold_invariant [where Q = "\<lambda>_. True"])
    (simp_all add: inv_on_message, simp add: stream_inv_def stream_open_inv_def stream_initial_def)

lemma closed_port: "\<not> rs_port_open s \<Longrightarrow> fold (on_message shell) ms s = s"
  by (induction ms) (auto simp: on_message_def)

lemma answer_kept: "rs_answer s = Some a \<Longrightarrow> rs_answer (on_message shell m s) = Some a"
  by (auto simp: on_message_def on_start_def on_chunk_def on_end_def settle_start_def Let_def split: worker_message.splits option.splits)

lemma answer_kept_run: "rs_answer s = Some a \<Longrightarrow> rs_answer (fold (on_message shell) ms s) = Some a"
  by (induction ms arbitrary: s) (auto simp: answer_kept)

lemma end_closes: "Response_End e \<in> set ms \<Longrightarrow> \<not> rs_port_open (fold (on_message shell) ms s)"
proof (induction ms arbitrary: s)
  case (Cons m ms)
  show ?case
  proof (cases "m = Response_End e")
    case True
    have "\<not> rs_port_open (on_message shell (Response_End e) s)"
      by (simp add: on_message_def on_end_def settle_start_def Let_def)
    then show ?thesis
      using True closed_port by simp
  qed (use Cons in auto)
qed simp

subsection \<open>A whole response\<close>

lemma chunks_streamed:
  assumes "rs_port_open s" "rs_total s + length (concat bs) \<le> maxProxyResponseBytes"
  shows "fold (on_message shell) (map (\<lambda>b. Response_Chunk (base64 b)) bs) s =
    (if isRewriteable (rs_info s) then s\<lparr>rs_total := rs_total s + length (concat bs), rs_parts := rs_parts s @ bs\<rparr>
     else s\<lparr>rs_total := rs_total s + length (concat bs), rs_enqueued := rs_enqueued s @ bs\<rparr>)"
  using assms
proof (induction bs arbitrary: s)
  case (Cons b bs)
  then show ?case
    by (auto simp: on_message_def on_chunk_def Let_def)
qed simp

lemma responseStream_whole:
  assumes "length (concat bs) \<le> maxProxyResponseBytes"
    and "s = responseStream shell (Response_Start st hs # map (\<lambda>b. Response_Chunk (base64 b)) bs @ [Response_End []])"
  shows "rs_answer s = Some (respond st hs) \<and> rs_stream s = Stream_Closed \<and>
    concat (rs_enqueued s) = (if isRewriteable (Some hs) then rewriteBody shell (concat bs) hs else concat bs)"
proof -
  let ?s = "on_start st hs stream_initial"
  have "rs_port_open ?s" "rs_total ?s = 0" "rs_info ?s = Some hs" "rs_started ?s" "rs_answer ?s = Some (respond st hs)"
    "rs_parts ?s = []" "rs_enqueued ?s = []"
    by (simp_all add: on_start_def settle_start_def stream_initial_def)
  moreover have "on_message shell (Response_Start st hs) stream_initial = ?s"
    by (simp add: on_message_def stream_initial_def)
  ultimately show ?thesis
    using assms by (auto simp: responseStream_def chunks_streamed on_message_def on_end_def Let_def concat_parts_concat)
qed

subsection \<open>Headers of a request\<close>

lemma copy_headers_keys: "copy_headers hs acc = Some out \<Longrightarrow> distinct (map fst acc) \<Longrightarrow> distinct (map fst out)"
  by (induction hs acc rule: copy_headers.induct)
    (auto simp: push_header_def distinct_obj_set split: if_splits option.splits)

lemma proxy_forward:
  assumes "proxy scopePath windows r = Forward w m"
  shows "fetch_ok m" "fetch_body m = vr_body r" "length (vr_body r) \<le> maxRequestBytes" "vf_path m = forward_path scopePath (vr_url r)"
    "vf_method m = vr_method r"
  using assms copy_headers_keys [of "vr_headers r" "[]"]
  by (auto simp: proxy_def fetch_ok_def fetch_headers_def fetch_body_def maxProxyBytes_def maxRequestBytes_def
      split: option.splits if_splits)

subsection \<open>Properties\<close>

text \<open>A link to the path \<open>p\<close> of the site that was moved below the path of the tunnel
  is taken by the worker, which asks the agent for \<open>p\<close> again, with the query; only \<open>/sw.js\<close> is left to the
  server, whose worker script has that name.\<close>

lemma links_reach_their_path:
  assumes "pu_origin url = origin" "pu_pathname url = shell @ slash # rest"
  shows "(intercepts origin (shell @ [slash]) url \<longleftrightarrow> rest \<noteq> js ''sw.js'') \<and>
    forward_path (shell @ [slash]) url = slash # rest @ pu_search url \<and> shellPath (shell @ [slash]) = shell"
  using assms by (auto simp: intercepts_def forward_path_def shellPath_def startsWith_iff)

text \<open>C28. Whatever messages come, in whatever order, the worker holds and passes on at
  most 16 MiB of what it was sent; a response that would exceed this ends in an error, and a stream that ended
  well was within it.\<close>

theorem worker_response_is_bounded:
  "let s = responseStream shell ms in
   length (concat (rs_parts s)) \<le> 16777216 \<and>
   (isRewriteable (rs_info s) \<and> rs_stream s = Stream_Closed \<or> length (concat (rs_enqueued s)) \<le> 16777216) \<and>
   (rs_total s \<le> 16777216 \<or> rs_stream s = Stream_Errored (js ''visitor response is too large''))"
  using inv_responseStream [of shell ms]
  by (auto simp: Let_def stream_inv_def stream_open_inv_def stream_closed_inv_def maxProxyResponseBytes_def too_large_def split: if_splits)

text \<open>The first \<open>response_end\<close> ends the matter: the port is closed, what comes
  later changes nothing, the stream of a response that started has ended, and the request is answered, save
  when chunks beyond the limit came before any start.\<close>

lemma response_end_settles_the_request:
  assumes "Response_End e \<in> set ms"
  shows "let s = responseStream shell ms in
    \<not> rs_port_open s \<and> responseStream shell (ms @ later) = s \<and> (rs_started s \<longrightarrow> rs_stream s \<noteq> Readable) \<and>
    (rs_answer s \<noteq> None \<or> \<not> rs_started s \<and> rs_stream s = Stream_Errored (js ''visitor response is too large''))"
proof -
  have "\<not> rs_port_open (responseStream shell ms)"
    unfolding responseStream_def by (rule end_closes [OF assms])
  moreover from this have "responseStream shell (ms @ later) = responseStream shell ms"
    by (simp add: responseStream_def closed_port)
  ultimately show ?thesis
    using inv_responseStream [of shell ms]
    by (auto simp: Let_def stream_inv_def stream_closed_inv_def too_large_def)
qed

text \<open>C30. A response of the site without a body (204, 205 or 304) reaches the
  browser as 502: the worker gives every response a stream as its body, which these statuses do not admit, and
  turns the exception into a bad gateway.\<close>

theorem no_content_becomes_bad_gateway:
  assumes "st = 204 \<or> st = 205 \<or> st = 304"
  shows "rs_answer (responseStream shell (Response_Start (Some st) hs # ms)) = Some (Bad_Gateway None)"
proof -
  have "respond (Some st) hs = Bad_Gateway None"
    using assms by (auto simp: respond_def validStatus_def null_body_status_def split: sum.splits)
  then have "rs_answer (on_message shell (Response_Start (Some st) hs) stream_initial) = Some (Bad_Gateway None)"
    by (simp add: on_message_def on_start_def settle_start_def stream_initial_def)
  then show ?thesis
    by (simp add: responseStream_def answer_kept_run)
qed

theorem no_content_becomes_bad_gateway_witness:
  "rs_answer (responseStream (js ''/t'') [Response_Start (Some 204) [], Response_End []]) = Some (Bad_Gateway None)"
  using no_content_becomes_bad_gateway [of 204 "js ''/t''" "[]" "[Response_End []]"] by simp

end
