(* ===== verification/Visitor_Startup.thy ===== *)
theory Visitor_Startup
  imports Visitor_Page
begin

text \<open>
  How the visitor page gets its data channel (\<open>connect\<close>, \<open>waitWorker\<close>, \<open>waitGathering\<close> and the
  function at the end of the script in \<open>server/visitor/page.go\<close>): register the worker, wait until
  it is active, open the signalling socket, send an offer, wait for the answer, apply it.

  The script is a chain of \<open>await\<close>s, so its state is the place it waits at, with the promise
  \<open>answer\<close> and the handler \<open>signal.onerror\<close> beside it. What the browser reports is an event; an
  event that the browser cannot report in a state leaves it as it is. A failed socket is closed
  and reports nothing more, as the WebSocket standard says.
\<close>

datatype startup_phase =
  Registering | Waiting_Worker | Opening_Socket | Offering | Awaiting_Answer | Applying_Answer | Connected | Failed

datatype answer_promise = Unsettled | Resolved json | Rejected js_string

text \<open>The two functions that \<open>signal.onerror\<close> is set to.\<close>

datatype error_handler = Reject_Answer | Reject_Opened

record startup =
  su_phase :: startup_phase
  su_answer :: answer_promise
  su_onerror :: error_handler
  su_socket :: "ready_state option"
  su_signalled :: "js_string list"
  su_remote :: "json option"
  su_status :: "js_string \<times> js_string"

definition startup_initial :: startup where
  "startup_initial =
     \<lparr>su_phase = Registering, su_answer = Unsettled, su_onerror = Reject_Answer, su_socket = None, su_signalled = [],
      su_remote = None, su_status = (js ''Connecting to the visitor tunnel...'', [])\<rparr>"

text \<open>The \<open>catch\<close> at the end: \<open>error.message||'Unable to establish visitor P2P'\<close>; an event object has
  no message.\<close>

definition startup_failed :: "js_string \<Rightarrow> startup \<Rightarrow> startup" where
  "startup_failed message s =
     s\<lparr>su_phase := Failed,
       su_status := (if truthy message then message else js ''Unable to establish visitor P2P'', js ''err'')\<rparr>"

text \<open>The first lines of \<open>connect\<close>, up to the wait for the socket.\<close>

definition connect :: "js_string option \<Rightarrow> startup \<Rightarrow> startup" where
  "connect thrown s =
     (case thrown of
        Some e \<Rightarrow> startup_failed e s
      | None \<Rightarrow> s\<lparr>su_phase := Opening_Socket, su_socket := Some Connecting, su_onerror := Reject_Answer, su_answer := Unsettled\<rparr>)"

text \<open>\<open>waitWorker\<close>: an active worker, or none that is being installed, resolves at once.\<close>

definition waitWorker :: "bool \<Rightarrow> bool \<Rightarrow> js_string option \<Rightarrow> startup \<Rightarrow> startup" where
  "waitWorker active installing thrown s =
     (if active \<or> \<not> installing then connect thrown s else s\<lparr>su_phase := Waiting_Worker\<rparr>)"

datatype worker_state = Installing | Installed | Activating | Activated | Redundant

definition worker_changed :: "worker_state \<Rightarrow> js_string option \<Rightarrow> startup \<Rightarrow> startup" where
  "worker_changed w thrown s =
     (if w = Activated then connect thrown s
      else if w = Redundant then startup_failed (js ''visitor service worker was rejected'') s
      else s)"

text \<open>The code after \<open>await answer\<close>, and the rejection of it.\<close>

definition await_answer :: "startup \<Rightarrow> startup" where
  "await_answer s =
     (if su_phase s \<noteq> Awaiting_Answer then s
      else
        (case su_answer s of
           Unsettled \<Rightarrow> s
         | Rejected e \<Rightarrow> startup_failed e s
         | Resolved v \<Rightarrow> s\<lparr>su_phase := Applying_Answer\<rparr>))"

text \<open>A promise is settled once.\<close>

definition settle_answer :: "answer_promise \<Rightarrow> startup \<Rightarrow> startup" where
  "settle_answer a s = (if su_answer s = Unsettled then await_answer (s\<lparr>su_answer := a\<rparr>) else s)"

text \<open>\<open>new Error(value.error)\<close>\<close>

definition answer_error :: "json \<Rightarrow> js_string" where
  "answer_error v = (case field ''error'' v of Some e \<Rightarrow> json_String e | None \<Rightarrow> [])"

definition signal_onmessage :: "js_string \<Rightarrow> startup \<Rightarrow> startup" where
  "signal_onmessage data s =
     (case JSON_parse data of
        None \<Rightarrow> s
      | Some v \<Rightarrow>
          if is_kind ''error'' v then settle_answer (Rejected (answer_error v)) s
          else if is_kind ''answer'' v then settle_answer (Resolved v) s
          else s)"

definition signal_onopen :: "startup \<Rightarrow> startup" where
  "signal_onopen s = s\<lparr>su_phase := Offering, su_socket := Some Open, su_onerror := Reject_Opened\<rparr>"

definition offer_message :: "js_string \<Rightarrow> json" where
  "offer_message sdp = JObj [(js ''kind'', JStr (js ''offer'')), (js ''sdp'', JStr sdp)]"

text \<open>The chain that \<open>onopen\<close> starts has gathered the candidates: the offer goes out, unless the other
  side has closed the socket, which \<open>send\<close> does not report.\<close>

definition gathered :: "js_string \<Rightarrow> startup \<Rightarrow> startup" where
  "gathered sdp s =
     await_answer
       (s\<lparr>su_signalled := su_signalled s @ (if su_socket s = Some Open then [stringify (offer_message sdp)] else []),
          su_phase := Awaiting_Answer\<rparr>)"

definition signal_onerror :: "startup \<Rightarrow> startup" where
  "signal_onerror s =
     (case su_onerror s of
        Reject_Answer \<Rightarrow> settle_answer (Rejected []) s
      | Reject_Opened \<Rightarrow> if su_phase s = Offering then startup_failed [] s else s)"

definition answer_applied :: "startup \<Rightarrow> startup" where
  "answer_applied s =
     (case su_answer s of
        Resolved v \<Rightarrow> s\<lparr>su_phase := Connected, su_remote := field ''sdp'' v, su_socket := Some Closing\<rparr>
      | _ \<Rightarrow> s)"

datatype startup_event =
  Registered bool bool "js_string option"
| Register_Failed js_string
| Worker_Changed worker_state "js_string option"
| Socket_Opened
| Gathered js_string
| Offer_Failed js_string
| Socket_Message js_string
| Socket_Failed
| Socket_Closed
| Applied
| Apply_Failed js_string

fun handle_startup :: "startup_event \<Rightarrow> startup \<Rightarrow> startup" where
  "handle_startup (Registered active installing thrown) s =
     (if su_phase s = Registering then waitWorker active installing thrown s else s)"
| "handle_startup (Register_Failed e) s = (if su_phase s = Registering then startup_failed e s else s)"
| "handle_startup (Worker_Changed w thrown) s = (if su_phase s = Waiting_Worker then worker_changed w thrown s else s)"
| "handle_startup Socket_Opened s = (if su_socket s = Some Connecting then signal_onopen s else s)"
| "handle_startup (Gathered sdp) s = (if su_phase s = Offering then gathered sdp s else s)"
| "handle_startup (Offer_Failed e) s = (if su_phase s = Offering then startup_failed e s else s)"
| "handle_startup (Socket_Message data) s = (if su_socket s = Some Open then signal_onmessage data s else s)"
| "handle_startup Socket_Failed s =
     (if su_socket s = Some Connecting \<or> su_socket s = Some Open then (signal_onerror s)\<lparr>su_socket := Some Closed\<rparr> else s)"
| "handle_startup Socket_Closed s = (if su_socket s = Some Open then s\<lparr>su_socket := Some Closed\<rparr> else s)"
| "handle_startup Applied s = (if su_phase s = Applying_Answer then answer_applied s else s)"
| "handle_startup (Apply_Failed e) s = (if su_phase s = Applying_Answer then startup_failed e s else s)"

definition run_startup :: "startup_event list \<Rightarrow> startup" where
  "run_startup es = fold handle_startup es startup_initial"

subsection \<open>Invariant\<close>

definition waiting_status :: "js_string \<times> js_string" where
  "waiting_status = (js ''Connecting to the visitor tunnel...'', [])"

text \<open>The offer is sent at most once and only then does the script wait for the answer; a failure is the
  only thing that changes the status; the socket lives from \<open>connect\<close> on.\<close>

definition failure_shown :: "startup \<Rightarrow> bool" where
  "failure_shown s \<longleftrightarrow> snd (su_status s) = js ''err'' \<and> fst (su_status s) \<noteq> []"

definition is_answer :: "answer_promise \<Rightarrow> bool" where
  "is_answer a \<longleftrightarrow> (case a of Resolved v \<Rightarrow> is_kind ''answer'' v | _ \<Rightarrow> False)"

definition phase_inv :: "startup \<Rightarrow> bool" where
  "phase_inv s \<longleftrightarrow>
     (case su_phase s of
        Registering \<Rightarrow> su_socket s = None \<and> su_signalled s = []
      | Waiting_Worker \<Rightarrow> su_socket s = None \<and> su_signalled s = []
      | Opening_Socket \<Rightarrow>
          (su_socket s = Some Connecting \<or> su_socket s = Some Closed) \<and> su_onerror s = Reject_Answer \<and> su_signalled s = []
      | Offering \<Rightarrow> su_socket s \<noteq> Some Connecting \<and> su_onerror s = Reject_Opened \<and> su_signalled s = []
      | Awaiting_Answer \<Rightarrow> su_socket s \<noteq> Some Connecting \<and> su_onerror s = Reject_Opened \<and> su_answer s = Unsettled
      | Applying_Answer \<Rightarrow> su_socket s \<noteq> Some Connecting \<and> is_answer (su_answer s)
      | Connected \<Rightarrow> su_socket s \<noteq> Some Connecting \<and> is_answer (su_answer s)
      | Failed \<Rightarrow> su_socket s \<noteq> Some Connecting)"

definition startup_inv :: "startup \<Rightarrow> bool" where
  "startup_inv s \<longleftrightarrow>
     phase_inv s \<and> length (su_signalled s) \<le> 1 \<and> (\<forall>v. su_answer s = Resolved v \<longrightarrow> is_kind ''answer'' v) \<and>
     (if su_phase s = Failed then failure_shown s else su_status s = waiting_status)"

lemma startup_failed_inv:
  "startup_inv s \<Longrightarrow> su_socket s \<noteq> Some Connecting \<Longrightarrow> startup_inv (startup_failed e s)"
  by (simp add: startup_inv_def phase_inv_def failure_shown_def startup_failed_def)

lemma connect_inv:
  assumes "startup_inv s" "su_socket s = None" "su_signalled s = []" "su_phase s \<noteq> Failed"
  shows "startup_inv (connect thrown s)"
proof (cases thrown)
  case None
  then show ?thesis
    using assms by (simp add: connect_def startup_inv_def phase_inv_def)
next
  case (Some e)
  then show ?thesis
    using assms startup_failed_inv [OF assms(1)] by (simp add: connect_def)
qed

lemma await_answer_inv:
  assumes "su_phase s = Awaiting_Answer" "startup_inv (s\<lparr>su_answer := Unsettled\<rparr>)" "\<forall>v. su_answer s = Resolved v \<longrightarrow> is_kind ''answer'' v"
  shows "startup_inv (await_answer s)"
  using assms
  by (cases "su_answer s")
    (simp_all add: await_answer_def startup_inv_def phase_inv_def is_answer_def failure_shown_def startup_failed_def)

lemma settle_answer_inv:
  assumes "startup_inv s" "\<forall>v. a = Resolved v \<longrightarrow> is_kind ''answer'' v"
  shows "startup_inv (settle_answer a s)"
proof (cases "su_answer s = Unsettled \<and> su_phase s = Awaiting_Answer")
  case True
  have "startup_inv (s\<lparr>su_answer := Unsettled\<rparr>)"
    using True assms(1) by (simp add: startup_inv_def phase_inv_def)
  then have "startup_inv (await_answer (s\<lparr>su_answer := a\<rparr>))"
    using True assms(2) by (intro await_answer_inv) simp_all
  then show ?thesis
    using True by (simp add: settle_answer_def)
next
  case False
  then show ?thesis
    using assms
    by (cases "su_phase s")
      (auto simp: settle_answer_def await_answer_def startup_inv_def phase_inv_def failure_shown_def is_answer_def)
qed

lemmas startup_defs = startup_failed_def connect_def waitWorker_def worker_changed_def await_answer_def settle_answer_def
  signal_onmessage_def signal_onopen_def gathered_def signal_onerror_def answer_applied_def

lemma answer_applied_inv:
  "startup_inv s \<Longrightarrow> su_phase s = Applying_Answer \<Longrightarrow> startup_inv (answer_applied s)"
  by (auto simp: answer_applied_def startup_inv_def phase_inv_def is_answer_def split: answer_promise.splits)

lemma gathered_inv:
  assumes "startup_inv s" "su_phase s = Offering"
  shows "startup_inv (gathered sdp s)"
  unfolding gathered_def
  by (rule await_answer_inv) (use assms in \<open>auto simp: startup_inv_def phase_inv_def\<close>)

lemma socket_closed_inv: "startup_inv s \<Longrightarrow> su_socket s \<noteq> None \<Longrightarrow> startup_inv (s\<lparr>su_socket := Some Closed\<rparr>)"
  by (cases "su_phase s") (auto simp: startup_inv_def phase_inv_def failure_shown_def)

lemma signal_onerror_inv:
  assumes "startup_inv s"
  shows "startup_inv (signal_onerror s)"
proof (cases "su_onerror s")
  case Reject_Answer
  then show ?thesis
    using settle_answer_inv [OF assms] by (simp add: signal_onerror_def)
next
  case Reject_Opened
  have "su_socket s \<noteq> Some Connecting" if "su_phase s = Offering"
    using assms that by (simp add: startup_inv_def phase_inv_def)
  then show ?thesis
    using assms Reject_Opened startup_failed_inv by (simp add: signal_onerror_def)
qed

lemma onerror_socket: "su_socket (signal_onerror s) = su_socket s"
  by (simp add: signal_onerror_def settle_answer_def await_answer_def startup_failed_def split: error_handler.splits answer_promise.splits)

lemma phase_facts:
  assumes "startup_inv s"
  shows "su_phase s = Registering \<or> su_phase s = Waiting_Worker \<Longrightarrow> su_socket s = None \<and> su_signalled s = []"
    "su_phase s \<noteq> Opening_Socket \<Longrightarrow> su_socket s \<noteq> Some Connecting"
    "su_phase s = Registering \<Longrightarrow> startup_inv (s\<lparr>su_phase := Waiting_Worker\<rparr>)"
  using assms by (cases "su_phase s"; auto simp: startup_inv_def phase_inv_def)+

lemma startup_inv_event:
  assumes "startup_inv s"
  shows "startup_inv (handle_startup e s)"
proof (cases e)
  case (Registered active installing thrown)
  then show ?thesis
    using assms phase_facts [OF assms] connect_inv [OF assms, of thrown] by (simp add: waitWorker_def)
next
  case (Worker_Changed w thrown)
  then show ?thesis
    using assms phase_facts [OF assms] connect_inv [OF assms, of thrown] startup_failed_inv [OF assms]
    by (simp add: worker_changed_def)
next
  case Socket_Opened
  then show ?thesis
    using assms phase_facts(2) [OF assms]
    by (cases "su_phase s = Opening_Socket") (auto simp: signal_onopen_def startup_inv_def phase_inv_def)
next
  case (Socket_Message data)
  then show ?thesis
    using assms settle_answer_inv [OF assms] by (auto simp: signal_onmessage_def split: option.splits)
next
  case Socket_Failed
  then show ?thesis
    using assms signal_onerror_inv [OF assms] socket_closed_inv [of "signal_onerror s"] by (auto simp: onerror_socket)
qed (use assms phase_facts [OF assms] startup_failed_inv [OF assms] gathered_inv answer_applied_inv socket_closed_inv in auto)

lemma startup_inv_run: "startup_inv (run_startup es)"
  unfolding run_startup_def
  by (rule fold_invariant [where Q = "\<lambda>_. True"])
    (auto simp: startup_inv_event, simp add: startup_inv_def phase_inv_def startup_initial_def waiting_status_def)

subsection \<open>The script only goes forward\<close>

text \<open>The places where the script waits, in the order of the source, with the failure at the end.\<close>

primrec phase_rank :: "startup_phase \<Rightarrow> nat" where
  "phase_rank Registering = 0"
| "phase_rank Waiting_Worker = 1"
| "phase_rank Opening_Socket = 2"
| "phase_rank Offering = 3"
| "phase_rank Awaiting_Answer = 4"
| "phase_rank Applying_Answer = 5"
| "phase_rank Connected = 6"
| "phase_rank Failed = 7"

lemma phase_rank_inj: "phase_rank p = phase_rank q \<Longrightarrow> p = q"
  by (cases p; cases q) simp_all

instantiation startup_phase :: linorder
begin

definition less_eq_startup_phase :: "startup_phase \<Rightarrow> startup_phase \<Rightarrow> bool" where
  "p \<le> q \<longleftrightarrow> phase_rank p \<le> phase_rank q"

definition less_startup_phase :: "startup_phase \<Rightarrow> startup_phase \<Rightarrow> bool" where
  "p < q \<longleftrightarrow> phase_rank p < phase_rank q"

instance
  by standard (auto simp: less_eq_startup_phase_def less_startup_phase_def intro: phase_rank_inj)

end

lemma settle_answer_forward: "su_phase s \<le> su_phase (settle_answer a s)"
  by (simp add: settle_answer_def await_answer_def startup_failed_def less_eq_startup_phase_def split: answer_promise.splits)

lemma gathered_forward: "su_phase s = Offering \<Longrightarrow> su_phase s \<le> su_phase (gathered sdp s)"
  by (simp add: gathered_def await_answer_def startup_failed_def less_eq_startup_phase_def split: answer_promise.splits)

lemma startup_goes_forward:
  assumes "startup_inv s"
  shows "su_phase s \<le> su_phase (handle_startup e s)"
proof (cases e)
  case (Socket_Message data)
  then show ?thesis
    by (simp add: signal_onmessage_def settle_answer_forward split: option.splits)
next
  case Socket_Opened
  then show ?thesis
    using phase_facts(2) [OF assms]
    by (cases "su_phase s = Opening_Socket") (auto simp: signal_onopen_def less_eq_startup_phase_def)
next
  case Socket_Failed
  then show ?thesis
    using settle_answer_forward [of s "Rejected []"]
    by (auto simp: signal_onerror_def startup_failed_def less_eq_startup_phase_def split: error_handler.splits)
next
  case (Gathered sdp)
  then show ?thesis
    using gathered_forward by simp
qed (simp_all add: waitWorker_def worker_changed_def connect_def startup_failed_def answer_applied_def less_eq_startup_phase_def
    split: option.splits answer_promise.splits)

lemma startup_goes_forward_run: "su_phase (run_startup es) \<le> su_phase (run_startup (es @ later))"
proof (induction later rule: rev_induct)
  case (snoc e later)
  then show ?case
    using startup_goes_forward [OF startup_inv_run [of "es @ later"], of e] by (simp add: run_startup_def)
qed simp

text \<open>A socket that is closed while the script waits for it, or for the answer, keeps it waiting.\<close>

definition stranded :: "startup \<Rightarrow> bool" where
  "stranded s \<longleftrightarrow>
     su_socket s = Some Closed \<and> (su_phase s = Opening_Socket \<or> su_phase s = Awaiting_Answer \<and> su_answer s = Unsettled) \<and>
     su_status s = waiting_status"

lemma stranded_event: "stranded s \<Longrightarrow> stranded (handle_startup e s)"
  by (cases e) (auto simp: stranded_def)

lemma stranded_forever: "stranded s \<Longrightarrow> stranded (fold handle_startup es s)"
  by (induction es arbitrary: s) (auto simp: stranded_event)

text \<open>C32. The two settings of \<open>signal.onerror\<close> reject the wrong promises: the
  first rejects the answer, which nothing awaits before the socket opens, the second the promise of the opening,
  which is settled once the offer is out. So a socket that fails while it connects, or after the offer, leaves the
  page at its first message whatever happens next; only between the two is the error reported.\<close>

theorem signalling_error_is_swallowed:
  assumes "s = run_startup es" "su_socket s = Some Connecting \<or> su_socket s = Some Open \<and> su_phase s = Awaiting_Answer"
  shows "su_status (fold handle_startup (Socket_Failed # later) s) = (js ''Connecting to the visitor tunnel...'', []) \<and>
    su_phase (fold handle_startup (Socket_Failed # later) s) = su_phase s"
proof -
  have "startup_inv s"
    by (simp add: assms(1) startup_inv_run)
  then have "stranded (handle_startup Socket_Failed s)" and "su_phase (handle_startup Socket_Failed s) = su_phase s"
    using assms(2)
    by (cases "su_phase s"; auto simp: stranded_def startup_inv_def phase_inv_def signal_onerror_def settle_answer_def await_answer_def)+
  moreover have "su_phase (fold handle_startup es t) = su_phase t" if "stranded t" for t es
    using that
  proof (induction es arbitrary: t)
    case (Cons e es)
    moreover from Cons.prems have "su_phase (handle_startup e t) = su_phase t"
      by (cases e) (auto simp: stranded_def)
    ultimately show ?case
      by (simp add: stranded_event)
  qed simp
  ultimately show ?thesis
    using stranded_forever [of "handle_startup Socket_Failed s" later] by (simp add: stranded_def waiting_status_def)
qed

theorem signalling_error_is_swallowed_witness:
  "su_status (fold handle_startup [Socket_Failed, Socket_Opened, Applied] (run_startup [Registered True False None])) =
     (js ''Connecting to the visitor tunnel...'', [])"
  using signalling_error_is_swallowed [of "run_startup [Registered True False None]" "[Registered True False None]"
      "[Socket_Opened, Applied]"]
  by (simp add: run_startup_def startup_defs startup_initial_def)

text \<open>At any time the page has sent at most one offer; it applies only a message of
  kind \<open>answer\<close>; every failure that it notices ends with a message at the page, and nothing but a failure
  changes the message.\<close>

lemma startup_reports_failures:
  "let s = run_startup es in
   length (su_signalled s) \<le> 1 \<and>
   (su_phase s \<in> {Applying_Answer, Connected} \<longrightarrow> (\<exists>v. su_answer s = Resolved v \<and> is_kind ''answer'' v)) \<and>
   (su_phase s = Failed \<longleftrightarrow> su_status s \<noteq> (js ''Connecting to the visitor tunnel...'', [])) \<and>
   (su_phase s = Failed \<longrightarrow> snd (su_status s) = js ''err'' \<and> fst (su_status s) \<noteq> [])"
proof -
  have inv: "startup_inv (run_startup es)"
    by (rule startup_inv_run)
  then have "\<exists>v. su_answer (run_startup es) = Resolved v \<and> is_kind ''answer'' v"
    if "su_phase (run_startup es) \<in> {Applying_Answer, Connected}"
    using that by (auto simp: startup_inv_def phase_inv_def is_answer_def split: answer_promise.splits)
  then show ?thesis
    using inv by (auto simp: Let_def startup_inv_def failure_shown_def waiting_status_def split: if_splits)
qed

end
