(* ===== verification/Go_Json.thy ===== *)
theory Go_Json
  imports Visitor_Page Visitor_Rewrite "HOL-Library.List_Lexorder"
begin

text \<open>
  What the agent, which is written in Go, does with the messages of the data channel: the message type
  (\<open>internal/protocol/messages.go\<close>), and as much of Go's standard library as the agent uses on it:
  \<open>json.Unmarshal\<close> into that type, \<open>json.Marshal\<close> of it, and \<open>base64.StdEncoding\<close>.

  A message is a text on the channel, here the list of its UTF-16 units as for the page, and its length
  in Go is the length of its UTF-8 encoding. The strings of a decoded message are texts without lone
  surrogates. The reader works on the value that \<open>JSON_parse\<close> gives, where the last of several members
  with one name counts and a number has a value and no spelling; messages that differ only there are not
  told apart.
\<close>

subsection \<open>Strings\<close>

text \<open>A string that was read from JSON: an escaped lone surrogate becomes U+FFFD.\<close>

definition go_string :: "js_string \<Rightarrow> js_string" where
  "go_string s = concat (map (\<lambda>c. utf16 (case c of None \<Rightarrow> 0xFFFD | Some n \<Rightarrow> n)) (scalars s))"

definition byte_length :: "js_string \<Rightarrow> nat" where
  "byte_length s = length (text_encode s)"

text \<open>Equality up to case with an ASCII text in lower case (\<open>strings.EqualFold\<close>): two letters outside ASCII
  fold to ASCII ones.\<close>

definition go_fold_unit :: "16 word \<Rightarrow> 16 word" where
  "go_fold_unit c =
     (if 0x41 \<le> c \<and> c \<le> 0x5A then c + 0x20 else if c = 0x17F then 0x73 else if c = 0x212A then 0x6B else c)"

definition equal_fold :: "js_string \<Rightarrow> string \<Rightarrow> bool" where
  "equal_fold s t \<longleftrightarrow> map go_fold_unit s = js t"

text \<open>Equality of the lower case (\<open>strings.ToLower\<close>) with an ASCII text.\<close>

definition go_lower_unit :: "16 word \<Rightarrow> 16 word" where
  "go_lower_unit c =
     (if 0x41 \<le> c \<and> c \<le> 0x5A then c + 0x20 else if c = 0x130 then 0x69 else if c = 0x212A then 0x6B else c)"

definition lower_is :: "js_string \<Rightarrow> string \<Rightarrow> bool" where
  "lower_is s t \<longleftrightarrow> map go_lower_unit s = js t"

subsection \<open>The message type\<close>

record visitor_message =
  vm_kind :: js_string
  vm_id :: js_string
  vm_method :: js_string
  vm_path :: js_string
  vm_headers :: header_lists
  vm_body :: js_string
  vm_status :: int
  vm_error :: js_string

definition empty_message :: visitor_message where
  "empty_message =
     \<lparr>vm_kind = [], vm_id = [], vm_method = [], vm_path = [], vm_headers = [], vm_body = [], vm_status = 0, vm_error = []\<rparr>"

subsection \<open>Reading\<close>

text \<open>\<open>null\<close> leaves a string or a number as it was and empties a map or a slice; \<open>None\<close> is the error for a value
  of another type.\<close>

definition string_value :: "js_string \<Rightarrow> json \<Rightarrow> js_string option" where
  "string_value old v = (case v of JStr s \<Rightarrow> Some (go_string s) | JNull \<Rightarrow> Some old | _ \<Rightarrow> None)"

definition int_value :: "int \<Rightarrow> json \<Rightarrow> int option" where
  "int_value old v =
     (case v of
        JNum x \<Rightarrow> if x = of_int \<lfloor>x\<rfloor> \<and> - (2 ^ 63) \<le> \<lfloor>x\<rfloor> \<and> \<lfloor>x\<rfloor> < 2 ^ 63 then Some \<lfloor>x\<rfloor> else None
      | JNull \<Rightarrow> Some old
      | _ \<Rightarrow> None)"

fun strings_value :: "json list \<Rightarrow> js_string list option" where
  "strings_value [] = Some []"
| "strings_value (v # vs) =
     (case (string_value [] v, strings_value vs) of (Some s, Some ss) \<Rightarrow> Some (s # ss) | _ \<Rightarrow> None)"

definition slice_value :: "json \<Rightarrow> js_string list option" where
  "slice_value v = (case v of JArr vs \<Rightarrow> strings_value vs | JNull \<Rightarrow> Some [] | _ \<Rightarrow> None)"

fun map_value :: "header_lists \<Rightarrow> (js_string \<times> json) list \<Rightarrow> header_lists option" where
  "map_value hs [] = Some hs"
| "map_value hs ((k, v) # ms) =
     (case slice_value v of None \<Rightarrow> None | Some ss \<Rightarrow> map_value (obj_set (go_string k) ss hs) ms)"

definition headers_value :: "header_lists \<Rightarrow> json \<Rightarrow> header_lists option" where
  "headers_value old v = (case v of JObj ms \<Rightarrow> map_value old ms | JNull \<Rightarrow> Some [] | _ \<Rightarrow> None)"

text \<open>A member sets the field with its name, up to case; another member is ignored.\<close>

definition set_field :: "js_string \<Rightarrow> json \<Rightarrow> visitor_message \<Rightarrow> visitor_message option" where
  "set_field k v m =
     (if equal_fold k ''kind'' then map_option (\<lambda>x. m\<lparr>vm_kind := x\<rparr>) (string_value (vm_kind m) v)
      else if equal_fold k ''id'' then map_option (\<lambda>x. m\<lparr>vm_id := x\<rparr>) (string_value (vm_id m) v)
      else if equal_fold k ''method'' then map_option (\<lambda>x. m\<lparr>vm_method := x\<rparr>) (string_value (vm_method m) v)
      else if equal_fold k ''path'' then map_option (\<lambda>x. m\<lparr>vm_path := x\<rparr>) (string_value (vm_path m) v)
      else if equal_fold k ''headers'' then map_option (\<lambda>x. m\<lparr>vm_headers := x\<rparr>) (headers_value (vm_headers m) v)
      else if equal_fold k ''body'' then map_option (\<lambda>x. m\<lparr>vm_body := x\<rparr>) (string_value (vm_body m) v)
      else if equal_fold k ''status'' then map_option (\<lambda>x. m\<lparr>vm_status := x\<rparr>) (int_value (vm_status m) v)
      else if equal_fold k ''error'' then map_option (\<lambda>x. m\<lparr>vm_error := x\<rparr>) (string_value (vm_error m) v)
      else Some m)"

fun set_fields :: "(js_string \<times> json) list \<Rightarrow> visitor_message \<Rightarrow> visitor_message option" where
  "set_fields [] m = Some m"
| "set_fields ((k, v) # ms) m = (case set_field k v m of None \<Rightarrow> None | Some m' \<Rightarrow> set_fields ms m')"

definition unmarshal :: "js_string \<Rightarrow> visitor_message option" where
  "unmarshal data =
     (case JSON_parse data of
        Some (JObj ms) \<Rightarrow> set_fields ms empty_message
      | Some JNull \<Rightarrow> Some empty_message
      | _ \<Rightarrow> None)"

subsection \<open>Writing\<close>

text \<open>The fields in their order, those with \<open>omitempty\<close> only when they are not empty; the keys of a map are sorted.\<close>

definition sorted_headers :: "header_lists \<Rightarrow> header_lists" where
  "sorted_headers hs = sort_key (text_encode \<circ> fst) hs"

definition message_json :: "visitor_message \<Rightarrow> json" where
  "message_json m =
     JObj ([(js ''kind'', JStr (vm_kind m)), (js ''id'', JStr (vm_id m))] @
       (if vm_method m = [] then [] else [(js ''method'', JStr (vm_method m))]) @
       (if vm_path m = [] then [] else [(js ''path'', JStr (vm_path m))]) @
       (if vm_headers m = [] then [] else [(js ''headers'', headers_json (sorted_headers (vm_headers m)))]) @
       (if vm_body m = [] then [] else [(js ''body'', JStr (vm_body m))]) @
       (if vm_status m = 0 then [] else [(js ''status'', JNum (of_int (vm_status m)))]) @
       (if vm_error m = [] then [] else [(js ''error'', JStr (vm_error m))]))"

text \<open>Go writes a text as \<open>JSON.stringify\<close> does, save that it escapes the characters that mean something in HTML
  and the two line separators. They stand in strings only.\<close>

definition html_unit :: "16 word \<Rightarrow> bool" where
  "html_unit c \<longleftrightarrow> c = 0x3C \<or> c = 0x3E \<or> c = 0x26 \<or> c = 0x2028 \<or> c = 0x2029"

definition html_escape :: "js_string \<Rightarrow> js_string" where
  "html_escape s = concat (map (\<lambda>c. if html_unit c then [0x5C, 0x75] @ hex4 c else [c]) s)"

definition marshal :: "visitor_message \<Rightarrow> js_string" where
  "marshal m = html_escape (stringify (message_json m))"

subsection \<open>Base64\<close>

text \<open>\<open>base64.StdEncoding.DecodeString\<close>: line breaks are skipped, the padding is required.\<close>

definition go_base64 :: "js_string \<Rightarrow> byte list option" where
  "go_base64 s =
     (let t = filter (\<lambda>c. c \<noteq> 0xA \<and> c \<noteq> 0xD) s; u = strip_padding t in
      if length t mod 4 \<noteq> 0 \<or> list_ex (\<lambda>c. b64_val c = None) u then None
      else Some (map of_nat (octets (map (the \<circ> b64_val) u))))"

subsection \<open>The page reads what the agent writes\<close>

lemma html_escape_simps [simp]:
  "html_escape [] = []"
  "html_escape (c # s) = (if html_unit c then 0x5C # 0x75 # hex4 c @ html_escape s else c # html_escape s)"
  by (simp_all add: html_escape_def)

lemma html_unit_cases:
  assumes "html_unit c"
  shows "\<not> is_digit c" "\<not> json_ws c" "hex_val c = None" "escape_unit c = None" "c \<noteq> 0x22" "c \<noteq> 0x5C" "c \<noteq> 0x2E" "c \<noteq> 0x2D"
    "c \<noteq> 0x2B" "c \<noteq> 0x65" "c \<noteq> 0x45" "c \<noteq> 0x5B" "c \<noteq> 0x5D" "c \<noteq> 0x7B" "c \<noteq> 0x7D" "c \<noteq> 0x3A" "c \<noteq> 0x2C" "c \<noteq> 0x75" "\<not> c < 0x20"
  using assms by (auto simp: html_unit_def is_digit_def json_ws_def hex_val_def escape_unit_def)

lemma skip_ws_html_escape: "skip_ws (html_escape s) = html_escape (skip_ws s)"
proof (induction s)
  case (Cons c s)
  have "\<not> json_ws 0x5C"
    by (simp add: json_ws_def)
  then show ?case
    using Cons html_unit_cases(2) [of c] by (auto simp: skip_ws_def)
qed (simp add: skip_ws_def)

lemma startsWith_html_escape:
  assumes "list_all (\<lambda>c. c \<noteq> 0x5C \<and> \<not> html_unit c) p"
  shows "startsWith (html_escape s) p \<longleftrightarrow> startsWith s p"
  using assms
proof (induction p arbitrary: s)
  case (Cons d p)
  then show ?case
    by (cases s) auto
qed simp

lemma drop_html_escape:
  assumes "list_all (\<lambda>c. c \<noteq> 0x5C \<and> \<not> html_unit c) p" "startsWith s p"
  shows "drop (length p) (html_escape s) = html_escape (drop (length p) s)"
  using assms
proof (induction p arbitrary: s)
  case (Cons d p)
  then show ?case
    by (cases s) auto
qed simp

lemma read_hex4_plain:
  assumes "read_hex4 a b c d = Some u"
  shows "\<not> html_unit a" "\<not> html_unit b" "\<not> html_unit c" "\<not> html_unit d"
  using assms html_unit_cases(3) by (auto simp: read_hex4_def split: option.splits)

lemma parse_chars_html_unit:
  assumes "html_unit c"
  shows "parse_chars (0x5C # 0x75 # hex4 c @ r) = map_option (apfst ((#) c)) (parse_chars r)"
proof -
  obtain h1 h2 h3 h4 where h: "hex4 c = [h1, h2, h3, h4]"
    by (simp add: hex4_def Let_def)
  moreover have "read_hex4 h1 h2 h3 h4 = Some c"
    by (rule read_hex4_hex4 [OF h])
  ultimately show ?thesis
    by simp
qed

lemma parse_chars_html_escape:
  "parse_chars s = Some (x, t) \<Longrightarrow> parse_chars (html_escape s) = Some (x, html_escape t)"
proof (induction s arbitrary: x t rule: parse_chars.induct)
  case (2 c s)
  show ?case
  proof (cases "html_unit c")
    case True
    then obtain y where y: "parse_chars s = Some (y, t)" "x = c # y"
      using 2(4) html_unit_cases(5,6,19) [OF True] by auto
    then have "parse_chars (html_escape s) = Some (y, html_escape t)"
      using 2(3) html_unit_cases(5,6,19) [OF True] by auto
    then show ?thesis
      using True y by (simp add: parse_chars_html_unit del: parse_chars.simps)
  next
    case plain: False
    show ?thesis
    proof (cases "c = 0x5C")
      case True
      then obtain e r where s: "s = e # r"
        using 2(4) by (cases s) auto
      show ?thesis
      proof (cases "e = 0x75")
        case u: True
        then obtain h1 h2 h3 h4 w where r: "r = h1 # h2 # h3 # h4 # w"
          using 2(4) True s by (auto split: list.splits)
        then obtain v where v: "read_hex4 h1 h2 h3 h4 = Some v"
          using 2(4) True s u by (auto split: option.splits)
        note hs = read_hex4_plain [OF v]
        show ?thesis
          using 2(1) [OF _ True s u r] 2(4) True s u r v hs plain by (auto simp: html_unit_def)
      next
        case other: False
        then obtain v where v: "escape_unit e = Some v"
          using 2(4) True s by (auto split: option.splits)
        then have "\<not> html_unit e"
          using html_unit_cases(4) by force
        then show ?thesis
          using 2(2) [OF _ True s other v] 2(4) True s other v plain by auto
      qed
    next
      case False
      then show ?thesis
        using 2(3) 2(4) plain by (auto split: if_splits)
    qed
  qed
qed simp

lemma read_digits_html_escape:
  "read_digits s = Some (ds, t) \<Longrightarrow> read_digits (html_escape s) = Some (ds, html_escape t)"
proof -
  assume a: "read_digits s = Some (ds, t)"
  have "takeWhile is_digit (html_escape s) = takeWhile is_digit s \<and> dropWhile is_digit (html_escape s) = html_escape (dropWhile is_digit s)"
  proof (induction s)
    case (Cons c s)
    have "\<not> is_digit 0x5C"
      by (simp add: is_digit_def)
    then show ?case
      using Cons html_unit_cases(1) [of c] by auto
  qed simp
  with a show ?thesis
    by (auto simp: read_digits_def Let_def split: if_splits)
qed

lemma read_frac_html_escape: "read_frac s = Some (f, t) \<Longrightarrow> read_frac (html_escape s) = Some (f, html_escape t)"
  by (cases s) (auto simp: read_frac_def html_unit_def read_digits_html_escape split: if_splits option.splits)

lemma hd_html_escape:
  "c \<noteq> 0x5C \<Longrightarrow> \<not> html_unit c \<Longrightarrow> (html_escape s \<noteq> [] \<and> hd (html_escape s) = c) \<longleftrightarrow> (s \<noteq> [] \<and> hd s = c)"
  by (cases s) auto

lemma tl_html_escape: "\<not> html_unit c \<Longrightarrow> s \<noteq> [] \<Longrightarrow> hd s = c \<Longrightarrow> tl (html_escape s) = html_escape (tl s)"
  by (cases s) auto

lemma sign_html_escape:
  "(html_escape s \<noteq> [] \<and> hd (html_escape s) = 0x2D) \<longleftrightarrow> (s \<noteq> [] \<and> hd s = 0x2D)"
  "(html_escape s \<noteq> [] \<and> (hd (html_escape s) = 0x2D \<or> hd (html_escape s) = 0x2B)) \<longleftrightarrow> (s \<noteq> [] \<and> (hd s = 0x2D \<or> hd s = 0x2B))"
  by (cases s; auto simp: html_unit_def)+

lemma read_exp_html_escape: "read_exp s = Some (f, t) \<Longrightarrow> read_exp (html_escape s) = Some (f, html_escape t)"
proof (cases s)
  case (Cons c r)
  assume a: "read_exp s = Some (f, t)"
  have tl: "(if r \<noteq> [] \<and> (hd r = 0x2D \<or> hd r = 0x2B) then tl (html_escape r) else html_escape r) =
      html_escape (if r \<noteq> [] \<and> (hd r = 0x2D \<or> hd r = 0x2B) then tl r else r)"
    by (cases r) (auto simp: html_unit_def)
  show ?thesis
  proof (cases "c = 0x65 \<or> c = 0x45")
    case True
    then have c: "\<not> html_unit c"
      by (auto simp: html_unit_def)
    define q where "q = (if r \<noteq> [] \<and> (hd r = 0x2D \<or> hd r = 0x2B) then tl r else r)"
    obtain ds where d: "read_digits q = Some (ds, t)" "f = (if r \<noteq> [] \<and> hd r = 0x2D then 1 / 10 ^ digits_val 0 ds else 10 ^ digits_val 0 ds)"
      using a True Cons by (auto simp: read_exp_def Let_def q_def split: option.splits)
    have "html_escape s = c # html_escape r"
      using Cons c by simp
    moreover have "(if html_escape r \<noteq> [] \<and> (hd (html_escape r) = 0x2D \<or> hd (html_escape r) = 0x2B) then tl (html_escape r) else html_escape r) =
        html_escape q"
      unfolding sign_html_escape q_def by (rule tl)
    ultimately show ?thesis
      using True read_digits_html_escape [OF d(1)] sign_html_escape(1) [of r] d(2) by (simp add: read_exp_def Let_def)
  next
    case False
    then have "f = 1 \<and> t = s"
      using a Cons by (auto simp: read_exp_def)
    then show ?thesis
      using False Cons by (cases "html_unit c") (auto simp: read_exp_def)
  qed
qed (simp add: read_exp_def)

lemma parse_number_html_escape: "parse_number s = Some (x, t) \<Longrightarrow> parse_number (html_escape s) = Some (x, html_escape t)"
proof -
  assume a: "parse_number s = Some (x, t)"
  define q where "q = (if s \<noteq> [] \<and> hd s = 0x2D then tl s else s)"
  obtain ds s2 f s3 e where p: "read_digits q = Some (ds, s2)" "\<not> (hd ds = 0x30 \<and> length ds \<noteq> 1)" "read_frac s2 = Some (f, s3)"
      "read_exp s3 = Some (e, t)" "x = (if s \<noteq> [] \<and> hd s = 0x2D then -1 else 1) * (of_nat (digits_val 0 ds) + f) * e"
    using a unfolding parse_number_def Let_def q_def [symmetric] by (auto split: option.splits if_splits)
  have "(if html_escape s \<noteq> [] \<and> hd (html_escape s) = 0x2D then tl (html_escape s) else html_escape s) = html_escape q"
    unfolding sign_html_escape q_def by (cases s) (auto simp: html_unit_def)
  then show ?thesis
    unfolding parse_number_def Let_def sign_html_escape
    using read_digits_html_escape [OF p(1)] p(2) read_frac_html_escape [OF p(3)] read_exp_html_escape [OF p(4)] p(5)
    by simp
qed

lemma parse_number_digit: "parse_number (c # r) = Some (x, t) \<Longrightarrow> is_digit c \<or> c = 0x2D"
  by (auto simp: parse_number_def read_digits_def Let_def split: if_splits option.splits)

lemma read_key_html_escape: "read_key s = Some (key, t) \<Longrightarrow> read_key (html_escape s) = Some (key, html_escape t)"
proof -
  assume a: "read_key s = Some (key, t)"
  obtain r u v where k: "skip_ws s = 0x22 # r" "parse_chars r = Some (key, u)" "skip_ws u = 0x3A # t"
    using a by (auto simp: read_key_def split: list.splits option.splits if_splits)
  then have "skip_ws (html_escape s) = 0x22 # html_escape r" "skip_ws (html_escape u) = 0x3A # html_escape t"
    by (simp_all add: skip_ws_html_escape html_unit_def)
  then show ?thesis
    using parse_chars_html_escape [OF k(2)] by (simp add: read_key_def)
qed

text \<open>What stands outside the strings of a value is not escaped.\<close>

lemma literal_html_escape:
  "startsWith (html_escape s) (js ''null'') = startsWith s (js ''null'')" "startsWith (html_escape s) (js ''true'') = startsWith s (js ''true'')"
  "startsWith (html_escape s) (js ''false'') = startsWith s (js ''false'')"
  "startsWith s (js ''null'') \<Longrightarrow> drop 4 (html_escape s) = html_escape (drop 4 s)"
  "startsWith s (js ''true'') \<Longrightarrow> drop 4 (html_escape s) = html_escape (drop 4 s)"
  "startsWith s (js ''false'') \<Longrightarrow> drop 5 (html_escape s) = html_escape (drop 5 s)"
proof -
  have l: "list_all (\<lambda>c. c \<noteq> 0x5C \<and> \<not> html_unit c) (js ''null'')" "list_all (\<lambda>c. c \<noteq> 0x5C \<and> \<not> html_unit c) (js ''true'')"
    "list_all (\<lambda>c. c \<noteq> 0x5C \<and> \<not> html_unit c) (js ''false'')"
    by (simp_all add: js_def html_unit_def)
  from startsWith_html_escape [OF l(1)] startsWith_html_escape [OF l(2)] startsWith_html_escape [OF l(3)] show
    "startsWith (html_escape s) (js ''null'') = startsWith s (js ''null'')" "startsWith (html_escape s) (js ''true'') = startsWith s (js ''true'')"
    "startsWith (html_escape s) (js ''false'') = startsWith s (js ''false'')" by auto
  from drop_html_escape [OF l(1)] drop_html_escape [OF l(2)] drop_html_escape [OF l(3)] show
    "startsWith s (js ''null'') \<Longrightarrow> drop 4 (html_escape s) = html_escape (drop 4 s)"
    "startsWith s (js ''true'') \<Longrightarrow> drop 4 (html_escape s) = html_escape (drop 4 s)"
    "startsWith s (js ''false'') \<Longrightarrow> drop 5 (html_escape s) = html_escape (drop 5 s)" by (simp_all add: js_def eval_nat_numeral)
qed

lemma html_escape_plain [simp]: "\<not> html_unit c \<Longrightarrow> html_escape (c # s) = c # html_escape s"
  by simp

lemma parse_html_escape:
  shows parse_value_html_escape: "parse_value k s = Some (v, t) \<Longrightarrow> parse_value k (html_escape s) = Some (v, html_escape t)"
    and parse_elems_html_escape: "parse_elems k s = Some (vs, t) \<Longrightarrow> parse_elems k (html_escape s) = Some (vs, html_escape t)"
    and parse_members_html_escape: "parse_members k s = Some (ms, t) \<Longrightarrow> parse_members k (html_escape s) = Some (ms, html_escape t)"
proof (induction k s and k s and k s arbitrary: v t and vs t and ms t rule: parse_value_parse_elems_parse_members.induct)
  case (2 k s)
  obtain c r where s: "skip_ws s = c # r"
    using 2(3) by (cases "skip_ws s") auto
  have c: "\<not> html_unit c"
  proof
    assume h: "html_unit c"
    then have "\<not> startsWith (c # r) (js ''null'')" "\<not> startsWith (c # r) (js ''true'')" "\<not> startsWith (c # r) (js ''false'')"
      by (auto simp: html_unit_def js_def)
    then have "parse_number (c # r) \<noteq> None"
      using 2(3) s html_unit_cases [OF h] by auto
    then show False
      using parse_number_digit html_unit_cases(1,8) [OF h] by fastforce
  qed
  then have e: "skip_ws (html_escape s) = c # html_escape r" and e': "html_escape (c # r) = c # html_escape r"
    by (simp_all add: skip_ws_html_escape s)
  consider "c = 0x22" | "c = 0x5B" | "c = 0x7B" | "c \<noteq> 0x22" "c \<noteq> 0x5B" "c \<noteq> 0x7B"
    by blast
  then show ?case
  proof cases
    case 1
    then show ?thesis
      using 2(3) s e by (auto simp: parse_chars_html_escape)
  next
    case arr: 2
    then obtain d w where d: "skip_ws r = d # w"
      using 2(3) s by (cases "skip_ws r") auto
    show ?thesis
    proof (cases "d = 0x5D")
      case True
      then show ?thesis
        using arr 2(3) s e d by (auto simp: skip_ws_html_escape html_unit_def)
    next
      case False
      then obtain vs where "parse_elems k r = Some (vs, t)" "v = JArr vs"
        using arr 2(3) s d by auto
      moreover from this have "parse_elems k (html_escape r) = Some (vs, html_escape t)"
        using 2(1) [OF s _ arr d False] arr by simp
      moreover obtain d' w' where "skip_ws (html_escape r) = d' # w'" "d' \<noteq> 0x5D"
        using d False by (cases "html_unit d") (simp_all add: skip_ws_html_escape)
      ultimately show ?thesis
        using arr e by simp
    qed
  next
    case obj: 3
    then obtain d w where d: "skip_ws r = d # w"
      using 2(3) s by (cases "skip_ws r") auto
    show ?thesis
    proof (cases "d = 0x7D")
      case True
      then show ?thesis
        using obj 2(3) s e d by (auto simp: skip_ws_html_escape html_unit_def)
    next
      case False
      then obtain ms where "parse_members k r = Some (ms, t)" "v = JObj (object_of ms)"
        using obj 2(3) s d by auto
      moreover from this have "parse_members k (html_escape r) = Some (ms, html_escape t)"
        using 2(2) [OF s _ _ obj d False] obj by simp
      moreover obtain d' w' where "skip_ws (html_escape r) = d' # w'" "d' \<noteq> 0x7D"
        using d False by (cases "html_unit d") (simp_all add: skip_ws_html_escape)
      ultimately show ?thesis
        using obj e by simp
    qed
  next
    case 4
    note l = literal_html_escape [of "c # r", unfolded e']
    show ?thesis
      using 2(3) s e 4 l parse_number_html_escape [of "c # r"] unfolding e'
      by (auto split: if_splits simp del: startsWith.simps)
  qed
next
  case (4 k s)
  obtain v w d u where p: "parse_value k s = Some (v, w)" "skip_ws w = d # u" "d = 0x2C \<or> d = 0x5D"
    using 4(3) by (auto split: option.splits list.splits if_splits)
  have "skip_ws (html_escape w) = d # html_escape u"
    using p(2,3) by (auto simp: skip_ws_html_escape html_unit_def)
  then show ?case
    using 4(1) [OF p(1)] 4(2) [OF p(1) refl p(2)] 4(3) p by auto
next
  case (6 k s)
  obtain key u v w e x where p: "read_key s = Some (key, u)" "parse_value k u = Some (v, w)" "skip_ws w = e # x" "e = 0x2C \<or> e = 0x7D"
    using 6(3) by (auto split: option.splits list.splits if_splits)
  have "skip_ws (html_escape w) = e # html_escape x"
    using p(3,4) by (auto simp: skip_ws_html_escape html_unit_def)
  then show ?case
    using 6(1) [OF p(1) refl p(2)] 6(2) [OF p(1) refl p(2) refl p(3)] 6(3) p read_key_html_escape [OF p(1)] by auto
qed simp_all

lemma length_html_escape: "length s \<le> length (html_escape s)"
  by (induction s) auto

lemma JSON_parse_html_escape: "JSON_parse s = Some v \<Longrightarrow> JSON_parse (html_escape s) = Some v"
proof -
  assume a: "JSON_parse s = Some v"
  then obtain t where t: "parse_value (2 * length s + 2) s = Some (v, t)" "skip_ws t = []"
    by (auto simp: JSON_parse_def split: option.splits if_splits)
  have "parse_value (2 * length (html_escape s) + 2) s = parse_value (2 * length s + 2) s"
    using parse_value_fuel [of s "2 * length (html_escape s) + 2"] parse_value_fuel [of s "2 * length s + 2"] length_html_escape [of s] by simp
  from parse_value_html_escape [OF this [unfolded t(1)]] show ?thesis
    using t(2) unfolding JSON_parse_def by (simp add: skip_ws_html_escape del: parse_value.simps)
qed

lemma JSON_parse_marshal: "json_ok (message_json m) \<Longrightarrow> JSON_parse (marshal m) = Some (message_json m)"
  by (simp add: marshal_def JSON_parse_html_escape parse_stringify_json)

subsection \<open>The agent reads what the page writes\<close>

text \<open>The texts that Go and JavaScript share: those without a lone surrogate.\<close>

definition whole_text :: "js_string \<Rightarrow> bool" where
  "whole_text s \<longleftrightarrow> None \<notin> set (scalars s)"

lemma go_string_whole: "whole_text s \<Longrightarrow> go_string s = s"
proof -
  assume a: "whole_text s"
  then have "map (\<lambda>c. utf16 (case c of None \<Rightarrow> 0xFFFD | Some n \<Rightarrow> n)) (scalars s) = map (utf16 \<circ> the) (scalars s)"
    by (auto simp: whole_text_def split: option.splits)
  then have "go_string s = concat (map (utf16 \<circ> the) (scalars s))"
    by (simp only: go_string_def)
  then show ?thesis
    using a utf16_scalars [of s] by (simp add: whole_text_def)
qed

lemma go_string_Nil [simp]: "go_string [] = []"
  by (simp add: go_string_def)

lemma whole_text_ascii: "\<forall>c \<in> set s. unat c < 128 \<Longrightarrow> whole_text s"
  unfolding whole_text_def
  by (induction s rule: scalars.induct) (auto simp: scalar_of_unit_def is_high_def is_low_def word_le_nat_alt)

lemma field_names [simp]:
  "set_field (js ''kind'') v m = map_option (\<lambda>x. m\<lparr>vm_kind := x\<rparr>) (string_value (vm_kind m) v)"
  "set_field (js ''id'') v m = map_option (\<lambda>x. m\<lparr>vm_id := x\<rparr>) (string_value (vm_id m) v)"
  "set_field (js ''method'') v m = map_option (\<lambda>x. m\<lparr>vm_method := x\<rparr>) (string_value (vm_method m) v)"
  "set_field (js ''path'') v m = map_option (\<lambda>x. m\<lparr>vm_path := x\<rparr>) (string_value (vm_path m) v)"
  "set_field (js ''headers'') v m = map_option (\<lambda>x. m\<lparr>vm_headers := x\<rparr>) (headers_value (vm_headers m) v)"
  "set_field (js ''body'') v m = map_option (\<lambda>x. m\<lparr>vm_body := x\<rparr>) (string_value (vm_body m) v)"
  by (simp_all add: set_field_def equal_fold_def js_def go_fold_unit_def)

lemma string_value_JStr [simp]: "string_value old (JStr s) = Some (go_string s)"
  by (simp add: string_value_def)

lemma strings_value_JStr: "strings_value (map JStr vs) = Some (map go_string vs)"
  by (induction vs) auto

text \<open>The headers as the agent has them.\<close>

definition go_headers :: "header_lists \<Rightarrow> header_lists" where
  "go_headers hs = foldl (\<lambda>a (k, vs). obj_set (go_string k) (map go_string vs) a) [] hs"

lemma map_value_headers:
  "map_value acc (map (\<lambda>(n, vs). (n, JArr (map JStr vs))) hs) = Some (foldl (\<lambda>a (k, vs). obj_set (go_string k) (map go_string vs) a) acc hs)"
  by (induction hs arbitrary: acc) (auto simp: slice_value_def strings_value_JStr)

lemma headers_value_json: "headers_value [] (headers_json hs) = Some (go_headers hs)"
  by (simp add: headers_value_def headers_json_def go_headers_def map_value_headers)

text \<open>Nothing is lost of headers that are whole texts.\<close>

lemma go_headers_whole:
  assumes "distinct (map fst hs)" "\<forall>(n, vs) \<in> set hs. whole_text n \<and> (\<forall>v \<in> set vs. whole_text v)"
  shows "go_headers hs = hs"
proof -
  have "foldl (\<lambda>a (k, vs). obj_set (go_string k) (map go_string vs) a) acc hs = acc @ hs"
    if "distinct (map fst (acc @ hs))" "\<forall>(n, vs) \<in> set hs. whole_text n \<and> (\<forall>v \<in> set vs. whole_text v)" for acc
    using that
  proof (induction hs arbitrary: acc)
    case (Cons h hs)
    obtain n vs where h: "h = (n, vs)"
      by fastforce
    then have "go_string n = n" "map go_string vs = vs" "n \<notin> fst ` set acc"
      using Cons(2,3) by (auto simp: go_string_whole intro!: map_idI)
    then show ?case
      using Cons(1) [of "acc @ [(n, vs)]"] Cons(2,3) h by (simp add: obj_set_fresh)
  qed simp
  from this [of "[]"] show ?thesis
    using assms by (simp add: go_headers_def)
qed

lemma unmarshal_frames:
  assumes "fetch_ok m"
  shows "unmarshal (stringify (request_start i m)) =
      Some (empty_message\<lparr>vm_kind := js ''request_start'', vm_id := go_string i, vm_method := go_string (vf_method m),
        vm_path := go_string (vf_path m), vm_headers := go_headers (fetch_headers m)\<rparr>)"
    "unmarshal (stringify (request_chunk i b)) =
      Some (empty_message\<lparr>vm_kind := js ''request_chunk'', vm_id := go_string i, vm_body := go_string (base64 b)\<rparr>)"
    "unmarshal (stringify (request_end i)) = Some (empty_message\<lparr>vm_kind := js ''request_end'', vm_id := go_string i\<rparr>)"
proof -
  have ok: "json_ok (request_start i m)" "json_ok (request_chunk i b)" "json_ok (request_end i)"
    using assms headers_json_ok by (auto simp: frame_defs fetch_ok_def) (auto simp: frame_def)
  have kinds: "go_string (js ''request_start'') = js ''request_start''" "go_string (js ''request_chunk'') = js ''request_chunk''"
    "go_string (js ''request_end'') = js ''request_end''"
    by (simp_all add: js_def go_string_whole whole_text_ascii)
  have h: "vm_headers (empty_message\<lparr>vm_kind := a, vm_id := b, vm_method := c, vm_path := d\<rparr>) = []" for a b c d
    by (simp add: empty_message_def)
  show "unmarshal (stringify (request_start i m)) =
      Some (empty_message\<lparr>vm_kind := js ''request_start'', vm_id := go_string i, vm_method := go_string (vf_method m),
        vm_path := go_string (vf_path m), vm_headers := go_headers (fetch_headers m)\<rparr>)"
    using parse_stringify_json [OF ok(1)] by (simp add: unmarshal_def request_start_def) (simp add: frame_def kinds h headers_value_json)
  show "unmarshal (stringify (request_chunk i b)) =
      Some (empty_message\<lparr>vm_kind := js ''request_chunk'', vm_id := go_string i, vm_body := go_string (base64 b)\<rparr>)"
    using parse_stringify_json [OF ok(2)] by (simp add: unmarshal_def request_chunk_def) (simp add: frame_def kinds)
  show "unmarshal (stringify (request_end i)) = Some (empty_message\<lparr>vm_kind := js ''request_end'', vm_id := go_string i\<rparr>)"
    using parse_stringify_json [OF ok(3)] by (simp add: unmarshal_def request_end_def) (simp add: frame_def kinds)
qed

subsection \<open>Sizes\<close>

text \<open>Units that stand for themselves in JSON, in Go's as well, and take one byte.\<close>

definition plain_ascii :: "js_string \<Rightarrow> bool" where
  "plain_ascii s \<longleftrightarrow> (\<forall>c \<in> set s. 0x20 \<le> c \<and> c < 0x80 \<and> c \<noteq> 0x22 \<and> c \<noteq> 0x5C \<and> \<not> html_unit c)"

lemma plain_ascii_append [simp]: "plain_ascii (s @ t) \<longleftrightarrow> plain_ascii s \<and> plain_ascii t"
  by (auto simp: plain_ascii_def)

lemma plain_ascii_whole: "plain_ascii s \<Longrightarrow> whole_text s"
  by (auto intro!: whole_text_ascii simp: plain_ascii_def word_less_nat_alt)

lemma plain_unit_bounds: "(c :: 16 word) < 0x80 \<Longrightarrow> \<not> is_high c \<and> \<not> is_low c"
  by (auto simp: is_high_def is_low_def word_le_nat_alt word_less_nat_alt)

lemma plain_ascii_Cons: "plain_ascii (c # s) \<longleftrightarrow> plain_ascii [c] \<and> plain_ascii s"
  using plain_ascii_append [of "[c]" s] by simp

lemma quote_unit_plain:
  assumes "plain_ascii [c]"
  shows "quote_unit c = [c]" "\<not> is_high c"
proof -
  have c: "0x20 \<le> c" "c < 0x80" "c \<noteq> 0x22" "c \<noteq> 0x5C"
    using assms by (simp_all add: plain_ascii_def)
  have "\<not> c < 0x20"
    using c(1) by (simp add: word_le_nat_alt word_less_nat_alt)
  moreover from this have "c \<noteq> 0x8" "c \<noteq> 0x9" "c \<noteq> 0xA" "c \<noteq> 0xC" "c \<noteq> 0xD"
    by auto
  ultimately show "quote_unit c = [c]" "\<not> is_high c"
    using c plain_unit_bounds [OF c(2)] by (simp_all add: quote_unit_def)
qed

lemma quote_units_plain: "plain_ascii s \<Longrightarrow> quote_units s = s"
proof (induction s rule: quote_units.induct)
  case (3 c d s)
  then have "plain_ascii [c]" "plain_ascii (d # s)"
    using plain_ascii_Cons [of c "d # s"] by simp_all
  then show ?case
    using 3(2) by (simp add: quote_unit_plain)
qed (simp_all add: quote_unit_plain)

lemma html_escape_plain_ascii: "plain_ascii s \<Longrightarrow> html_escape s = s"
  by (induction s) (auto simp: plain_ascii_def)

lemma html_escape_append [simp]: "html_escape (s @ t) = html_escape s @ html_escape t"
  by (simp add: html_escape_def)

lemma byte_length_ascii: "\<forall>c \<in> set s. c < 0x80 \<Longrightarrow> byte_length s = length s"
proof -
  assume "\<forall>c \<in> set s. c < 0x80"
  then show ?thesis
    unfolding byte_length_def text_encode_def
    by (induction s rule: scalars.induct) (auto simp: scalar_of_unit_def plain_unit_bounds utf8_def word_less_nat_alt)
qed

lemma base64_text: "base64 bs = map b64_char (sextets (map unat bs)) @ padding (length bs)"
proof -
  have "map unat (fromCharCode bs) = map unat bs"
    by (simp add: fromCharCode_def unsigned_ucast_eq take_bit_nat_eq_self unsigned_less [THEN less_le_trans])
  moreover have "btoa (fromCharCode bs) = Some (base64 bs)"
    using toBase64_some(1) [of bs] by simp
  ultimately have "Some (base64 bs) = Some (map b64_char (sextets (map unat bs)) @ padding (length (fromCharCode bs)))"
    unfolding btoa_def by (simp only: option.distinct split: if_splits)
  then show ?thesis
    by (simp add: fromCharCode_def)
qed

lemma sextets_bytes: "list_all (\<lambda>s. s < 64) (sextets (map unat (bs :: byte list)))"
  using unsigned_less [where ?'b = 8 and ?'a = nat] by (intro sextets_less) (auto simp: list_all_iff)

lemma b64_char_plain_ascii: "n < 64 \<Longrightarrow> plain_ascii [b64_char n]"
proof -
  assume "n < 64"
  moreover have "\<forall>n \<in> set [0..<64]. plain_ascii [b64_char n]"
    unfolding plain_ascii_def html_unit_def by code_simp
  ultimately show ?thesis
    by simp
qed

lemma plain_ascii_base64: "plain_ascii (base64 bs)"
proof -
  have "plain_ascii (padding n)" for n
    by (simp add: padding_def plain_ascii_def html_unit_def)
  moreover have "plain_ascii (map b64_char (sextets (map unat bs)))"
    using sextets_bytes [of bs] b64_char_plain_ascii unfolding plain_ascii_def by (force simp: list_all_iff)
  ultimately show ?thesis
    by (simp add: base64_text)
qed

lemma length_sextets: "length (sextets ns) + length (padding (length ns)) = 4 * ((length ns + 2) div 3)"
proof (induction ns rule: sextets.induct)
  case (4 a b c r)
  have "(Suc (Suc (Suc (length r))) + 2) div 3 = Suc ((length r + 2) div 3)"
    by simp
  then show ?case
    using 4 by (cases "length r mod 3 = 1"; cases "length r mod 3 = 2") (simp_all add: padding_def)
qed (simp_all add: padding_def)

lemma length_base64: "length (base64 bs) = 4 * ((length bs + 2) div 3)"
  using length_sextets [of "map unat bs"] by (simp add: base64_text)

lemma go_base64_base64 [simp]: "go_base64 (base64 bs) = Some bs"
proof -
  let ?t = "sextets (map unat bs)"
  have small: "list_all (\<lambda>s. s < 64) ?t"
    by (rule sextets_bytes)
  have "filter (\<lambda>c. c \<noteq> 0xA \<and> c \<noteq> 0xD) (base64 bs) = base64 bs"
    using plain_ascii_base64 [of bs] by (auto simp: filter_id_conv plain_ascii_def)
  moreover have "strip_padding (base64 bs) = map b64_char ?t"
    using strip_padding_encoded [OF small] length_sextets_mod [of "map unat bs"] by (simp add: base64_text)
  moreover have "map (the \<circ> b64_val) (map b64_char ?t) = ?t" "\<not> list_ex (\<lambda>c. b64_val c = None) (map b64_char ?t)"
    using small by (auto simp: list_all_iff list_ex_iff intro!: map_idI)
  moreover have "octets ?t = map unat bs"
    using unsigned_less [where ?'b = 8 and ?'a = nat] by (intro octets_sextets) (auto simp: list_all_iff)
  ultimately show ?thesis
    by (simp add: go_base64_def Let_def length_base64 comp_def)
qed

lemma quote_plain: "plain_ascii s \<Longrightarrow> quote s = 0x22 # s @ [0x22]"
  by (simp add: quote_def quote_units_plain)

lemma plain_ascii_literals:
  "plain_ascii (js ''kind'')" "plain_ascii (js ''id'')" "plain_ascii (js ''body'')" "plain_ascii (js ''request_chunk'')"
  "plain_ascii (js ''request_end'')" "plain_ascii (js ''response_chunk'')" "plain_ascii (js ''response_end'')"
  by (simp_all add: plain_ascii_def js_def html_unit_def)

lemma byte_length_plain:
  assumes "\<forall>c \<in> set s. c < 0x80 \<and> \<not> html_unit c"
  shows "byte_length s = length s" "html_escape s = s"
  using assms byte_length_ascii [of s] by (auto simp: html_escape_def intro!: concat_map_singleton [THEN trans] map_idI cong: map_cong)

text \<open>The length of a frame with an id and perhaps a body, written by the page or by the agent.\<close>

lemma frame_text_plain:
  assumes "plain_ascii (js k)" "plain_ascii i" "plain_ascii t" "ms = [] \<or> ms = [(js ''body'', JStr t)]"
  shows "\<forall>c \<in> set (stringify (frame k i ms)). c < 0x80 \<and> \<not> html_unit c"
    "length (stringify (frame k i ms)) \<le> length k + length i + length t + 40"
proof -
  have units: "c < 0x80 \<and> \<not> html_unit c" if "plain_ascii s" "c \<in> set s" for s c
    using that by (auto simp: plain_ascii_def)
  have marks: "c < 0x80 \<and> \<not> html_unit c" if "c \<in> {0x22, 0x2C, 0x3A, 0x7B, 0x7D :: 16 word}" for c
    using that by (auto simp: html_unit_def)
  show "\<forall>c \<in> set (stringify (frame k i ms)). c < 0x80 \<and> \<not> html_unit c"
    using assms units marks plain_ascii_literals by (auto simp: frame_def quote_plain)
  show "length (stringify (frame k i ms)) \<le> length k + length i + length t + 40"
    using assms plain_ascii_literals by (auto simp: frame_def quote_plain js_def)
qed

subsection \<open>Fields of a written message\<close>

lemma message_fields [simp]:
  "field ''id'' (message_json m) = Some (JStr (vm_id m))" "field ''kind'' (message_json m) = Some (JStr (vm_kind m))"
  by (simp_all add: field_def message_json_def)

lemma for_id_message [simp]: "for_id i (message_json m) \<longleftrightarrow> vm_id m = i"
  by (auto simp: for_id_def)

lemma is_end_message [simp]: "is_end (message_json m) \<longleftrightarrow> vm_kind m = js ''response_end''"
  by (auto simp: is_end_def is_kind_def)

lemma sorted_headers_set [simp]: "set (sorted_headers hs) = set hs" "sorted_headers hs = [] \<longleftrightarrow> hs = []"
  by (simp_all add: sorted_headers_def) (metis set_empty set_sort)

lemma distinct_sorted_headers: "distinct (map fst hs) \<Longrightarrow> distinct (map fst (sorted_headers hs))"
  by (simp add: distinct_map sorted_headers_def)

lemma message_json_ok:
  assumes "distinct (map fst (vm_headers m))"
  shows "json_ok (message_json m)"
  using headers_json_ok [OF distinct_sorted_headers [OF assms]] by (auto simp: message_json_def)

lemma marshal_parse: "distinct (map fst (vm_headers m)) \<Longrightarrow> JSON_parse (marshal m) = Some (message_json m)"
  by (rule JSON_parse_marshal [OF message_json_ok])

end
