(* ===== verification/Visitor_Agent.thy ===== *)
theory Visitor_Agent
  imports Go_Json
begin

text \<open>
  The agent's end of a visitor's data channel (\<open>client/agent/visitor_stream.go\<close>,
  \<open>visitor_response_stream.go\<close>, \<open>visitor_channel.go\<close>, \<open>visitor_http.go\<close>): a session takes the frames of
  requests apart, makes the HTTP requests to the local service, and sends the responses in frames.

  A goroutine of the session is an element of \<open>as_workers\<close>; a step of the session is one message handled,
  one turn of one worker (up to and including one frame sent) or \<open>close\<close>. The two semaphores are counters,
  and an operation that waits for a token that is not there has no result (\<open>None\<close>): it would wait for ever,
  with the mutex of the session held in two of the three places. What the local service, the HTTP client
  and the channel do is an argument of the steps. \<open>as_received\<close> and \<open>as_trace\<close> record what came over the
  channel and what was exchanged with the local service.
\<close>

subsection \<open>Limits\<close>

definition visitorStreamChunkBytes :: nat where
  "visitorStreamChunkBytes = 24 * 1024"

definition visitorMaxRequestBytes :: nat where
  "visitorMaxRequestBytes = 16 * 1024 * 1024"

definition visitorMaxResponseBytes :: nat where
  "visitorMaxResponseBytes = 16 * 1024 * 1024"

definition visitorMaxVisitorStreams :: nat where
  "visitorMaxVisitorStreams = 4096"

definition visitorMaxTotalStreams :: nat where
  "visitorMaxTotalStreams = 16384"

definition visitorMaxMessageBytes :: nat where
  "visitorMaxMessageBytes = 60 * 1024"

definition visitorMaxBodyBytes :: nat where
  "visitorMaxBodyBytes = 40 * 1024"

definition visitorDataChannelMaxBufferedBytes :: nat where
  "visitorDataChannelMaxBufferedBytes = 64 * 1024 * 1024"

subsection \<open>The address of a request\<close>

text \<open>\<open>strings.TrimSpace\<close>\<close>

definition go_space :: "16 word \<Rightarrow> bool" where
  "go_space c \<longleftrightarrow> c = 0x85 \<or> js_space c \<and> c \<noteq> 0xFEFF"

definition go_trim :: "js_string \<Rightarrow> js_string" where
  "go_trim s = rev (dropWhile go_space (rev (dropWhile go_space s)))"

text \<open>\<open>url.ParseRequestURI\<close> of a text with a slash in front fails on a control character, and on a percent sign
  before the query that two hexadecimal digits do not follow; the result has neither scheme nor host.\<close>

fun percents_ok :: "js_string \<Rightarrow> bool" where
  "percents_ok [] = True"
| "percents_ok (c # s) =
     (if c = 0x25 then (case s of a # b # r \<Rightarrow> hex_val a \<noteq> None \<and> hex_val b \<noteq> None \<and> percents_ok r | _ \<Rightarrow> False)
      else percents_ok s)"

definition request_uri_ok :: "js_string \<Rightarrow> bool" where
  "request_uri_ok s \<longleftrightarrow> list_all (\<lambda>c. 0x20 \<le> c \<and> c \<noteq> 0x7F) s \<and> percents_ok (takeWhile (\<lambda>c. c \<noteq> 0x3F) s)"

definition joinHostPort :: "js_string \<Rightarrow> js_string \<Rightarrow> js_string" where
  "joinHostPort host port =
     (if 0x3A \<in> set host then js ''['' @ host @ js '']:'' @ port else host @ js '':'' @ port)"

text \<open>A text on the left is the error.\<close>

definition visitorTargetURL :: "js_string \<Rightarrow> int \<Rightarrow> js_string \<Rightarrow> js_string + js_string" where
  "visitorTargetURL host port path =
     (if host = [] \<or> port < 1 \<or> port > 65535 then Inl (js ''invalid local service address'')
      else
        (let t = go_trim path; p = (if t = [] then js ''/'' else t) in
         if \<not> startsWith p (js ''/'') \<or> startsWith p (js ''//'') then Inl (js ''path must be an absolute local path'')
         else if \<not> request_uri_ok p then Inl (js ''invalid request path'')
         else Inr (js ''http://'' @ joinHostPort host (int_text port) @ p)))"

subsection \<open>Headers\<close>

text \<open>\<open>Header.Add\<close> writes the name of a header in its canonical form, if the name is a token.\<close>

definition token_unit :: "16 word \<Rightarrow> bool" where
  "token_unit c \<longleftrightarrow>
     is_digit c \<or> (0x41 \<le> c \<and> c \<le> 0x5A) \<or> (0x61 \<le> c \<and> c \<le> 0x7A) \<or>
     c \<in> set (map of_char ''!#$%&*+-.^_|~'') \<or> c = 0x27 \<or> c = 0x60"

fun canonical_units :: "bool \<Rightarrow> js_string \<Rightarrow> js_string" where
  "canonical_units upper [] = []"
| "canonical_units upper (c # s) =
     (if upper \<and> 0x61 \<le> c \<and> c \<le> 0x7A then c - 0x20
      else if \<not> upper \<and> 0x41 \<le> c \<and> c \<le> 0x5A then c + 0x20 else c) # canonical_units (c = 0x2D) s"

definition canonical_key :: "js_string \<Rightarrow> js_string" where
  "canonical_key s = (if list_all token_unit s then canonical_units True s else s)"

definition header_add :: "js_string \<Rightarrow> js_string \<Rightarrow> header_lists \<Rightarrow> header_lists" where
  "header_add name v hs =
     (let k = canonical_key name in obj_set k ((case map_of hs k of None \<Rightarrow> [] | Some vs \<Rightarrow> vs) @ [v]) hs)"

definition isVisitorHopByHopHeader :: "js_string \<Rightarrow> bool" where
  "isVisitorHopByHopHeader name \<longleftrightarrow>
     list_ex (lower_is name)
       [''connection'', ''keep-alive'', ''proxy-authenticate'', ''proxy-authorization'', ''te'', ''trailer'', ''transfer-encoding'',
        ''upgrade'']"

text \<open>A map is the list of its entries, in the order in which \<open>range\<close> meets them.\<close>

definition copyVisitorStreamHeaders :: "header_lists \<Rightarrow> header_lists \<Rightarrow> header_lists" where
  "copyVisitorStreamHeaders destination source =
     fold (\<lambda>(name, vs) hs.
         if isVisitorHopByHopHeader name \<or> equal_fold name ''host'' \<or> equal_fold name ''content-length'' \<or>
            equal_fold name ''accept-encoding''
         then hs else fold (header_add name) vs hs) source destination"

definition visitorResponseHeaders :: "header_lists \<Rightarrow> header_lists" where
  "visitorResponseHeaders source =
     filter (\<lambda>(name, vs). \<not> (isVisitorHopByHopHeader name \<or> equal_fold name ''content-length'' \<or> equal_fold name ''content-encoding''))
       source"

definition copyVisitorHeaders :: "header_lists \<Rightarrow> header_lists \<Rightarrow> header_lists" where
  "copyVisitorHeaders destination source = fold (\<lambda>(name, vs) hs. fold (header_add name) vs hs) source destination"

subsection \<open>State\<close>

record stream_request =
  sr_method :: js_string
  sr_path :: js_string
  sr_headers :: header_lists
  sr_body :: "byte list"

record local_request =
  hr_method :: js_string
  hr_target :: js_string
  hr_headers :: header_lists
  hr_body :: "byte list"

text \<open>What a worker is about to do: make the request, read the body after so many bytes, or send its last frame.\<close>

datatype worker_phase = Executing | Reading nat | Finishing visitor_message

datatype visitor_job =
  Stream_Job (job_id: js_string) (job_request: stream_request) (job_phase: worker_phase)
| Message_Job visitor_message

text \<open>What was exchanged with the local service for a request of the channel. A request whose client failed may
  have reached the service all the same.\<close>

datatype service_event =
  Served (ev_id: js_string) (ev_request: local_request) nat header_lists
| Unanswered (ev_id: js_string) (ev_request: local_request)
| Body_Read (ev_id: js_string) "byte list"
| Body_Ended (ev_id: js_string)

record agent_session =
  as_closed :: bool
  as_requests :: "(js_string \<times> stream_request) list"
  as_slots :: nat
  as_global :: nat
  as_others :: nat
  as_workers :: "visitor_job list"
  as_sent :: "js_string list"
  as_received :: "js_string list"
  as_trace :: "service_event list"

definition newVisitorDataSession :: "nat \<Rightarrow> agent_session" where
  "newVisitorDataSession others =
     \<lparr>as_closed = False, as_requests = [], as_slots = 0, as_global = others, as_others = others, as_workers = [],
      as_sent = [], as_received = [], as_trace = []\<rparr>"

subsection \<open>Slots\<close>

text \<open>Receiving \<open>k\<close> times from a channel that holds \<open>n\<close> tokens: with too few of them the receiver waits for ever.\<close>

definition receive_tokens :: "nat \<Rightarrow> nat \<Rightarrow> nat option" where
  "receive_tokens k n = (if k \<le> n then Some (n - k) else None)"

definition release_slots :: "nat \<Rightarrow> agent_session \<Rightarrow> agent_session option" where
  "release_slots k a =
     (case (receive_tokens k (as_slots a), receive_tokens k (as_global a)) of
        (Some s, Some g) \<Rightarrow> Some (a\<lparr>as_slots := s, as_global := g\<rparr>)
      | _ \<Rightarrow> None)"

definition releaseSlot :: "agent_session \<Rightarrow> agent_session option" where
  "releaseSlot a = release_slots 1 a"

text \<open>\<open>None\<close> is the answer false.\<close>

definition reserveSlotLocked :: "agent_session \<Rightarrow> agent_session option" where
  "reserveSlotLocked a =
     (if as_slots a \<ge> visitorMaxVisitorStreams then None
      else if as_global a \<ge> visitorMaxTotalStreams then None
      else Some (a\<lparr>as_slots := as_slots a + 1, as_global := as_global a + 1\<rparr>))"

definition reserveSlot :: "agent_session \<Rightarrow> agent_session option" where
  "reserveSlot a = (if as_closed a then None else reserveSlotLocked a)"

definition session_close :: "agent_session \<Rightarrow> agent_session option" where
  "session_close a =
     (if as_closed a then Some a
      else release_slots (length (as_requests a)) (a\<lparr>as_closed := True, as_requests := []\<rparr>))"

subsection \<open>Sending\<close>

text \<open>One turn of the wait for capacity sees whether the context is done, the state of the channel and its buffer,
  and then what wakes it.\<close>

datatype wake = Buffered_Amount_Low | Poll_Tick | Send_Deadline | Context_Done

record send_turn =
  st_cancelled :: bool
  st_ready :: ready_state
  st_buffered :: nat
  st_wake :: wake

datatype wait_result = Has_Capacity | Wait_Failed | Stayed_Full

text \<open>\<open>None\<close> means that the loop has not returned after these turns.\<close>

fun waitForSendCapacity :: "send_turn list \<Rightarrow> wait_result option" where
  "waitForSendCapacity [] = None"
| "waitForSendCapacity (t # ts) =
     (if st_cancelled t then Some Wait_Failed
      else if st_ready t \<noteq> Open then Some Wait_Failed
      else if st_buffered t \<le> visitorDataChannelMaxBufferedBytes then Some Has_Capacity
      else (case st_wake t of
              Send_Deadline \<Rightarrow> Some Stayed_Full
            | Context_Done \<Rightarrow> Some Wait_Failed
            | _ \<Rightarrow> waitForSendCapacity ts))"

text \<open>What happens to a frame: the turns of the wait, and whether \<open>SendText\<close> fails.\<close>

record send_env =
  se_turns :: "send_turn list"
  se_fails :: bool

text \<open>Whether the frame was sent, and the session, which is closed when the buffer stayed full.\<close>

definition sendFrame :: "send_env \<Rightarrow> visitor_message \<Rightarrow> agent_session \<Rightarrow> (bool \<times> agent_session) option" where
  "sendFrame se m a =
     (let data = marshal m in
      if byte_length data > visitorMaxMessageBytes then Some (False, a)
      else
        (case waitForSendCapacity (se_turns se) of
           None \<Rightarrow> None
         | Some Wait_Failed \<Rightarrow> Some (False, a)
         | Some Stayed_Full \<Rightarrow> map_option (Pair False) (session_close a)
         | Some Has_Capacity \<Rightarrow> if se_fails se then Some (False, a) else Some (True, a\<lparr>as_sent := as_sent a @ [data]\<rparr>)))"

definition error_frame :: "js_string \<Rightarrow> js_string \<Rightarrow> visitor_message" where
  "error_frame i e = empty_message\<lparr>vm_kind := js ''response_end'', vm_id := i, vm_error := e\<rparr>"

definition sendErrorForID :: "send_env \<Rightarrow> js_string \<Rightarrow> js_string \<Rightarrow> agent_session \<Rightarrow> agent_session option" where
  "sendErrorForID se i e a = map_option snd (sendFrame se (error_frame i e) a)"

definition sendError :: "send_env \<Rightarrow> js_string \<Rightarrow> agent_session \<Rightarrow> agent_session option" where
  "sendError se e a = sendErrorForID se [] e a"

subsection \<open>Frames of requests\<close>

definition session_start :: "visitor_message \<Rightarrow> agent_session \<Rightarrow> js_string + agent_session" where
  "session_start m a =
     (if vm_id m = [] \<or> vm_method m = [] then Inl (js ''request id and method are required'')
      else if as_closed a then Inl (js ''context canceled'')
      else if map_of (as_requests a) (vm_id m) \<noteq> None then Inl (js ''duplicate visitor request id'')
      else
        (case reserveSlotLocked a of
           None \<Rightarrow> Inl (js ''too many visitor requests'')
         | Some a' \<Rightarrow>
             Inr (a'\<lparr>as_requests := obj_set (vm_id m)
               \<lparr>sr_method = vm_method m, sr_path = vm_path m, sr_headers = vm_headers m, sr_body = []\<rparr> (as_requests a')\<rparr>)))"

definition removeAndError :: "send_env \<Rightarrow> js_string \<Rightarrow> js_string \<Rightarrow> agent_session \<Rightarrow> agent_session option" where
  "removeAndError se i e a =
     (case (if map_of (as_requests a) i \<noteq> None
            then release_slots 1 (a\<lparr>as_requests := delete_key i (as_requests a)\<rparr>) else Some a) of
        None \<Rightarrow> None
      | Some a' \<Rightarrow> sendErrorForID se i e a')"

definition session_chunk :: "send_env \<Rightarrow> visitor_message \<Rightarrow> agent_session \<Rightarrow> agent_session option" where
  "session_chunk se m a =
     (case go_base64 (vm_body m) of
        None \<Rightarrow> removeAndError se (vm_id m) (js ''invalid request chunk'') a
      | Some c \<Rightarrow>
          (case map_of (as_requests a) (vm_id m) of
             None \<Rightarrow> sendErrorForID se (vm_id m) (js ''visitor request was not started'') a
           | Some q \<Rightarrow>
               if length (sr_body q) + length c > visitorMaxRequestBytes
               then removeAndError se (vm_id m)
                 (js ''request body exceeds '' @ nat_text visitorMaxRequestBytes @ js '' bytes'') a
               else Some (a\<lparr>as_requests := obj_set (vm_id m) (q\<lparr>sr_body := sr_body q @ c\<rparr>) (as_requests a)\<rparr>)))"

definition session_end :: "send_env \<Rightarrow> visitor_message \<Rightarrow> agent_session \<Rightarrow> agent_session option" where
  "session_end se m a =
     (let a' = a\<lparr>as_requests := delete_key (vm_id m) (as_requests a)\<rparr> in
      case map_of (as_requests a) (vm_id m) of
        None \<Rightarrow> sendErrorForID se (vm_id m) (js ''visitor request was not started'') a'
      | Some q \<Rightarrow> Some (a'\<lparr>as_workers := as_workers a' @ [Stream_Job (vm_id m) q Executing]\<rparr>))"

definition session_handle :: "send_env \<Rightarrow> js_string \<Rightarrow> agent_session \<Rightarrow> agent_session option" where
  "session_handle se data a =
     (if byte_length data > visitorMaxMessageBytes then sendError se (js ''request frame is too large'') a
      else
        (case unmarshal data of
           None \<Rightarrow> sendError se (js ''invalid visitor request frame'') a
         | Some m \<Rightarrow>
             if vm_kind m = js ''request'' then
               (case reserveSlot a of
                  None \<Rightarrow> sendErrorForID se (vm_id m) (js ''too many visitor requests'') a
                | Some a' \<Rightarrow> Some (a'\<lparr>as_workers := as_workers a' @ [Message_Job m]\<rparr>))
             else if vm_kind m = js ''request_start'' then
               (case session_start m a of Inl e \<Rightarrow> sendErrorForID se (vm_id m) e a | Inr a' \<Rightarrow> Some a')
             else if vm_kind m = js ''request_chunk'' then session_chunk se m a
             else if vm_kind m = js ''request_end'' then session_end se m a
             else sendError se (js ''unknown visitor request frame'') a))"

subsection \<open>Workers\<close>

text \<open>What comes of a request: \<open>http.NewRequest\<close> or the HTTP client fails, or there is a response, whose headers
  are a map with at least one value each.\<close>

datatype service_outcome = New_Request_Failed js_string | Do_Failed js_string | Responded nat header_lists

definition outcome_ok :: "service_outcome \<Rightarrow> bool" where
  "outcome_ok r = (case r of Responded st hs \<Rightarrow> distinct (map fst hs) \<and> (\<forall>(n, vs) \<in> set hs. vs \<noteq> []) | _ \<Rightarrow> True)"

definition start_frame :: "js_string \<Rightarrow> nat \<Rightarrow> header_lists \<Rightarrow> visitor_message" where
  "start_frame i st hs =
     empty_message\<lparr>vm_kind := js ''response_start'', vm_id := i, vm_status := int st, vm_headers := visitorResponseHeaders hs\<rparr>"

definition chunk_frame :: "js_string \<Rightarrow> byte list \<Rightarrow> visitor_message" where
  "chunk_frame i b = empty_message\<lparr>vm_kind := js ''response_chunk'', vm_id := i, vm_body := base64 b\<rparr>"

definition end_frame :: "js_string \<Rightarrow> visitor_message" where
  "end_frame i = empty_message\<lparr>vm_kind := js ''response_end'', vm_id := i\<rparr>"

text \<open>The frame that \<open>execute\<close> sends once the outcome is there, what was exchanged with the service, and the phase
  that follows when the frame was sent (\<open>None\<close>: the worker is done).\<close>

definition execute ::
  "js_string \<Rightarrow> int \<Rightarrow> js_string \<Rightarrow> stream_request \<Rightarrow> service_outcome \<Rightarrow>
   visitor_message \<times> service_event list \<times> worker_phase option" where
  "execute host port i q r =
     (case visitorTargetURL host port (sr_path q) of
        Inl e \<Rightarrow> (error_frame i e, [], None)
      | Inr target \<Rightarrow>
          (let request = \<lparr>hr_method = sr_method q, hr_target = target, hr_headers = copyVisitorStreamHeaders [] (sr_headers q),
                 hr_body = sr_body q\<rparr>
           in case r of
                New_Request_Failed e \<Rightarrow> (error_frame i (js ''invalid HTTP request: '' @ e), [], None)
              | Do_Failed e \<Rightarrow> (error_frame i (js ''local service request failed: '' @ e), [Unanswered i request], None)
              | Responded st hs \<Rightarrow> (start_frame i st hs, [Served i request st hs], Some (Reading 0))))"

datatype read_end = Read_More | Read_EOF | Read_Failed js_string

definition after_read :: "js_string \<Rightarrow> nat \<Rightarrow> read_end \<Rightarrow> worker_phase" where
  "after_read i n e =
     (case e of
        Read_More \<Rightarrow> Reading n
      | Read_EOF \<Rightarrow> Finishing (end_frame i)
      | Read_Failed t \<Rightarrow> Finishing (error_frame i (js ''read local service response: '' @ t)))"

text \<open>One turn of the loop of \<open>streamResponseBody\<close>, with what \<open>Read\<close> gives: the frame to send, if there is one, and
  the phase that follows.\<close>

definition streamResponseBody ::
  "js_string \<Rightarrow> nat \<Rightarrow> byte list \<Rightarrow> read_end \<Rightarrow> visitor_message option \<times> worker_phase option" where
  "streamResponseBody i n b e =
     (if b = [] then (None, Some (after_read i n e))
      else if n + length b > visitorMaxResponseBytes
      then (Some (error_frame i (js ''response body exceeds '' @ nat_text visitorMaxResponseBytes @ js '' bytes'')), None)
      else (Some (chunk_frame i b), Some (after_read i (n + length b) e)))"

definition read_events :: "js_string \<Rightarrow> byte list \<Rightarrow> read_end \<Rightarrow> service_event list" where
  "read_events i b e = (if b = [] then [] else [Body_Read i b]) @ (if e = Read_EOF then [Body_Ended i] else [])"

text \<open>A worker that returns gives back its slot.\<close>

definition worker_done :: "nat \<Rightarrow> agent_session \<Rightarrow> agent_session option" where
  "worker_done k a = releaseSlot (a\<lparr>as_workers := remove_nth k (as_workers a)\<rparr>)"

text \<open>A worker sends a frame and goes on in the next phase; it returns when there is none or the frame was not sent.\<close>

definition worker_sends ::
  "send_env \<Rightarrow> nat \<Rightarrow> visitor_message \<Rightarrow> worker_phase option \<Rightarrow> agent_session \<Rightarrow> agent_session option" where
  "worker_sends se k m next a =
     (case sendFrame se m a of
        None \<Rightarrow> None
      | Some (sent, a') \<Rightarrow>
          (case next of
             Some ph \<Rightarrow>
               if sent
               then Some (a'\<lparr>as_workers := (as_workers a')[k := Stream_Job (job_id (as_workers a' ! k)) (job_request (as_workers a' ! k)) ph]\<rparr>)
               else worker_done k a'
           | None \<Rightarrow> worker_done k a'))"

definition execute_job :: "js_string \<Rightarrow> int \<Rightarrow> send_env \<Rightarrow> nat \<Rightarrow> service_outcome \<Rightarrow> agent_session \<Rightarrow> agent_session option" where
  "execute_job host port se k r a =
     (let j = as_workers a ! k; (m, evs, next) = execute host port (job_id j) (job_request j) r
      in worker_sends se k m next (a\<lparr>as_trace := as_trace a @ evs\<rparr>))"

definition read_job :: "send_env \<Rightarrow> nat \<Rightarrow> nat \<Rightarrow> byte list \<Rightarrow> read_end \<Rightarrow> agent_session \<Rightarrow> agent_session option" where
  "read_job se k n b e a =
     (let j = as_workers a ! k; a' = a\<lparr>as_trace := as_trace a @ read_events (job_id j) b e\<rparr>
      in case streamResponseBody (job_id j) n b e of
           (Some m, next) \<Rightarrow> worker_sends se k m next a'
         | (None, Some ph) \<Rightarrow> Some (a'\<lparr>as_workers := (as_workers a')[k := Stream_Job (job_id j) (job_request j) ph]\<rparr>)
         | (None, None) \<Rightarrow> worker_done k a')"

definition finish_job :: "send_env \<Rightarrow> nat \<Rightarrow> visitor_message \<Rightarrow> agent_session \<Rightarrow> agent_session option" where
  "finish_job se k m a = worker_sends se k m None a"

subsection \<open>Requests in one message\<close>

text \<open>The text of the error for a body that is not Base64 also has the position.\<close>

definition decodeVisitorBody :: "js_string \<Rightarrow> js_string + byte list" where
  "decodeVisitorBody v =
     (if v = [] then Inr []
      else
        (case go_base64 v of
           None \<Rightarrow> Inl (js ''invalid request body: illegal base64 data'')
         | Some b \<Rightarrow>
             if length b > visitorMaxBodyBytes then Inl (js ''request body exceeds '' @ nat_text visitorMaxBodyBytes @ js '' bytes'')
             else Inr b))"

text \<open>The bytes that \<open>ReadAll\<close> gets of the response, at most one more than the limit, or its error.\<close>

definition readVisitorBody :: "js_string + byte list \<Rightarrow> js_string + byte list" where
  "readVisitorBody r =
     (case r of
        Inl e \<Rightarrow> Inl (js ''read local service response: '' @ e)
      | Inr b \<Rightarrow>
          (let b' = take (visitorMaxBodyBytes + 1) b in
           if length b' > visitorMaxBodyBytes
           then Inl (js ''response body exceeds '' @ nat_text visitorMaxBodyBytes @ js '' bytes'') else Inr b'))"

definition visitor_http_request :: "js_string \<Rightarrow> int \<Rightarrow> visitor_message \<Rightarrow> js_string + local_request" where
  "visitor_http_request host port m =
     (case decodeVisitorBody (vm_body m) of
        Inl e \<Rightarrow> Inl e
      | Inr b \<Rightarrow>
          (case visitorTargetURL host port (vm_path m) of
             Inl e \<Rightarrow> Inl e
           | Inr target \<Rightarrow>
               Inr \<lparr>hr_method = vm_method m, hr_target = target, hr_headers = copyVisitorHeaders [] (vm_headers m), hr_body = b\<rparr>))"

definition executeVisitorRequest ::
  "js_string \<Rightarrow> int \<Rightarrow> visitor_message \<Rightarrow> service_outcome \<Rightarrow> js_string + byte list \<Rightarrow>
   js_string + (nat \<times> header_lists \<times> js_string)" where
  "executeVisitorRequest host port m r body =
     (case visitor_http_request host port m of
        Inl e \<Rightarrow> Inl e
      | Inr q \<Rightarrow>
          (case r of
             New_Request_Failed e \<Rightarrow> Inl (js ''invalid HTTP request: '' @ e)
           | Do_Failed e \<Rightarrow> Inl (js ''local service request failed: '' @ e)
           | Responded st hs \<Rightarrow>
               (case readVisitorBody body of Inl e \<Rightarrow> Inl e | Inr b \<Rightarrow> Inr (st, hs, base64 b))))"

definition response_message :: "js_string \<Rightarrow> visitor_message" where
  "response_message i = empty_message\<lparr>vm_kind := js ''response'', vm_id := i\<rparr>"

text \<open>The message was found to be of kind \<open>request\<close> and short enough before the worker began.\<close>

definition handleVisitorDataMessage ::
  "js_string \<Rightarrow> int \<Rightarrow> visitor_message \<Rightarrow> service_outcome \<Rightarrow> js_string + byte list \<Rightarrow> visitor_message" where
  "handleVisitorDataMessage host port m r body =
     (if vm_kind m \<noteq> js ''request'' \<or> vm_id m = []
      then response_message (vm_id m)\<lparr>vm_error := js ''request kind and id are required''\<rparr>
      else
        (case executeVisitorRequest host port m r body of
           Inl e \<Rightarrow> response_message (vm_id m)\<lparr>vm_error := e\<rparr>
         | Inr (st, hs, b) \<Rightarrow> response_message (vm_id m)\<lparr>vm_status := int st, vm_headers := hs, vm_body := b\<rparr>))"

definition message_events :: "js_string \<Rightarrow> int \<Rightarrow> visitor_message \<Rightarrow> service_outcome \<Rightarrow> service_event list" where
  "message_events host port m r =
     (case (visitor_http_request host port m, r) of
        (Inr q, Responded st hs) \<Rightarrow> if vm_id m = [] then [] else [Served (vm_id m) q st hs]
      | (Inr q, Do_Failed e) \<Rightarrow> if vm_id m = [] then [] else [Unanswered (vm_id m) q]
      | _ \<Rightarrow> [])"

definition message_job ::
  "js_string \<Rightarrow> int \<Rightarrow> send_env \<Rightarrow> nat \<Rightarrow> visitor_message \<Rightarrow> service_outcome \<Rightarrow> js_string + byte list \<Rightarrow> agent_session \<Rightarrow> agent_session option"
  where
  "message_job host port se k m r body a =
     worker_sends se k (handleVisitorDataMessage host port m r body) None
       (a\<lparr>as_trace := as_trace a @ message_events host port m r\<rparr>)"

subsection \<open>The machine\<close>

text \<open>The steps of a session other than the arrival of a message. The other sessions of the agent take and give back
  tokens of the common semaphore.\<close>

inductive worker_step :: "js_string \<Rightarrow> int \<Rightarrow> agent_session \<Rightarrow> agent_session \<Rightarrow> bool" for host port where
  executes: "k < length (as_workers a) \<Longrightarrow> as_workers a ! k = Stream_Job i q Executing \<Longrightarrow> outcome_ok r \<Longrightarrow>
    execute_job host port se k r a = Some t \<Longrightarrow> worker_step host port a t"
| reads: "k < length (as_workers a) \<Longrightarrow> as_workers a ! k = Stream_Job i q (Reading n) \<Longrightarrow> length b \<le> visitorStreamChunkBytes \<Longrightarrow>
    read_job se k n b e a = Some t \<Longrightarrow> worker_step host port a t"
| finishes: "k < length (as_workers a) \<Longrightarrow> as_workers a ! k = Stream_Job i q (Finishing m) \<Longrightarrow>
    finish_job se k m a = Some t \<Longrightarrow> worker_step host port a t"
| answers: "k < length (as_workers a) \<Longrightarrow> as_workers a ! k = Message_Job m \<Longrightarrow> outcome_ok r \<Longrightarrow>
    message_job host port se k m r body a = Some t \<Longrightarrow> worker_step host port a t"
| closes: "session_close a = Some t \<Longrightarrow> worker_step host port a t"
| others: "as_global a - as_others a + n \<le> visitorMaxTotalStreams \<Longrightarrow>
    worker_step host port a (a\<lparr>as_global := as_global a - as_others a + n, as_others := n\<rparr>)"

definition session_receives :: "send_env \<Rightarrow> js_string \<Rightarrow> agent_session \<Rightarrow> agent_session option" where
  "session_receives se data a = map_option (\<lambda>t. t\<lparr>as_received := as_received t @ [data]\<rparr>) (session_handle se data a)"

inductive session_step :: "js_string \<Rightarrow> int \<Rightarrow> agent_session \<Rightarrow> agent_session \<Rightarrow> bool" for host port where
  works: "worker_step host port a t \<Longrightarrow> session_step host port a t"
| receives: "session_receives se data a = Some t \<Longrightarrow> session_step host port a t"

inductive session_reachable :: "js_string \<Rightarrow> int \<Rightarrow> agent_session \<Rightarrow> bool" for host port where
  initial: "others \<le> visitorMaxTotalStreams \<Longrightarrow> session_reachable host port (newVisitorDataSession others)"
| step: "session_reachable host port a \<Longrightarrow> session_step host port a t \<Longrightarrow> session_reachable host port t"

subsection \<open>Slots are exact\<close>

lemma frame_ids [simp]:
  "vm_id (error_frame i e) = i" "vm_id (start_frame i st hs) = i" "vm_id (chunk_frame i b) = i" "vm_id (end_frame i) = i"
  "vm_headers (error_frame i e) = []" "vm_headers (chunk_frame i b) = []" "vm_headers (end_frame i) = []"
  by (simp_all add: error_frame_def start_frame_def chunk_frame_def end_frame_def empty_message_def)

fun phase_ok :: "js_string \<Rightarrow> worker_phase \<Rightarrow> bool" where
  "phase_ok i Executing \<longleftrightarrow> True"
| "phase_ok i (Reading n) \<longleftrightarrow> n \<le> visitorMaxResponseBytes"
| "phase_ok i (Finishing m) \<longleftrightarrow> vm_id m = i \<and> vm_headers m = []"

fun job_ok :: "visitor_job \<Rightarrow> bool" where
  "job_ok (Stream_Job i q ph) \<longleftrightarrow>
     length (sr_body q) \<le> visitorMaxRequestBytes \<and> phase_ok i ph"
| "job_ok (Message_Job m) \<longleftrightarrow> True"

text \<open>A token is held for every request that has begun and for every worker.\<close>

definition session_inv :: "agent_session \<Rightarrow> bool" where
  "session_inv a \<longleftrightarrow>
     as_slots a = length (as_requests a) + length (as_workers a) \<and> as_global a = as_slots a + as_others a \<and>
     as_slots a \<le> visitorMaxVisitorStreams \<and> as_global a \<le> visitorMaxTotalStreams \<and>
     distinct (map fst (as_requests a)) \<and> (as_closed a \<longrightarrow> as_requests a = []) \<and>
     (\<forall>(i, q) \<in> set (as_requests a). length (sr_body q) \<le> visitorMaxRequestBytes) \<and> (\<forall>j \<in> set (as_workers a). job_ok j)"

text \<open>An operation is settled when its result keeps the invariant, and it has one unless a frame still waits for
  capacity.\<close>

definition settled :: "send_env \<Rightarrow> agent_session option \<Rightarrow> bool" where
  "settled se r = (case r of Some t \<Rightarrow> session_inv t | None \<Rightarrow> waitForSendCapacity (se_turns se) = None)"

lemma settled_simps [simp]: "settled se (Some t) \<longleftrightarrow> session_inv t" "settled se None \<longleftrightarrow> waitForSendCapacity (se_turns se) = None"
  by (simp_all add: settled_def)

lemma inv_cong:
  assumes "session_inv a" "as_slots t = as_slots a" "as_requests t = as_requests a" "as_workers t = as_workers a"
    "as_global t = as_global a" "as_others t = as_others a" "as_closed t = as_closed a"
  shows "session_inv t"
  using assms by (simp add: session_inv_def)

lemma close_settled:
  assumes "session_inv a"
  obtains t where "session_close a = Some t" "session_inv t" "as_closed t" "as_workers t = as_workers a" "as_requests t = []"
    "as_sent t = as_sent a" "as_received t = as_received a" "as_trace t = as_trace a"
proof (cases "as_closed a")
  case True
  then show thesis
    using assms that [of a] by (simp add: session_close_def session_inv_def)
next
  case False
  have "length (as_requests a) \<le> as_slots a" "length (as_requests a) \<le> as_global a"
    using assms by (auto simp: session_inv_def)
  then obtain t where t: "session_close a = Some t"
    "t = a\<lparr>as_closed := True, as_requests := [], as_slots := as_slots a - length (as_requests a),
      as_global := as_global a - length (as_requests a)\<rparr>"
    using False by (simp add: session_close_def release_slots_def receive_tokens_def)
  moreover from t(2) have "session_inv t"
    using assms by (auto simp: session_inv_def)
  ultimately show thesis
    using that [of t] by simp
qed

text \<open>A frame is sent, or not, and if its buffer stayed full the session is closed; nothing else changes.\<close>

lemma sendFrame_cases:
  assumes "session_inv a"
  obtains (waiting) "sendFrame se m a = None" "waitForSendCapacity (se_turns se) = None"
  | (failed) "sendFrame se m a = Some (False, a)"
  | (closed) t where "sendFrame se m a = Some (False, t)" "session_close a = Some t" "session_inv t" "as_closed t"
    "as_workers t = as_workers a" "as_requests t = []" "as_sent t = as_sent a" "as_received t = as_received a" "as_trace t = as_trace a"
  | (sent) "sendFrame se m a = Some (True, a\<lparr>as_sent := as_sent a @ [marshal m]\<rparr>)" "byte_length (marshal m) \<le> visitorMaxMessageBytes"
proof -
  obtain t where t: "session_close a = Some t" "session_inv t" "as_closed t" "as_workers t = as_workers a" "as_requests t = []"
    "as_sent t = as_sent a" "as_received t = as_received a" "as_trace t = as_trace a"
    by (rule close_settled [OF assms])
  have "sendFrame se m a = None \<and> waitForSendCapacity (se_turns se) = None \<or> sendFrame se m a = Some (False, a) \<or>
    sendFrame se m a = Some (False, t) \<or>
    sendFrame se m a = Some (True, a\<lparr>as_sent := as_sent a @ [marshal m]\<rparr>) \<and> byte_length (marshal m) \<le> visitorMaxMessageBytes"
    using t(1) by (auto simp: sendFrame_def Let_def split: option.splits wait_result.splits)
  then show thesis
    using waiting failed closed [OF _ t] sent by blast
qed

lemma sendErrorForID_settled:
  assumes "session_inv a"
  shows "settled se (sendErrorForID se i e a)"
  by (cases rule: sendFrame_cases [OF assms, of se "error_frame i e"])
    (use assms inv_cong [OF assms] in \<open>auto simp: sendErrorForID_def\<close>)

lemma length_delete_key_one:
  assumes "distinct (map fst m)" "map_of m k = Some v"
  shows "Suc (length (delete_key k m)) = length m"
  using assms
proof (induction m)
  case (Cons e m)
  show ?case
  proof (cases "fst e = k")
    case True
    then have "filter (\<lambda>x. fst x \<noteq> k) m = m"
      using Cons(2) by (intro filter_True) (auto simp: image_iff)
    then show ?thesis
      using True by (simp add: delete_key_def)
  qed (use Cons in \<open>auto simp: delete_key_def\<close>)
qed simp

lemma removeAndError_settled:
  assumes "session_inv a"
  shows "settled se (removeAndError se i e a)"
proof (cases "map_of (as_requests a) i")
  case None
  then show ?thesis
    using sendErrorForID_settled [OF assms] by (simp add: removeAndError_def)
next
  case (Some q)
  let ?b = "a\<lparr>as_requests := delete_key i (as_requests a)\<rparr>"
  let ?t = "?b\<lparr>as_slots := as_slots a - 1, as_global := as_global a - 1\<rparr>"
  have l: "Suc (length (delete_key i (as_requests a))) = length (as_requests a)"
    using assms Some by (intro length_delete_key_one) (auto simp: session_inv_def)
  then have "release_slots 1 ?b = Some ?t"
    using assms by (auto simp: session_inv_def release_slots_def receive_tokens_def)
  moreover have "session_inv ?t"
    using assms l distinct_delete_key [of "as_requests a" i] by (auto simp: session_inv_def delete_key_def)
  ultimately show ?thesis
    using Some sendErrorForID_settled [of ?t] by (simp add: removeAndError_def)
qed

lemma session_start_settled:
  assumes "session_inv a" "session_start m a = Inr t"
  shows "session_inv t"
proof -
  have n: "vm_id m \<notin> fst ` set (as_requests a)"
    using assms(2) by (auto simp: session_start_def map_of_eq_None_iff split: if_splits)
  then have "length (sr_body q) \<le> visitorMaxRequestBytes"
    if "(i, q) \<in> set (obj_set (vm_id m) \<lparr>sr_method = vm_method m, sr_path = vm_path m, sr_headers = vm_headers m, sr_body = []\<rparr> (as_requests a))" for i q
    using set_obj_set [OF that] assms(1) by (auto simp: session_inv_def)
  then show ?thesis
    using assms n by (auto simp: session_start_def session_inv_def reserveSlotLocked_def length_obj_set distinct_obj_set split: if_splits)
qed

lemma session_chunk_settled:
  assumes "session_inv a"
  shows "settled se (session_chunk se m a)"
proof -
  let ?i = "vm_id m"
  have "session_inv (a\<lparr>as_requests := obj_set ?i (q\<lparr>sr_body := sr_body q @ c\<rparr>) (as_requests a)\<rparr>)"
    if q: "map_of (as_requests a) ?i = Some q" "length (sr_body q) + length c \<le> visitorMaxRequestBytes" for q c
  proof -
    have "?i \<in> fst ` set (as_requests a)" "?i \<in> fst ` set (as_requests a) \<longrightarrow> as_requests a \<noteq> []"
      using map_of_SomeD [OF q(1)] by force+
    moreover have "length (sr_body q') \<le> visitorMaxRequestBytes"
      if "(j, q') \<in> set (obj_set ?i (q\<lparr>sr_body := sr_body q @ c\<rparr>) (as_requests a))" for j q'
      using set_obj_set [OF that] q(2) assms by (auto simp: session_inv_def)
    ultimately show ?thesis
      using assms by (auto simp: session_inv_def length_obj_set distinct_obj_set)
  qed
  then show ?thesis
    using sendErrorForID_settled [OF assms] removeAndError_settled [OF assms]
    by (auto simp: session_chunk_def not_less split: option.splits)
qed

lemma session_end_settled:
  assumes "session_inv a"
  shows "settled se (session_end se m a)"
proof (cases "map_of (as_requests a) (vm_id m)")
  case None
  then have "delete_key (vm_id m) (as_requests a) = as_requests a"
    unfolding delete_key_def by (intro filter_True) (force simp: map_of_eq_None_iff)
  then show ?thesis
    using None sendErrorForID_settled [OF assms] by (simp add: session_end_def)
next
  case (Some q)
  then have "Suc (length (delete_key (vm_id m) (as_requests a))) = length (as_requests a)"
    using assms by (intro length_delete_key_one) (auto simp: session_inv_def)
  then show ?thesis
    using Some map_of_SomeD [OF Some] assms distinct_delete_key [of "as_requests a" "vm_id m"]
    by (auto simp: session_end_def Let_def session_inv_def delete_key_def)
qed

lemma session_handle_settled:
  assumes "session_inv a"
  shows "settled se (session_handle se data a)"
proof -
  have "session_inv (t\<lparr>as_workers := as_workers t @ [Message_Job m]\<rparr>)" if "reserveSlot a = Some t" for t m
    using that assms by (auto simp: reserveSlot_def reserveSlotLocked_def session_inv_def split: if_splits)
  then show ?thesis
    using sendErrorForID_settled [OF assms] session_start_settled [OF assms] session_chunk_settled [OF assms]
      session_end_settled [OF assms]
    by (auto simp: session_handle_def sendError_def split: option.splits sum.splits)
qed

lemma worker_done_settled:
  assumes "session_inv a" "k < length (as_workers a)"
  obtains t where "worker_done k a = Some t" "session_inv t" "as_workers t = remove_nth k (as_workers a)" "as_requests t = as_requests a"
    "as_sent t = as_sent a" "as_received t = as_received a" "as_trace t = as_trace a"
proof -
  let ?t = "a\<lparr>as_workers := remove_nth k (as_workers a), as_slots := as_slots a - 1, as_global := as_global a - 1\<rparr>"
  have l: "Suc (length (remove_nth k (as_workers a))) = length (as_workers a)"
    using assms(2) by (auto simp: remove_nth_def)
  then have "worker_done k a = Some ?t"
    using assms by (auto simp: worker_done_def releaseSlot_def release_slots_def receive_tokens_def session_inv_def)
  moreover have "session_inv ?t"
    using assms(1) l by (auto simp: session_inv_def dest: set_remove_nth)
  ultimately show thesis
    using that [of ?t] by simp
qed

text \<open>The job of a worker in its next phase.\<close>

lemma inv_next_phase:
  assumes "session_inv a" "k < length (as_workers a)" "as_workers a ! k = Stream_Job i q ph" "phase_ok i ph'"
  shows "session_inv (a\<lparr>as_workers := (as_workers a)[k := Stream_Job i q ph']\<rparr>)"
proof -
  have "job_ok (Stream_Job i q ph)"
    using assms(1-3) nth_mem by (force simp: session_inv_def)
  then have "job_ok (Stream_Job i q ph')"
    using assms(4) by simp
  then have "\<forall>j \<in> set ((as_workers a)[k := Stream_Job i q ph']). job_ok j"
    using assms(1) set_update_subset_insert [of "as_workers a" k "Stream_Job i q ph'"] unfolding session_inv_def by blast
  then show ?thesis
    using assms(1) by (simp add: session_inv_def)
qed

lemma worker_sends_settled:
  assumes "session_inv a" "k < length (as_workers a)" "pred_option (phase_ok (job_id (as_workers a ! k))) nx"
    and "nx \<noteq> None \<Longrightarrow> \<exists>i q ph. as_workers a ! k = Stream_Job i q ph"
  shows "settled se (worker_sends se k m nx a)"
proof -
  have ends: "settled se (worker_done k t)" if "session_inv t" "as_workers t = as_workers a" for t
    using worker_done_settled [of t k] that assms(2) by (metis settled_simps(1))
  have goes: "session_inv (a\<lparr>as_sent := s, as_workers := (as_workers a)[k := Stream_Job (job_id (as_workers a ! k)) (job_request (as_workers a ! k)) ph]\<rparr>)"
    if n: "nx = Some ph" for ph s
  proof -
    obtain i q ph' where "as_workers a ! k = Stream_Job i q ph'"
      using assms(4) n by blast
    then have "session_inv (a\<lparr>as_workers := (as_workers a)[k := Stream_Job (job_id (as_workers a ! k)) (job_request (as_workers a ! k)) ph]\<rparr>)"
      using inv_next_phase [OF assms(1,2)] assms(3) n by simp
    then show ?thesis
      by (rule inv_cong) simp_all
  qed
  from assms(1) show ?thesis
  proof (cases rule: sendFrame_cases [where se = se and m = m])
    case waiting
    then show ?thesis by (simp add: worker_sends_def)
  next
    case failed
    then show ?thesis
      using ends [of a] assms(1) by (auto simp: worker_sends_def split: option.splits)
  next
    case (closed t)
    then show ?thesis
      using ends [of t] by (auto simp: worker_sends_def split: option.splits)
  next
    case sent
    have "session_inv (a\<lparr>as_sent := as_sent a @ [marshal m]\<rparr>)"
      by (rule inv_cong [OF assms(1)]) simp_all
    then show ?thesis
      using sent ends goes by (auto simp: worker_sends_def split: option.splits)
  qed
qed

lemma inv_trace: "session_inv a \<Longrightarrow> session_inv (a\<lparr>as_trace := tr\<rparr>)"
  by (rule inv_cong) simp_all

lemma execute_job_settled:
  assumes "session_inv a" "k < length (as_workers a)" "as_workers a ! k = Stream_Job i q Executing"
  shows "settled se (execute_job host port se k r a)"
proof -
  obtain m evs nx where e: "execute host port i q r = (m, evs, nx)"
    using prod_cases3 by blast
  then have "nx = Some (Reading 0) \<or> nx = None"
    by (auto simp: execute_def Let_def split: sum.splits service_outcome.splits)
  then have "settled se (worker_sends se k m nx (a\<lparr>as_trace := as_trace a @ evs\<rparr>))"
    using worker_sends_settled [OF inv_trace [OF assms(1)], where k = k and nx = nx] assms(2,3) by auto
  then show ?thesis
    using e assms(3) by (simp add: execute_job_def)
qed

lemma read_job_settled:
  assumes "session_inv a" "k < length (as_workers a)" "as_workers a ! k = Stream_Job i q (Reading n)"
  shows "settled se (read_job se k n b e a)"
proof -
  have "job_ok (Stream_Job i q (Reading n))"
    using assms nth_mem by (force simp: session_inv_def)
  then have n: "n \<le> visitorMaxResponseBytes"
    by simp
  have ph: "phase_ok i (after_read i n' e)" if "n' \<le> visitorMaxResponseBytes" for n'
    using that by (simp add: after_read_def split: read_end.splits)
  let ?a = "a\<lparr>as_trace := as_trace a @ read_events i b e\<rparr>"
  have "settled se (worker_sends se k m nx ?a)"
    if "pred_option (phase_ok i) nx" for m nx
    using worker_sends_settled [OF inv_trace [OF assms(1)], where k = k and nx = nx] assms(2,3) that by auto
  moreover have "session_inv (?a\<lparr>as_workers := (as_workers a)[k := Stream_Job i q (after_read i n e)]\<rparr>)"
    using inv_next_phase [OF inv_trace [OF assms(1)]] assms(2,3) ph [OF n] by simp
  ultimately show ?thesis
    using ph assms(3) by (auto simp: read_job_def streamResponseBody_def Let_def not_less)
qed

lemma message_job_settled:
  assumes "session_inv a" "k < length (as_workers a)"
  shows "settled se (message_job host port se k m r body a)" "settled se (finish_job se k m a)"
  using worker_sends_settled [OF inv_trace [OF assms(1)], where k = k and nx = None] worker_sends_settled [OF assms, where nx = None] assms(2)
  by (auto simp: message_job_def finish_job_def)

lemmas session_settled = session_handle_settled execute_job_settled read_job_settled message_job_settled

lemma settled_Some: "settled se r \<Longrightarrow> r = Some t \<Longrightarrow> session_inv t"
  by simp

lemma inv_worker_step: "worker_step host port a t \<Longrightarrow> session_inv a \<Longrightarrow> session_inv t"
proof (induction rule: worker_step.induct)
  case (closes a t)
  then show ?case
    using close_settled [of a] by (metis option.inject)
next
  case (others a n)
  then show ?case
    by (simp add: session_inv_def)
qed (auto intro: settled_Some session_settled)

lemma inv_session_receives: "session_receives se data a = Some t \<Longrightarrow> session_inv a \<Longrightarrow> session_inv t"
  using session_handle_settled [of a se data] by (auto simp: session_receives_def intro: inv_cong)

lemma inv_session_reachable: "session_reachable host port a \<Longrightarrow> session_inv a"
proof (induction rule: session_reachable.induct)
  case (step a t)
  then show ?case
    by (auto elim: session_step.cases intro: inv_worker_step inv_session_receives)
qed (simp add: session_inv_def newVisitorDataSession_def)

subsection \<open>Properties\<close>

text \<open>The wait for capacity ends at the latest when its timer fires.\<close>

lemma wait_ends: "t \<in> set ts \<Longrightarrow> st_wake t = Send_Deadline \<Longrightarrow> waitForSendCapacity ts \<noteq> None"
  by (induction ts) (auto split: wake.splits)

text \<open>C5. Whatever messages come and however the workers, the closing of the session and the
  other sessions interleave: a session holds exactly one slot for each request whose frames are coming in and for each
  worker, never more than 4096, all sessions together never more than 16384, a closed session none but those of
  its running workers, and no request holds more than 16 MiB.\<close>

theorem agent_slots_are_exact:
  assumes "session_reachable host port a"
  shows "as_slots a = length (as_requests a) + length (as_workers a) \<and> as_slots a \<le> 4096 \<and>
    as_global a = as_slots a + as_others a \<and> as_global a \<le> 16384 \<and> (as_closed a \<longrightarrow> as_slots a = length (as_workers a)) \<and>
    distinct (map fst (as_requests a)) \<and> (\<forall>(i, q) \<in> set (as_requests a). length (sr_body q) \<le> 16777216)"
  using inv_session_reachable [OF assms]
  by (auto simp: session_inv_def visitorMaxVisitorStreams_def visitorMaxTotalStreams_def visitorMaxRequestBytes_def)

text \<open>C6. No operation of a session waits for a token that is not there: once the wait
  for room in the send buffer has ended, handling a message, closing the session and every turn of a worker
  return.\<close>

theorem agent_never_waits_for_a_slot:
  assumes "session_reachable host port a" "waitForSendCapacity (se_turns se) \<noteq> None"
  shows "session_handle se data a \<noteq> None \<and> session_close a \<noteq> None \<and>
    (\<forall>k < length (as_workers a).
       case as_workers a ! k of
         Stream_Job i q Executing \<Rightarrow> execute_job host port se k r a \<noteq> None
       | Stream_Job i q (Reading n) \<Rightarrow> read_job se k n b e a \<noteq> None
       | Stream_Job i q (Finishing m) \<Rightarrow> finish_job se k m a \<noteq> None
       | Message_Job m \<Rightarrow> message_job host port se k m r body a \<noteq> None)"
proof -
  have inv: "session_inv a"
    by (rule inv_session_reachable [OF assms(1)])
  have some: "x \<noteq> None" if "settled se x" for x
    using that assms(2) by (cases x) auto
  have "session_close a \<noteq> None"
    using close_settled [OF inv] by auto
  then show ?thesis
    using some session_settled [OF inv] by (auto split: visitor_job.splits worker_phase.splits)
qed

text \<open>C31. When the status and the headers of a response do not fit in a frame of 60 KiB
  the worker returns at once and sends nothing for the request, no error either: whoever waits for the response
  hears nothing until the channel closes.\<close>

theorem large_response_head_is_dropped:
  assumes "session_reachable host port a" "k < length (as_workers a)" "as_workers a ! k = Stream_Job i q Executing"
    "visitorTargetURL host port (sr_path q) = Inr target" "61440 < byte_length (marshal (start_frame i st hs))"
  shows "\<exists>t. execute_job host port se k (Responded st hs) a = Some t \<and> as_sent t = as_sent a \<and>
    as_workers t = remove_nth k (as_workers a) \<and> as_requests t = as_requests a"
proof -
  let ?b = "a\<lparr>as_trace := as_trace a @ fst (snd (execute host port i q (Responded st hs)))\<rparr>"
  have "session_inv ?b"
    by (rule inv_trace [OF inv_session_reachable [OF assms(1)]])
  moreover have "k < length (as_workers ?b)"
    using assms(2) by simp
  ultimately obtain t where t: "worker_done k ?b = Some t" "as_workers t = remove_nth k (as_workers ?b)" "as_requests t = as_requests ?b"
    "as_sent t = as_sent ?b"
    by (rule worker_done_settled)
  then have "execute_job host port se k (Responded st hs) a = Some t"
    using assms(3-5) by (simp add: execute_job_def execute_def worker_sends_def sendFrame_def visitorMaxMessageBytes_def)
  then show ?thesis
    using t by simp
qed

subsection \<open>A run\<close>

definition free_channel :: send_env where
  "free_channel = \<lparr>se_turns = [\<lparr>st_cancelled = False, st_ready = Open, st_buffered = 0, st_wake = Poll_Tick\<rparr>], se_fails = False\<rparr>"

definition demo_stream :: stream_request where
  "demo_stream = \<lparr>sr_method = js ''POST'', sr_path = js ''/a'', sr_headers = [(js ''accept'', [js ''*/*''])], sr_body = []\<rparr>"

definition demo_started :: agent_session where
  "demo_started = (newVisitorDataSession 0)\<lparr>as_slots := 1, as_global := 1, as_requests := [(js ''1'', demo_stream)],
     as_received := [stringify (request_start (js ''1'') demo_fetch)]\<rparr>"

definition demo_filled :: agent_session where
  "demo_filled = demo_started\<lparr>as_requests := [(js ''1'', demo_stream\<lparr>sr_body := [1, 2, 3]\<rparr>)],
     as_received := as_received demo_started @ [stringify (request_chunk (js ''1'') [1, 2, 3])]\<rparr>"

definition demo_executing :: agent_session where
  "demo_executing = demo_filled\<lparr>as_requests := [], as_workers := [Stream_Job (js ''1'') (demo_stream\<lparr>sr_body := [1, 2, 3]\<rparr>) Executing],
     as_received := as_received demo_filled @ [stringify (request_end (js ''1''))]\<rparr>"

lemmas demo_session = demo_started_def demo_filled_def demo_executing_def demo_stream_def newVisitorDataSession_def

lemma demo_strings:
  "go_string (js ''1'') = js ''1''" "go_string (js ''POST'') = js ''POST''" "go_string (js ''/a'') = js ''/a''"
  "go_headers [(js ''accept'', [js ''*/*''])] = [(js ''accept'', [js ''*/*''])]"
  by (simp_all add: js_def go_string_whole whole_text_ascii go_headers_whole)

lemma demo_fetch_ok: "fetch_ok demo_fetch" "fetch_headers demo_fetch = [(js ''accept'', [js ''*/*''])]"
  "vf_method demo_fetch = js ''POST''" "vf_path demo_fetch = js ''/a''"
  by (simp_all add: fetch_ok_def fetch_headers_def demo_fetch_def)

lemma demo_sizes:
  "byte_length (stringify (request_start (js ''1'') demo_fetch)) \<le> 61440" "byte_length (stringify (request_chunk (js ''1'') [1, 2, 3])) \<le> 61440"
  "byte_length (stringify (request_end (js ''1''))) \<le> 61440"
proof -
  have "\<forall>c \<in> set (stringify (request_start (js ''1'') demo_fetch)). c < 0x80" "length (stringify (request_start (js ''1'') demo_fetch)) \<le> 61440"
    by (simp_all add: request_start_def frame_def headers_json_def demo_fetch_ok) (simp_all add: js_def quote_def quote_unit_def is_high_def is_low_def)
  then show "byte_length (stringify (request_start (js ''1'') demo_fetch)) \<le> 61440"
    by (simp add: byte_length_ascii)
  have one: "plain_ascii (js ''1'')"
    by (simp add: plain_ascii_def js_def html_unit_def)
  have "length (base64 [1, 2, 3]) = 4"
    by (simp add: length_base64)
  then show "byte_length (stringify (request_chunk (js ''1'') [1, 2, 3])) \<le> 61440" "byte_length (stringify (request_end (js ''1''))) \<le> 61440"
    using frame_text_plain [OF plain_ascii_literals(4) one plain_ascii_base64 [of "[1, 2, 3]"] disjI2 [OF refl]]
      frame_text_plain [OF plain_ascii_literals(5) one plain_ascii_base64 [of "[1, 2, 3]"] disjI1 [OF refl]]
    by (simp_all add: request_chunk_def request_end_def byte_length_plain js_def)
qed

lemma demo_starts: "session_receives se (stringify (request_start (js ''1'') demo_fetch)) (newVisitorDataSession 0) = Some demo_started"
  unfolding session_receives_def session_handle_def unmarshal_frames(1) [OF demo_fetch_ok(1)]
  using demo_sizes(1)
  by (simp add: visitorMaxMessageBytes_def session_start_def demo_strings demo_fetch_ok reserveSlotLocked_def
      visitorMaxVisitorStreams_def visitorMaxTotalStreams_def demo_session empty_message_def)

lemma demo_fills: "session_receives se (stringify (request_chunk (js ''1'') [1, 2, 3])) demo_started = Some demo_filled"
  unfolding session_receives_def session_handle_def unmarshal_frames(2) [OF demo_fetch_ok(1)]
  using demo_sizes(2) go_string_whole [OF plain_ascii_whole [OF plain_ascii_base64]]
  by (simp add: visitorMaxMessageBytes_def session_chunk_def demo_strings visitorMaxRequestBytes_def demo_session)

lemma demo_executes: "session_receives se (stringify (request_end (js ''1''))) demo_filled = Some demo_executing"
  unfolding session_receives_def session_handle_def unmarshal_frames(3) [OF demo_fetch_ok(1)]
  using demo_sizes(3)
  by (simp add: visitorMaxMessageBytes_def session_end_def Let_def demo_strings demo_session delete_key_def)

lemma demo_executing_reachable: "session_reachable host port demo_executing"
proof -
  have "session_reachable host port (newVisitorDataSession 0)"
    by (rule session_reachable.initial) simp
  from session_reachable.step [OF this session_step.receives [OF demo_starts]]
  have "session_reachable host port demo_started" .
  from session_reachable.step [OF this session_step.receives [OF demo_fills]]
  have "session_reachable host port demo_filled" .
  from session_reachable.step [OF this session_step.receives [OF demo_executes]]
  show ?thesis .
qed

theorem agent_slots_are_exact_witness: "as_slots demo_executing = 1 \<and> length (as_workers demo_executing) = 1"
  using agent_slots_are_exact [OF demo_executing_reachable] by (simp add: demo_session)

theorem agent_never_waits_for_a_slot_witness:
  "session_handle free_channel (js ''{'') demo_executing \<noteq> None \<and>
   execute_job (js ''localhost'') 80 free_channel 0 (Do_Failed (js ''refused'')) demo_executing \<noteq> None"
proof -
  have "waitForSendCapacity (se_turns free_channel) \<noteq> None"
    by (simp add: free_channel_def)
  from agent_never_waits_for_a_slot [OF demo_executing_reachable this, of "js ''{''" "js ''localhost''" 80 "Do_Failed (js ''refused'')" "[]" Read_EOF "Inr []"]
  show ?thesis
    by (simp add: demo_session)
qed

text \<open>A header with a value of 61440 letters.\<close>

definition large_head :: header_lists where
  "large_head = [(js ''X'', [replicate 61440 0x61])]"

lemma large_head_size: "61440 < byte_length (marshal (start_frame (js ''1'') 200 large_head))"
proof -
  let ?v = "replicate 61440 0x61 :: js_string"
  let ?t = "stringify (message_json (start_frame (js ''1'') 200 large_head))"
  have v: "quote_units ?v = ?v"
    by (rule quote_units_plain) (simp add: plain_ascii_def html_unit_def)
  have h: "visitorResponseHeaders large_head = large_head" "sorted_headers large_head = large_head"
    by (simp_all add: visitorResponseHeaders_def large_head_def isVisitorHopByHopHeader_def lower_is_def equal_fold_def sorted_headers_def
        go_lower_unit_def go_fold_unit_def js_def)
  have t: "?t = stringify (JObj [(js ''kind'', JStr (js ''response_start'')), (js ''id'', JStr (js ''1'')),
      (js ''headers'', JObj [(js ''X'', JArr [JStr ?v])]), (js ''status'', JNum 200)])"
    using h by (simp add: message_json_def start_frame_def empty_message_def headers_json_def) (simp add: large_head_def)
  have "\<forall>c \<in> set ?t. c < 0x80 \<and> \<not> html_unit c"
    unfolding t by (simp add: quote_def v number_text_def int_text_def)
      (simp add: js_def quote_unit_def is_high_def is_low_def html_unit_def nat_text.simps)
  moreover have "61440 < length ?t"
    unfolding t by (simp add: quote_def v)
  ultimately show ?thesis
    using byte_length_plain [of ?t] by (simp add: marshal_def)
qed

theorem large_response_head_is_dropped_witness:
  "\<exists>t. execute_job (js ''localhost'') 80 free_channel 0 (Responded 200 large_head) demo_executing = Some t \<and>
     as_sent t = [] \<and> as_workers t = []"
proof -
  let ?q = "demo_stream\<lparr>sr_body := [1, 2, 3]\<rparr>"
  have "visitorTargetURL (js ''localhost'') 80 (sr_path ?q) = Inr (js ''http://localhost:80/a'')"
    by (simp add: demo_stream_def visitorTargetURL_def Let_def go_trim_def go_space_def js_space_def js_def request_uri_ok_def joinHostPort_def int_text_def nat_text.simps)
  moreover have "as_workers demo_executing = [Stream_Job (js ''1'') ?q Executing]" "as_sent demo_executing = []"
    by (simp_all add: demo_session)
  ultimately show ?thesis
    using large_response_head_is_dropped [OF demo_executing_reachable _ _ _ large_head_size, of 0 ?q "js ''localhost''" 80 "js ''http://localhost:80/a''" free_channel]
    by (auto simp: remove_nth_def)
qed

end
