(* ===== verification/Visitor.thy ===== *)
theory Visitor
  imports Visitor_Worker Visitor_Startup Visitor_Agent
begin

text \<open>
  The visitor page and its service worker together: a request goes from the worker through the
  page to the agent, and the agent's response comes back through the page to the worker. What
  the two components promise on their own (the frames of a request, the messages at a port, the
  stream of a response) is put together here, in the presence of any other requests.
\<close>

subsection \<open>Frames of the agent\<close>

text \<open>What the agent sends for a response, and what the worker reads of it. The headers come sorted, without those
  that the agent keeps to itself.\<close>

definition response_frames :: "js_string \<Rightarrow> nat \<Rightarrow> header_lists \<Rightarrow> byte list list \<Rightarrow> json list" where
  "response_frames i st hs bs = map message_json (start_frame i st hs # map (chunk_frame i) bs @ [end_frame i])"

definition passed_headers :: "header_lists \<Rightarrow> header_lists" where
  "passed_headers hs = sorted_headers (visitorResponseHeaders hs)"

lemma json_elems_String_texts: "json_elems_String (map JStr vs) = vs"
  by (induction vs) auto

lemma headers_elems: "map (\<lambda>(n, w). (n, case w of JArr vs \<Rightarrow> json_elems_String vs | _ \<Rightarrow> [])) (map (\<lambda>(n, vs). (n, JArr (map JStr vs))) hs) = hs"
  by (induction hs) (auto simp: json_elems_String_texts)

lemma is_kind_message [simp]: "is_kind k (message_json f) \<longleftrightarrow> vm_kind f = js k"
  by (auto simp: is_kind_def)

lemma base64_Nil: "base64 [] = []"
  by (simp add: base64_text padding_def)

lemma read_start_frame:
  "read_message (message_json (start_frame i st hs)) = Response_Start (if st = 0 then None else Some (of_nat st)) (passed_headers hs)"
proof -
  let ?f = "start_frame i st hs"
  have "vm_kind ?f = js ''response_start''"
    by (simp add: start_frame_def)
  moreover have "headers_field (message_json ?f) = passed_headers hs"
    using headers_elems [of "passed_headers hs"]
    by (simp add: headers_field_def field_def message_json_def start_frame_def empty_message_def passed_headers_def headers_json_def sorted_headers_def)
  moreover have "field ''status'' (message_json ?f) = (if st = 0 then None else Some (JNum (of_nat st)))"
    by (simp add: field_def message_json_def start_frame_def empty_message_def)
  ultimately show ?thesis
    by (simp add: read_message_def)
qed

lemma read_chunk_frame: "read_message (message_json (chunk_frame i b)) = Response_Chunk (base64 b)"
  by (simp add: read_message_def) (simp add: chunk_frame_def text_field_def field_def message_json_def empty_message_def)

lemma read_end_frame: "read_message (message_json (end_frame i)) = Response_End []"
  by (simp add: read_message_def) (simp add: end_frame_def text_field_def field_def message_json_def empty_message_def)

lemma read_error_frame: "read_message (message_json (error_frame i e)) = Response_End e"
  by (simp add: read_message_def) (simp add: error_frame_def text_field_def field_def message_json_def empty_message_def)

lemmas read_frames = read_start_frame read_chunk_frame read_end_frame read_error_frame

lemma respond_status: "respond (if st = 0 then None else Some (of_nat st)) hs = respond (Some (of_nat st)) hs"
  by (simp add: respond_def validStatus_def split: sum.splits)

lemma frame_kinds [simp]:
  "vm_kind (start_frame i st hs) = js ''response_start''" "vm_kind (chunk_frame i b) = js ''response_chunk''"
  "vm_kind (end_frame i) = js ''response_end''" "vm_kind (error_frame i e) = js ''response_end''"
  by (simp_all add: start_frame_def chunk_frame_def end_frame_def error_frame_def)

lemma upto_end_response: "upto_end (response_frames i st hs bs) = response_frames i st hs bs"
proof -
  have "upto_end (map (message_json \<circ> chunk_frame i) bs @ [message_json (end_frame i)]) = map (message_json \<circ> chunk_frame i) bs @ [message_json (end_frame i)]"
    by (induction bs) simp_all
  then show ?thesis
    by (simp add: response_frames_def)
qed

text \<open>What the worker makes of a whole response.\<close>

lemma responseStream_frames:
  assumes "length (concat bs) \<le> maxProxyResponseBytes" "r = responseStream shell (map read_message (response_frames i st hs bs))"
  shows "rs_answer r = Some (respond (Some (of_nat st)) (passed_headers hs)) \<and> rs_stream r = Stream_Closed \<and>
    concat (rs_enqueued r) = (if isRewriteable (Some (passed_headers hs)) then rewriteBody shell (concat bs) (passed_headers hs) else concat bs)"
proof -
  have "map read_message (response_frames i st hs bs) =
      Response_Start (if st = 0 then None else Some (of_nat st)) (passed_headers hs) # map (\<lambda>b. Response_Chunk (base64 b)) bs @ [Response_End []]"
    by (simp add: response_frames_def read_frames comp_def)
  then show ?thesis
    using responseStream_whole [OF assms(1), of r shell "if st = 0 then None else Some (of_nat st)" "passed_headers hs"] assms(2)
    by (simp add: respond_status)
qed

subsection \<open>What the worker relies on\<close>

text \<open>The page as the worker sees it: requests have ports, only a request's own messages come to its port, none
  is an end while the page holds the request, and there is an end, with nothing else behind it, once it does not.\<close>

lemma answered_log_end_message:
  assumes "answered_log l"
  shows "\<exists>e. Response_End e \<in> set (map read_message l)"
proof -
  have "\<not> open_log l"
    using assms unfolding answered_log_def by blast
  then obtain v where v: "v \<in> set l" "is_kind ''response_end'' v"
    by (auto simp: open_log_def is_end_def)
  then have "read_message v = Response_End (text_field ''error'' v)"
    by (auto simp: read_message_def is_kind_def)
  then show ?thesis
    using v(1) by force
qed

locale port_provider =
  fixes inv :: "'s \<Rightarrow> bool"
    and owns :: "'s \<Rightarrow> js_string \<Rightarrow> nat \<Rightarrow> bool"
    and holds :: "'s \<Rightarrow> js_string \<Rightarrow> nat \<Rightarrow> bool"
    and log :: "nat \<Rightarrow> 's \<Rightarrow> json list"
  assumes own_messages: "inv s \<Longrightarrow> owns s i p \<Longrightarrow> v \<in> set (log p s) \<Longrightarrow> for_id i v"
    and held_open: "inv s \<Longrightarrow> owns s i p \<Longrightarrow> holds s i p \<Longrightarrow> open_log (log p s)"
    and released_answered: "inv s \<Longrightarrow> owns s i p \<Longrightarrow> \<not> holds s i p \<Longrightarrow> answered_log (log p s)"
begin

lemma held_waits:
  assumes "inv s" "owns s i p" "holds s i p"
  shows "Response_End e \<notin> set (map read_message (log p s))"
proof
  assume "Response_End e \<in> set (map read_message (log p s))"
  then obtain v where "v \<in> set (log p s)" "read_message v = Response_End e"
    by auto
  then show False
    using held_open [OF assms] by (auto simp: read_message_def open_log_def is_end_def split: if_splits)
qed

lemma released_settled:
  assumes "inv s" "owns s i p" "\<not> holds s i p"
  shows "let r = responseStream shell (map read_message (log p s)) in
    \<not> rs_port_open r \<and> (rs_started r \<longrightarrow> rs_stream r \<noteq> Readable) \<and>
    (rs_answer r \<noteq> None \<or> \<not> rs_started r \<and> rs_stream r = Stream_Errored (js ''visitor response is too large''))"
proof -
  obtain e where "Response_End e \<in> set (map read_message (log p s))"
    using answered_log_end_message [OF released_answered [OF assms]] by blast
  from response_end_settles_the_request [OF this, of shell "[]"] show ?thesis
    by (simp add: Let_def)
qed

end

interpretation page_ports: port_provider visitor_inv "\<lambda>s i p. \<exists>m. (i, p, m) \<in> set (vp_accepted s)"
  "\<lambda>s i p. (i, p) \<in> set (vp_pending s)" port_log
  by unfold_locales (auto simp: visitor_inv_def dest!: accepted_inv split: if_splits)

subsection \<open>Delivery\<close>

lemma response_delivered:
  assumes "visitor_reachable s" "(i, p) \<in> set (vp_pending s)" "port_log p s = []"
    and "frames_of i ds = response_frames i st hs bs" "length (concat bs) \<le> 16777216"
    and "r = responseStream shell (map read_message (port_log p (fold handleFrame ds s)))"
  shows "rs_answer r = Some (respond (Some (of_nat st)) (passed_headers hs)) \<and> rs_stream r = Stream_Closed \<and>
    concat (rs_enqueued r) = (if isRewriteable (Some (passed_headers hs)) then rewriteBody shell (concat bs) (passed_headers hs) else concat bs)"
proof -
  have "port_log p (fold handleFrame ds s) = response_frames i st hs bs"
    using fold_handleFrame [OF inv_visitor_reachable [OF assms(1)] assms(2)] assms(3,4) by (simp add: upto_end_response)
  then show ?thesis
    using responseStream_frames [of bs r shell i st hs] assms(5,6) by (simp add: maxProxyResponseBytes_def)
qed

text \<open>What becomes of a status that is a whole number.\<close>

lemma respond_nat:
  "respond (Some (of_nat st)) hs =
     (case toHeaders hs of
        Inl e \<Rightarrow> Bad_Gateway None
      | Inr h \<Rightarrow> if st \<in> {204, 205, 304} then Bad_Gateway None else Streamed (if 200 \<le> st \<and> st \<le> 599 then of_nat st else 502) h)"
proof -
  have n: "validStatus (Some (of_nat st)) = of_nat (if 200 \<le> st \<and> st \<le> 599 then st else 502)"
    by (simp add: validStatus_def)
  have null: "null_body_status (of_nat m) \<longleftrightarrow> m \<in> {204, 205, 304}" for m
    unfolding null_body_status_def floor_of_nat insert_iff empty_iff by linarith
  show ?thesis
  proof (cases "200 \<le> st \<and> st \<le> 599")
    case False
    then have "st \<notin> {204, 205, 304}" and v: "validStatus (Some (of_nat st)) = 502"
      unfolding n if_not_P [OF False] by auto
    then show ?thesis
      using null [of 502] by (cases "toHeaders hs") (simp_all add: respond_def v if_not_P [OF False])
  qed (cases "toHeaders hs"; simp add: respond_def n null)
qed

text \<open>For an HTML document the browser reads the rewritten text of what the site sent.\<close>

lemma document_delivered:
  assumes "visitor_reachable s" "(i, p) \<in> set (vp_pending s)" "port_log p s = []"
    and "frames_of i ds = response_frames i st hs bs" "length (concat bs) \<le> 16777216"
    and "r = responseStream shell (map read_message (port_log p (fold handleFrame ds s)))"
    and "isRewriteable (Some (passed_headers hs))" "has_literal ''text/html'' (content_type (passed_headers hs))"
    and "\<forall>c \<in> set shell. plain_unit c" "hd (text_decode (concat bs)) \<noteq> 0xFEFF"
  shows "text_decode (concat (rs_enqueued r)) = rewriteHTML (text_decode (concat bs)) shell"
  using response_delivered [OF assms(1-6)] assms(7) rewriteBody_text [OF assms(9,8,10)] by simp

subsection \<open>Properties\<close>


text \<open>A request that the worker forwards and the page accepts, once its end is sent,
  is at the agent with the method, the path below the scope, and the bytes of its body; the page never refuses
  for its size what the worker has let through.\<close>

lemma visitor_request_arrives:
  assumes "proxy scopePath windows q = Forward w m" "visitor_reachable s" "(i, p, m) \<in> set (vp_accepted s)"
    and "request_end i \<in> set (frames_of i (vp_sent s))"
  shows "length (vr_body q) \<le> maxRequestBytes \<and> assembled (frames_of i (vp_sent s)) = Some (vr_body q) \<and>
    field ''method'' (hd (frames_of i (vp_sent s))) = Some (JStr (vr_method q)) \<and>
    field ''path'' (hd (frames_of i (vp_sent s))) = Some (JStr (forward_path scopePath (vr_url q)))"
proof -
  have "frames_of i (vp_sent s) = request_frames i m"
    by (rule request_frames_prefix [OF accepted_prefix [OF assms(2,3)] assms(4)])
  then show ?thesis
    using proxy_forward [OF assms(1)] assembled_request [of i m]
    by (simp add: request_frames_def) (simp add: request_start_def frame_def field_def)
qed

text \<open>C19. A request that the page accepted is settled in the browser as soon as the
  page no longer holds it, and at the latest when the channel closes: the worker has answered it (save when chunks
  beyond the limit came before any start), the stream of a response that had started has ended, and its port is closed.\<close>

theorem every_visitor_fetch_is_settled:
  assumes "visitor_reachable s" "(i, p, m) \<in> set (vp_accepted s)"
    and "t = channel_closed s \<or> t = s \<and> (i, p) \<notin> set (vp_pending s)"
  shows "let r = responseStream shell (map read_message (port_log p t)) in
    \<not> rs_port_open r \<and> (rs_started r \<longrightarrow> rs_stream r \<noteq> Readable) \<and>
    (rs_answer r \<noteq> None \<or> \<not> rs_started r \<and> rs_stream r = Stream_Errored (js ''visitor response is too large''))"
proof -
  have "visitor_inv t \<and> vp_accepted t = vp_accepted s \<and> (i, p) \<notin> set (vp_pending t)"
    using assms(3)
  proof
    assume "t = channel_closed s"
    then show ?thesis
      using inv_channel(2) [OF inv_visitor_reachable [OF assms(1)]] by (simp add: channel_closed_def failPending_eq setStatus_def)
  qed (simp add: inv_visitor_reachable [OF assms(1)])
  moreover from this have "\<exists>m. (i, p, m) \<in> set (vp_accepted t)"
    using assms(2) by auto
  ultimately show ?thesis
    using page_ports.released_settled [of t i p shell] by blast
qed

subsection \<open>A run\<close>

definition demo_request :: worker_request where
  "demo_request =
     \<lparr>vr_method = js ''POST'', vr_url = \<lparr>pu_origin = js ''o'', pu_pathname = js ''/v/a'', pu_search = [], pu_hash = []\<rparr>,
      vr_length = Fin 3, vr_headers = [(js ''accept'', js ''*/*''), (js ''host'', js ''o'')], vr_body = [1, 2, 3]\<rparr>"

lemma demo_request_forward: "proxy (js ''/v/'') [(0, js ''/v''), (1, js ''/v/'')] demo_request = Forward 0 demo_fetch"
  by (simp add: proxy_def find_broker_def shellPath_def demo_request_def demo_fetch_def number_above_def maxProxyBytes_def
      push_header_def forward_path_def) (simp add: js_def slash_def)


theorem every_visitor_fetch_is_settled_witness:
  "let r = responseStream (js ''/v'') (map read_message (port_log 7 (channel_closed demo_sent))) in
   \<not> rs_port_open r \<and> (rs_answer r \<noteq> None \<or> \<not> rs_started r \<and> rs_stream r = Stream_Errored (js ''visitor response is too large''))"
proof -
  have "(nat_text 1, 7, demo_fetch) \<in> set (vp_accepted demo_sent)"
    unfolding demo_sent_def by (simp add: demo_eval)
  from every_visitor_fetch_is_settled [OF demo_sent_reachable this disjI1 [OF refl], of "js ''/v''"] show ?thesis
    by (simp add: Let_def)
qed

end
