(* ===== verification/Visitor_Exchange.thy ===== *)
theory Visitor_Exchange
  imports Visitor_Agent
begin

text \<open>
  A session of the agent at the other end of a visitor page: what the session holds, has sent and has exchanged
  with the local service for one request, as long as the frames of that request come in the order in which the
  page sends them. Frames of other requests, the other workers and the closing of the session may come in
  between at any moment.
\<close>

subsection \<open>What belongs to a request\<close>

fun job_for :: "js_string \<Rightarrow> visitor_job \<Rightarrow> bool" where
  "job_for i (Stream_Job j q ph) \<longleftrightarrow> j = i"
| "job_for i (Message_Job m) \<longleftrightarrow> vm_id m = i"

definition jobs_of :: "js_string \<Rightarrow> visitor_job list \<Rightarrow> visitor_job list" where
  "jobs_of i ws = filter (job_for i) ws"

definition events_of :: "js_string \<Rightarrow> service_event list \<Rightarrow> service_event list" where
  "events_of i tr = filter (\<lambda>e. ev_id e = i) tr"

text \<open>The events in which the HTTP client of the agent was given a request, answered or not.\<close>

fun asks_service :: "service_event \<Rightarrow> bool" where
  "asks_service (Served i q st hs) = True"
| "asks_service (Unanswered i q) = True"
| "asks_service (Body_Read i b) = False"
| "asks_service (Body_Ended i) = False"

text \<open>The request as the agent has it once these parts of its body have come.\<close>

definition received_request :: "visitor_fetch \<Rightarrow> byte list \<Rightarrow> stream_request" where
  "received_request m b =
     \<lparr>sr_method = go_string (vf_method m), sr_path = go_string (vf_path m), sr_headers = go_headers (fetch_headers m), sr_body = b\<rparr>"

text \<open>The request to the local service that a fetch of the page is to become.\<close>

definition request_for :: "js_string \<Rightarrow> int \<Rightarrow> visitor_fetch \<Rightarrow> local_request \<Rightarrow> bool" where
  "request_for host port m q \<longleftrightarrow>
     hr_method q = go_string (vf_method m) \<and> visitorTargetURL host port (go_string (vf_path m)) = Inr (hr_target q) \<and>
     hr_headers q = copyVisitorStreamHeaders [] (go_headers (fetch_headers m)) \<and> hr_body q = fetch_body m"

text \<open>The service answered the request, what was read of the answer was sent, and \<open>tail\<close> ends the frames.\<close>

definition served_log ::
  "js_string \<Rightarrow> int \<Rightarrow> js_string \<Rightarrow> visitor_fetch \<Rightarrow> service_event list \<Rightarrow> json list \<Rightarrow> byte list list \<Rightarrow> service_event list \<Rightarrow>
   visitor_message list \<Rightarrow> bool" where
  "served_log host port i m tr sent bs rest tail \<longleftrightarrow>
     (\<exists>q st hs. request_for host port m q \<and> distinct (map fst hs) \<and> tr = Served i q st hs # map (Body_Read i) bs @ rest \<and>
        sent = map message_json (start_frame i st hs # map (chunk_frame i) bs @ tail) \<and>
        length (concat bs) \<le> visitorMaxResponseBytes \<and> (\<forall>e \<in> set rest. \<not> asks_service e))"

definition only_errors :: "js_string \<Rightarrow> json list \<Rightarrow> bool" where
  "only_errors i sent \<longleftrightarrow> (\<exists>es. [] \<notin> set es \<and> sent = map (message_json \<circ> error_frame i) es)"

definition response_log :: "js_string \<Rightarrow> int \<Rightarrow> js_string \<Rightarrow> visitor_fetch \<Rightarrow> service_event list \<Rightarrow> json list \<Rightarrow> bool" where
  "response_log host port i m tr sent \<longleftrightarrow>
     only_errors i sent \<and> (tr = [] \<or> (\<exists>q. request_for host port m q \<and> (tr = [Unanswered i q] \<or> (\<exists>st hs. tr = [Served i q st hs])))) \<or>
     (\<exists>bs rest tail. served_log host port i m tr sent bs rest tail \<and>
        (tail = [] \<or> (\<exists>e. e \<noteq> [] \<and> tail = [error_frame i e]) \<or> tail = [end_frame i] \<and> rest = [Body_Ended i]))"

fun phase_log :: "js_string \<Rightarrow> int \<Rightarrow> js_string \<Rightarrow> visitor_fetch \<Rightarrow> service_event list \<Rightarrow> json list \<Rightarrow> worker_phase \<Rightarrow> bool" where
  "phase_log host port i m tr sent Executing \<longleftrightarrow> tr = [] \<and> sent = []"
| "phase_log host port i m tr sent (Reading n) \<longleftrightarrow> (\<exists>bs. served_log host port i m tr sent bs [] [] \<and> n = length (concat bs))"
| "phase_log host port i m tr sent (Finishing f) \<longleftrightarrow>
     (\<exists>bs rest. served_log host port i m tr sent bs rest [] \<and>
        (f = end_frame i \<and> rest = [Body_Ended i] \<or> (\<exists>e. e \<noteq> [] \<and> f = error_frame i e)))"

text \<open>A request is coming in, or it has no slot and was at most refused, or it has a worker, or its worker is done.\<close>

definition session_for :: "js_string \<Rightarrow> int \<Rightarrow> js_string \<Rightarrow> visitor_fetch \<Rightarrow> agent_session \<Rightarrow> bool" where
  "session_for host port i m a =
     (let got = frames_of i (as_received a); sent = frames_of i (as_sent a); tr = events_of i (as_trace a);
          jobs = jobs_of i (as_workers a)
      in case map_of (as_requests a) i of
           Some q \<Rightarrow> jobs = [] \<and> tr = [] \<and> sent = [] \<and>
             (\<exists>cs. got = request_start i m # map (request_chunk i) cs \<and> q = received_request m (concat cs))
         | None \<Rightarrow>
             jobs = [] \<and> tr = [] \<and> only_errors i sent \<and> (got = [] \<longrightarrow> sent = []) \<or>
             got = request_frames i m \<and>
               (jobs = [] \<and> response_log host port i m tr sent \<or>
                (\<exists>ph. jobs = [Stream_Job i (received_request m (fetch_body m)) ph] \<and> phase_log host port i m tr sent ph)))"

subsection \<open>Lemmas on the parts\<close>

lemma only_errors_simps [simp]:
  "only_errors i []" "only_errors i sent \<Longrightarrow> e \<noteq> [] \<Longrightarrow> only_errors i (sent @ [message_json (error_frame i e)])"
proof -
  show "only_errors i []"
    unfolding only_errors_def by (rule exI [of _ "[]"]) simp
  assume "only_errors i sent" "e \<noteq> []"
  then obtain es where "[] \<notin> set es" "sent = map (message_json \<circ> error_frame i) es"
    by (auto simp: only_errors_def)
  then show "only_errors i (sent @ [message_json (error_frame i e)])"
    using \<open>e \<noteq> []\<close> unfolding only_errors_def by (intro exI [of _ "es @ [e]"]) simp
qed

lemma distinct_start_headers: "distinct (map fst hs) \<Longrightarrow> distinct (map fst (vm_headers (start_frame i st hs)))"
  by (simp add: start_frame_def visitorResponseHeaders_def distinct_map_filter)

lemma frames_of_marshal:
  assumes "distinct (map fst (vm_headers f))"
  shows "frames_of i (ts @ [marshal f]) = frames_of i ts @ (if vm_id f = i then [message_json f] else [])"
  using marshal_parse [OF assms] by (simp add: frames_of_def map_filter_def)

lemma jobs_of_update:
  assumes "k < length ws" "job_for i j \<longleftrightarrow> job_for i (ws ! k)" "jobs_of i ws = [w] \<or> \<not> job_for i (ws ! k)"
  shows "jobs_of i (ws[k := j]) = (if job_for i (ws ! k) then [j] else jobs_of i ws)"
    "jobs_of i (remove_nth k ws) = (if job_for i (ws ! k) then [] else jobs_of i ws)"
proof -
  have "jobs_of i ws = jobs_of i (take k ws) @ (if job_for i (ws ! k) then [ws ! k] else []) @ jobs_of i (drop (Suc k) ws)"
    unfolding jobs_of_def by (subst (1) id_take_nth_drop [OF assms(1)]) simp
  then show "jobs_of i (ws[k := j]) = (if job_for i (ws ! k) then [j] else jobs_of i ws)"
    "jobs_of i (remove_nth k ws) = (if job_for i (ws ! k) then [] else jobs_of i ws)"
    using assms by (auto simp: jobs_of_def upd_conv_take_nth_drop remove_nth_def append_eq_Cons_conv)
qed

lemma jobs_of_worker:
  assumes "jobs_of i ws = [w]" "k < length ws" "job_for i (ws ! k)"
  shows "ws ! k = w"
proof -
  have "ws ! k \<in> set (jobs_of i ws)"
    using assms(2,3) by (simp add: jobs_of_def)
  then show ?thesis
    using assms(1) by simp
qed

subsection \<open>Steps of the workers\<close>

lemma worker_sends_cases:
  assumes "session_inv a" "k < length (as_workers a)" "worker_sends se k f nx a = Some t"
  obtains (goes) ph where "nx = Some ph" "as_sent t = as_sent a @ [marshal f]" "as_requests t = as_requests a"
      "as_workers t = (as_workers a)[k := Stream_Job (job_id (as_workers a ! k)) (job_request (as_workers a ! k)) ph]"
      "as_received t = as_received a" "as_trace t = as_trace a"
  | (ends) "as_workers t = remove_nth k (as_workers a)" "as_requests t = as_requests a \<or> as_requests t = []"
      "as_sent t = as_sent a \<or> as_sent t = as_sent a @ [marshal f] \<and> nx = None"
      "as_received t = as_received a" "as_trace t = as_trace a"
proof -
  have over: thesis
    if "worker_done k b = Some t" "session_inv b" "as_workers b = as_workers a" "as_requests b = as_requests a \<or> as_requests b = []"
      "as_sent b = as_sent a \<or> as_sent b = as_sent a @ [marshal f] \<and> nx = None" "as_received b = as_received a" "as_trace b = as_trace a" for b
  proof -
    have "k < length (as_workers b)"
      using assms(2) that by simp
    with that(2) obtain u where "worker_done k b = Some u" "as_workers u = remove_nth k (as_workers b)" "as_requests u = as_requests b"
      "as_sent u = as_sent b" "as_received u = as_received b" "as_trace u = as_trace b"
      by (rule worker_done_settled)
    then show thesis
      using that by (intro ends) simp_all
  qed
  from assms(1) show thesis
  proof (cases rule: sendFrame_cases [where se = se and m = f])
    case waiting
    then show thesis
      using assms(3) by (simp add: worker_sends_def)
  next
    case failed
    then show thesis
      using assms(1,3) over [of a] by (auto simp: worker_sends_def split: option.splits)
  next
    case (closed b)
    then show thesis
      using assms(3) over [of b] by (auto simp: worker_sends_def split: option.splits)
  next
    case sent
    show thesis
    proof (cases nx)
      case None
      have "session_inv (a\<lparr>as_sent := as_sent a @ [marshal f]\<rparr>)"
        by (rule inv_cong [OF assms(1)]) simp_all
      then show thesis
        using sent None assms(3) over [of "a\<lparr>as_sent := as_sent a @ [marshal f]\<rparr>"] by (auto simp: worker_sends_def)
    next
      case (Some ph)
      then show thesis
        using sent assms(3) by (intro goes [of ph]) (auto simp: worker_sends_def)
    qed
  qed
qed

text \<open>A step that does nothing for a request, save perhaps that it closes the session.\<close>

lemma session_for_other:
  assumes "session_for host port i m a" "frames_of i (as_received t) = frames_of i (as_received a)"
    "frames_of i (as_sent t) = frames_of i (as_sent a)" "events_of i (as_trace t) = events_of i (as_trace a)"
    "jobs_of i (as_workers t) = jobs_of i (as_workers a)"
    "map_of (as_requests t) i = map_of (as_requests a) i \<or> map_of (as_requests t) i = None"
  shows "session_for host port i m t"
  using assms(1,6) unfolding session_for_def assms(2-5) Let_def by (auto split: option.splits)

text \<open>The worker of a request belongs to a fetch that came in whole.\<close>

lemma own_worker:
  assumes "session_for host port i m a" "k < length (as_workers a)" "as_workers a ! k = Stream_Job i q ph"
  shows "map_of (as_requests a) i = None" "frames_of i (as_received a) = request_frames i m" "q = received_request m (fetch_body m)"
    "jobs_of i (as_workers a) = [Stream_Job i q ph]" "phase_log host port i m (events_of i (as_trace a)) (frames_of i (as_sent a)) ph"
proof -
  have "job_for i (as_workers a ! k)"
    using assms(3) by simp
  then have "jobs_of i (as_workers a) \<noteq> []"
    using assms(2) nth_mem by (fastforce simp: jobs_of_def filter_empty_conv)
  then obtain ph' where p: "map_of (as_requests a) i = None" "frames_of i (as_received a) = request_frames i m"
    "jobs_of i (as_workers a) = [Stream_Job i (received_request m (fetch_body m)) ph']"
    "phase_log host port i m (events_of i (as_trace a)) (frames_of i (as_sent a)) ph'"
    using assms(1) by (auto simp: session_for_def Let_def split: option.splits)
  moreover have "Stream_Job i q ph = Stream_Job i (received_request m (fetch_body m)) ph'"
    using jobs_of_worker [OF p(3) assms(2)] assms(3) by simp
  ultimately show "map_of (as_requests a) i = None" "frames_of i (as_received a) = request_frames i m" "q = received_request m (fetch_body m)"
    "jobs_of i (as_workers a) = [Stream_Job i q ph]" "phase_log host port i m (events_of i (as_trace a)) (frames_of i (as_sent a)) ph"
    by auto
qed

text \<open>What is left to show of a worker's own step: the log in the next phase, or the log it leaves behind.\<close>

lemma own_step:
  assumes "session_inv b" "k < length (as_workers b)" "worker_sends se k f nx b = Some t" "as_workers b ! k = Stream_Job i q ph"
    "jobs_of i (as_workers b) = [Stream_Job i q ph]" "map_of (as_requests b) i = None" "frames_of i (as_received b) = request_frames i m"
    "q = received_request m (fetch_body m)" "vm_id f = i" "distinct (map fst (vm_headers f))"
    and goes: "\<And>ph'. nx = Some ph' \<Longrightarrow> phase_log host port i m (events_of i (as_trace b)) (frames_of i (as_sent b) @ [message_json f]) ph'"
    and ends: "response_log host port i m (events_of i (as_trace b)) (frames_of i (as_sent b))"
      "nx = None \<Longrightarrow> response_log host port i m (events_of i (as_trace b)) (frames_of i (as_sent b) @ [message_json f])"
  shows "session_for host port i m t"
  using assms(1-3)
proof (cases rule: worker_sends_cases)
  case (goes ph')
  then have "jobs_of i (as_workers t) = [Stream_Job i q ph']"
    using jobs_of_update(1) [OF assms(2), of i "Stream_Job i q ph'" "Stream_Job i q ph"] assms(4,5) by simp
  then show ?thesis
    using goes assms(6-10) \<open>\<And>ph'. nx = Some ph' \<Longrightarrow> _ ph'\<close> by (auto simp: session_for_def Let_def frames_of_marshal)
next
  case ends
  then have "jobs_of i (as_workers t) = []"
    using jobs_of_update(2) [OF assms(2), of i "Stream_Job i q ph" "Stream_Job i q ph"] assms(4,5) by simp
  moreover have "map_of (as_requests t) i = None"
    using ends(2) assms(6) by auto
  ultimately show ?thesis
    using ends(3-5) assms(7,9,10,12,13) by (auto simp: session_for_def Let_def frames_of_marshal)
qed

lemma events_of_append [simp]: "events_of i (tr @ evs) = events_of i tr @ events_of i evs"
  by (simp add: events_of_def)

text \<open>Steps that a worker of another request takes.\<close>

lemma other_step:
  assumes "session_inv a" "k < length (as_workers a)" "\<not> job_for i (as_workers a ! k)" "session_for host port i m a"
    "worker_sends se k f nx (a\<lparr>as_trace := as_trace a @ evs\<rparr>) = Some t" "vm_id f \<noteq> i" "events_of i evs = []"
    "distinct (map fst (vm_headers f))" "nx \<noteq> None \<Longrightarrow> \<exists>j q ph. as_workers a ! k = Stream_Job j q ph"
  shows "session_for host port i m t"
proof -
  let ?b = "a\<lparr>as_trace := as_trace a @ evs\<rparr>"
  have "session_inv ?b" "k < length (as_workers ?b)"
    using inv_trace [OF assms(1)] assms(2) by simp_all
  then show ?thesis
    using assms(5)
  proof (cases rule: worker_sends_cases)
    case (goes ph)
    obtain j q ph' where "as_workers a ! k = Stream_Job j q ph'"
      using assms(9) goes(1) by auto
    then have "jobs_of i (as_workers t) = jobs_of i (as_workers a)"
      using jobs_of_update(1) [OF assms(2), of i "Stream_Job j q ph" undefined] goes(4) assms(3) by simp
    then show ?thesis
      using goes assms(6-8) by (intro session_for_other [OF assms(4)]) (auto simp: frames_of_marshal)
  next
    case ends
    have "jobs_of i (as_workers t) = jobs_of i (as_workers a)"
      using jobs_of_update(2) [OF assms(2), of i "as_workers a ! k" undefined] ends(1) assms(3) by simp
    then show ?thesis
      using ends assms(6-8) by (intro session_for_other [OF assms(4)]) (auto simp: frames_of_marshal)
  qed
qed

lemma execute_cases:
  assumes "execute host port i q r = (f, evs, nx)" "outcome_ok r"
  obtains (refused) e where "f = error_frame i e" "e \<noteq> []" "evs = []" "nx = None"
  | (unanswered) target e where "visitorTargetURL host port (sr_path q) = Inr target" "f = error_frame i e" "e \<noteq> []" "nx = None"
      "evs = [Unanswered i \<lparr>hr_method = sr_method q, hr_target = target, hr_headers = copyVisitorStreamHeaders [] (sr_headers q), hr_body = sr_body q\<rparr>]"
  | (served) target st hs where "visitorTargetURL host port (sr_path q) = Inr target" "f = start_frame i st hs" "distinct (map fst hs)" "nx = Some (Reading 0)"
      "evs = [Served i \<lparr>hr_method = sr_method q, hr_target = target, hr_headers = copyVisitorStreamHeaders [] (sr_headers q), hr_body = sr_body q\<rparr> st hs]"
proof (cases "visitorTargetURL host port (sr_path q)")
  case (Inl e)
  then have "e \<noteq> []"
    by (auto simp: visitorTargetURL_def Let_def split: if_splits)
  then show thesis
    using refused assms(1) Inl by (auto simp: execute_def)
next
  case (Inr target)
  show thesis
  proof (cases r)
    case (Responded st hs)
    then show thesis
      using served [OF Inr, of st hs] assms Inr by (auto simp: execute_def outcome_ok_def)
  next
    case (Do_Failed e)
    then show thesis
      using unanswered [OF Inr, of "js ''local service request failed: '' @ e"] assms(1) Inr by (auto simp: execute_def)
  qed (use Inr assms(1) refused in \<open>auto simp: execute_def\<close>)
qed

lemma session_for_executes:
  assumes "session_inv a" "session_for host port i m a" "k < length (as_workers a)" "as_workers a ! k = Stream_Job j q Executing"
    "outcome_ok r" "execute_job host port se k r a = Some t"
  shows "session_for host port i m t"
proof -
  obtain f evs nx where e: "execute host port j q r = (f, evs, nx)"
    using prod_cases3 by blast
  let ?b = "a\<lparr>as_trace := as_trace a @ evs\<rparr>"
  have t: "worker_sends se k f nx ?b = Some t"
    using assms(4,6) e by (simp add: execute_job_def)
  have f: "vm_id f = j" "distinct (map fst (vm_headers f))" "j \<noteq> i \<longrightarrow> events_of i evs = []"
    using e assms(5) by (cases rule: execute_cases; auto simp: events_of_def distinct_start_headers)+
  show ?thesis
  proof (cases "j = i")
    case False
    then show ?thesis
      using other_step [OF assms(1,3) _ assms(2) t] f assms(4) by auto
  next
    case True
    note own = own_worker [OF assms(2,3) assms(4) [unfolded True]]
    have logs: "events_of i (as_trace a) = []" "frames_of i (as_sent a) = []"
      using own(5) by simp_all
    show ?thesis
    proof (rule own_step [OF inv_trace [OF assms(1)] _ t, where q = q and ph = Executing])
      show "phase_log host port i m (events_of i (as_trace ?b)) (frames_of i (as_sent ?b) @ [message_json f]) ph'" if "nx = Some ph'" for ph'
        using e assms(5)
      proof (cases rule: execute_cases)
        case (served target st hs)
        then show ?thesis
          using that True own(3) logs
          by (auto simp: served_log_def request_for_def received_request_def events_of_def)
      qed (use that in simp_all)
      show "response_log host port i m (events_of i (as_trace ?b)) (frames_of i (as_sent ?b))"
        using e assms(5) logs True own(3)
        by (cases rule: execute_cases) (auto simp: response_log_def request_for_def received_request_def events_of_def)
      show "response_log host port i m (events_of i (as_trace ?b)) (frames_of i (as_sent ?b) @ [message_json f])" if "nx = None"
        using e assms(5)
      proof (cases rule: execute_cases)
        case (refused x)
        then show ?thesis
          using logs True only_errors_simps(2) [OF only_errors_simps(1), of x i] by (simp add: response_log_def)
      next
        case (unanswered target x)
        then show ?thesis
          using logs True own(3) only_errors_simps(2) [OF only_errors_simps(1), of x i]
          by (auto simp: response_log_def request_for_def received_request_def events_of_def)
      qed (use that in simp)
    qed (use own f assms(3,4) True in auto)
  qed
qed

lemma error_frame_eq [simp]: "error_frame i e = error_frame j e' \<longleftrightarrow> i = j \<and> e = e'"
  by (auto simp: error_frame_def empty_message_def)

text \<open>The next phase after a part of the body was read, and sent if it was not empty.\<close>

lemma phase_after_read:
  assumes "served_log host port i m tr sent bs [] []" "length (concat bs) + length b \<le> visitorMaxResponseBytes"
    "tr' = tr @ read_events i b e" "sent' = sent @ (if b = [] then [] else [message_json (chunk_frame i b)])"
  shows "phase_log host port i m tr' sent' (after_read i (length (concat bs) + length b) e)"
proof -
  let ?bs = "bs @ (if b = [] then [] else [b])"
  have "served_log host port i m tr' sent' ?bs (if e = Read_EOF then [Body_Ended i] else []) []"
    using assms by (auto simp: served_log_def read_events_def)
  moreover have "length (concat ?bs) = length (concat bs) + length b"
    by simp
  ultimately show ?thesis
    by (cases e) (auto simp: after_read_def intro!: exI [of _ ?bs])
qed

lemma served_more:
  "served_log host port i m tr sent bs [] [] \<Longrightarrow> served_log host port i m (tr @ read_events i b e) sent bs (read_events i b e) []"
  by (auto simp: served_log_def read_events_def)

lemma served_tail: "served_log host port i m tr sent bs rest [] \<Longrightarrow> served_log host port i m tr (sent @ [message_json f]) bs rest [f]"
  by (auto simp: served_log_def)

lemma events_of_read: "events_of i (read_events j b e) = (if j = i then read_events i b e else [])"
  by (auto simp: events_of_def read_events_def)

lemma session_for_reads:
  assumes "session_inv a" "session_for host port i m a" "k < length (as_workers a)" "as_workers a ! k = Stream_Job j q (Reading n)"
    "read_job se k n b e a = Some t"
  shows "session_for host port i m t"
proof -
  let ?b = "a\<lparr>as_trace := as_trace a @ read_events j b e\<rparr>"
  obtain f nx where s: "streamResponseBody j n b e = (f, nx)"
    by fastforce
  have t: "case f of Some g \<Rightarrow> worker_sends se k g nx ?b = Some t
      | None \<Rightarrow> t = ?b\<lparr>as_workers := (as_workers a)[k := Stream_Job j q (after_read j n e)]\<rparr> \<and> b = []"
    using assms(4,5) s by (auto simp: read_job_def Let_def streamResponseBody_def split: if_splits option.splits)
  have f: "vm_id g = j \<and> vm_headers g = []" if "f = Some g" for g
    using s that by (auto simp: streamResponseBody_def split: if_splits)
  show ?thesis
  proof (cases "j = i")
    case False
    show ?thesis
    proof (cases f)
      case None
      have "jobs_of i ((as_workers a)[k := Stream_Job j q (after_read j n e)]) = jobs_of i (as_workers a)"
        using jobs_of_update(1) [OF assms(3), of i "Stream_Job j q (after_read j n e)" undefined] assms(4) False by simp
      then show ?thesis
        using t None False by (intro session_for_other [OF assms(2)]) (auto simp: events_of_read)
    next
      case (Some g)
      then show ?thesis
        using t f [OF Some] False assms(4) other_step [OF assms(1,3) _ assms(2), of se g nx "read_events j b e" t]
        by (auto simp: events_of_read)
    qed
  next
    case True
    note own = own_worker [OF assms(2,3) assms(4) [unfolded True]]
    obtain bs where bs: "served_log host port i m (events_of i (as_trace a)) (frames_of i (as_sent a)) bs [] []" "n = length (concat bs)"
      using own(5) by auto
    show ?thesis
    proof (cases f)
      case None
      then have "jobs_of i (as_workers t) = [Stream_Job i q (after_read i n e)]" "b = []"
        using t jobs_of_update(1) [OF assms(3), of i "Stream_Job j q (after_read j n e)" "Stream_Job i q (Reading n)"] assms(4) own(4) True by auto
      moreover have "length (concat bs) \<le> visitorMaxResponseBytes"
        using bs(1) by (auto simp: served_log_def)
      ultimately show ?thesis
        using t None own(1-3) True phase_after_read [OF bs(1), of "[]"] bs(2)
        by (auto simp: session_for_def Let_def events_of_read)
    next
      case (Some g)
      have tr: "events_of i (as_trace ?b) = events_of i (as_trace a) @ read_events i b e" "frames_of i (as_sent ?b) = frames_of i (as_sent a)"
        using True by (simp_all add: events_of_read)
      have g: "b \<noteq> [] \<and> (nx = None \<and> (\<exists>x. x \<noteq> [] \<and> g = error_frame i x) \<or>
          g = chunk_frame i b \<and> nx = Some (after_read i (n + length b) e) \<and> n + length b \<le> visitorMaxResponseBytes)"
        using s Some True by (auto simp: streamResponseBody_def split: if_splits)
      show ?thesis
      proof (rule own_step [OF inv_trace [OF assms(1)] _ t [unfolded Some option.case], where q = q and ph = "Reading n"])
        show "phase_log host port i m (events_of i (as_trace ?b)) (frames_of i (as_sent ?b) @ [message_json g]) ph'" if "nx = Some ph'" for ph'
          unfolding tr using that g bs phase_after_read [OF bs(1), of b] by auto
        have served: "served_log host port i m (events_of i (as_trace ?b)) (frames_of i (as_sent ?b)) bs (read_events i b e) []"
          unfolding tr by (rule served_more [OF bs(1)])
        then show "response_log host port i m (events_of i (as_trace ?b)) (frames_of i (as_sent ?b))"
          unfolding response_log_def by blast
        show "response_log host port i m (events_of i (as_trace ?b)) (frames_of i (as_sent ?b) @ [message_json g])" if "nx = None"
          using that g served_tail [OF served, of g] unfolding response_log_def by auto
      qed (use own f [OF Some] assms(3,4) True in auto)
    qed
  qed
qed

lemma session_for_finishes:
  assumes "session_inv a" "session_for host port i m a" "k < length (as_workers a)" "as_workers a ! k = Stream_Job j q (Finishing f)"
    "finish_job se k f a = Some t" "vm_headers f = []" "vm_id f = j"
  shows "session_for host port i m t"
proof (cases "j = i")
  case False
  then show ?thesis
    using other_step [OF assms(1,3) _ assms(2), of se f None "[]" t] assms(4-7) by (auto simp: finish_job_def events_of_def)
next
  case True
  note own = own_worker [OF assms(2,3) assms(4) [unfolded True]]
  obtain bs rest where bs: "served_log host port i m (events_of i (as_trace a)) (frames_of i (as_sent a)) bs rest []"
    "f = end_frame i \<and> rest = [Body_Ended i] \<or> (\<exists>e. e \<noteq> [] \<and> f = error_frame i e)"
    using own(5) by auto
  show ?thesis
  proof (rule own_step [OF assms(1,3) assms(5) [unfolded finish_job_def], where q = q and ph = "Finishing f"])
    show "response_log host port i m (events_of i (as_trace a)) (frames_of i (as_sent a))"
      using bs(1) unfolding response_log_def by blast
    show "response_log host port i m (events_of i (as_trace a)) (frames_of i (as_sent a) @ [message_json f])"
      using served_tail [OF bs(1), of f] bs(2) unfolding response_log_def by blast
  qed (use own assms(4,6,7) True in auto)
qed

lemma session_for_answers:
  assumes "session_inv a" "session_for host port i m a" "k < length (as_workers a)" "as_workers a ! k = Message_Job n" "outcome_ok r"
    "message_job host port se k n r body a = Some t"
  shows "session_for host port i m t"
proof -
  have other: "vm_id n \<noteq> i"
  proof
    assume "vm_id n = i"
    then have "Message_Job n \<in> set (jobs_of i (as_workers a))"
      using nth_mem [OF assms(3)] assms(4) by (simp add: jobs_of_def)
    then show False
      using assms(2) by (auto simp: session_for_def Let_def split: option.splits)
  qed
  let ?f = "handleVisitorDataMessage host port n r body"
  have "vm_id ?f = vm_id n" "distinct (map fst (vm_headers ?f))"
    using assms(5)
    by (auto simp: handleVisitorDataMessage_def response_message_def empty_message_def executeVisitorRequest_def outcome_ok_def
        split: sum.splits service_outcome.splits)
  moreover have "events_of i (message_events host port n r) = []"
    using other by (auto simp: events_of_def message_events_def split: sum.splits service_outcome.splits)
  ultimately show ?thesis
    using other_step [OF assms(1,3) _ assms(2) assms(6) [unfolded message_job_def]] other assms(4) by auto
qed

lemma close_effect:
  assumes "session_close a = Some t"
  shows "as_workers t = as_workers a" "as_sent t = as_sent a" "as_received t = as_received a" "as_trace t = as_trace a"
    "as_requests t = as_requests a \<or> as_requests t = []"
  using assms by (auto simp: session_close_def release_slots_def split: if_splits option.splits)

lemma session_for_works:
  assumes "worker_step host port a t" "session_inv a" "session_for host port i m a"
  shows "session_for host port i m t"
  using assms
proof (induction rule: worker_step.induct)
  case (finishes k a j q f se t)
  then have "job_ok (Stream_Job j q (Finishing f))"
    using nth_mem by (force simp: session_inv_def)
  then show ?case
    using finishes session_for_finishes by simp
next
  case (closes a t)
  then show ?case
    using close_effect [OF closes(1)] by (intro session_for_other [OF closes(3)]) auto
next
  case (others a n)
  then show ?case
    by (intro session_for_other [OF others(3)]) simp_all
qed (blast intro: session_for_executes session_for_reads session_for_answers)+

subsection \<open>Messages that come in\<close>

lemma error_effect:
  assumes "sendErrorForID se j e a = Some t"
  shows "as_workers t = as_workers a" "as_received t = as_received a" "as_trace t = as_trace a"
    "as_requests t = as_requests a \<or> as_requests t = []"
    "as_sent t = as_sent a \<or> as_sent t = as_sent a @ [marshal (error_frame j e)]"
  using assms
  by (auto simp: sendErrorForID_def sendFrame_def Let_def dest: close_effect split: if_splits option.splits wait_result.splits)

lemma frames_of_error:
  assumes "sendErrorForID se j e a = Some t"
  shows "frames_of i (as_sent t) = frames_of i (as_sent a) \<or>
    j = i \<and> frames_of i (as_sent t) = frames_of i (as_sent a) @ [message_json (error_frame i e)]"
  using error_effect(5) [OF assms] by (cases "j = i") (auto simp: frames_of_marshal)

lemma map_of_delete_key: "map_of (delete_key j ms) i = (if i = j then None else map_of ms i)"
  by (induction ms) (auto simp: delete_key_def)

text \<open>A step in which nothing happens for a request but that the session may be closed.\<close>

definition idle_step :: "js_string \<Rightarrow> agent_session \<Rightarrow> agent_session \<Rightarrow> bool" where
  "idle_step i a t \<longleftrightarrow>
     as_received t = as_received a \<and> frames_of i (as_sent t) = frames_of i (as_sent a) \<and>
     events_of i (as_trace t) = events_of i (as_trace a) \<and> jobs_of i (as_workers t) = jobs_of i (as_workers a) \<and>
     (map_of (as_requests t) i = map_of (as_requests a) i \<or> map_of (as_requests t) i = None)"

lemma idle_error: "sendErrorForID se j e a = Some t \<Longrightarrow> j \<noteq> i \<Longrightarrow> idle_step i a t"
  using error_effect [of se j e a t] frames_of_error [of se j e a t i] by (auto simp: idle_step_def)

lemma idle_trans: "idle_step i a b \<Longrightarrow> idle_step i b t \<Longrightarrow> idle_step i a t"
  by (auto simp: idle_step_def)

lemma release_effect: "release_slots k a = Some t \<Longrightarrow> \<exists>s g. t = a\<lparr>as_slots := s, as_global := g\<rparr>"
  by (auto simp: release_slots_def split: option.splits)

lemma idle_removeAndError:
  assumes "removeAndError se j e a = Some t" "j \<noteq> i"
  shows "idle_step i a t"
proof -
  obtain b where b: "sendErrorForID se j e b = Some t"
    "b = a \<or> release_slots 1 (a\<lparr>as_requests := delete_key j (as_requests a)\<rparr>) = Some b"
    using assms(1) by (auto simp: removeAndError_def split: option.splits if_splits)
  from b(2) have "b = a \<or> (\<exists>s g. b = a\<lparr>as_requests := delete_key j (as_requests a), as_slots := s, as_global := g\<rparr>)"
    using release_effect by force
  then have "idle_step i a b"
    using assms(2) by (auto simp: idle_step_def map_of_delete_key)
  then show ?thesis
    using idle_error [OF b(1) assms(2)] by (rule idle_trans)
qed

lemma idle_handle:
  assumes "session_handle se data a = Some t" "\<And>m. unmarshal data = Some m \<Longrightarrow> vm_id m \<noteq> i" "i \<noteq> []"
  shows "idle_step i a t"
proof -
  have start: "idle_step i a b" if "session_start n a = Inr b" "vm_id n \<noteq> i" for n b
    using that by (auto simp: session_start_def reserveSlotLocked_def idle_step_def map_of_obj_set split: if_splits)
  have chunk: "idle_step i a t" if "session_chunk se n a = Some t" "vm_id n \<noteq> i" for n
    using that idle_removeAndError idle_error
    by (auto simp: session_chunk_def idle_step_def map_of_obj_set split: option.splits if_splits)
  have ends: "idle_step i a t" if "session_end se n a = Some t" "vm_id n \<noteq> i" for n
  proof (cases "map_of (as_requests a) (vm_id n)")
    case None
    have "idle_step i a (a\<lparr>as_requests := delete_key (vm_id n) (as_requests a)\<rparr>)"
      using that(2) by (simp add: idle_step_def map_of_delete_key)
    then show ?thesis
      using None that idle_error by (auto simp: session_end_def Let_def intro: idle_trans)
  next
    case (Some q)
    then show ?thesis
      using that by (auto simp: session_end_def Let_def idle_step_def map_of_delete_key jobs_of_def)
  qed
  have alone: "idle_step i a (b\<lparr>as_workers := as_workers b @ [Message_Job n]\<rparr>)" if "reserveSlot a = Some b" "vm_id n \<noteq> i" for n b
    using that by (auto simp: reserveSlot_def reserveSlotLocked_def idle_step_def jobs_of_def split: if_splits)
  show ?thesis
    using assms start chunk ends alone idle_error
    by (auto simp: session_handle_def sendError_def split: option.splits if_splits sum.splits)
qed

text \<open>A frame of another request, or one that cannot be read.\<close>

lemma session_for_idle:
  assumes "session_for host port i m a" "idle_step i a t" "frames_of i [data] = []"
  shows "session_for host port i m (t\<lparr>as_received := as_received t @ [data]\<rparr>)"
  using assms(2,3) by (intro session_for_other [OF assms(1)]) (auto simp: idle_step_def frames_of_def map_filter_def)

text \<open>The frames of a body and the end of a request are never too large.\<close>

lemma request_frame_sizes:
  assumes "plain_ascii i" "length i \<le> 20000"
  shows "length b \<le> chunk_bytes \<Longrightarrow> byte_length (stringify (request_chunk i b)) \<le> visitorMaxMessageBytes"
    "byte_length (stringify (request_end i)) \<le> visitorMaxMessageBytes"
proof -
  assume "length b \<le> chunk_bytes"
  then have "(length b + 2) div 3 \<le> 8192"
    by (simp add: chunk_bytes_def)
  then have "length (base64 b) \<le> 32768"
    by (simp add: length_base64)
  then show "byte_length (stringify (request_chunk i b)) \<le> visitorMaxMessageBytes"
    using frame_text_plain [OF plain_ascii_literals(4) assms(1) plain_ascii_base64 [of b] disjI2 [OF refl]] assms(2)
    by (simp add: request_chunk_def byte_length_plain visitorMaxMessageBytes_def)
next
  show "byte_length (stringify (request_end i)) \<le> visitorMaxMessageBytes"
    using frame_text_plain [OF plain_ascii_literals(5) assms(1) plain_ascii_base64 [of "[]"] disjI1 [OF refl]] assms(2) length_base64 [of "[]"]
    by (simp add: request_end_def byte_length_plain visitorMaxMessageBytes_def)
qed

text \<open>A request that is refused: its errors are all that is sent for it.\<close>

lemma session_for_refused:
  assumes "jobs_of i (as_workers a) = []" "events_of i (as_trace a) = []" "only_errors i (frames_of i (as_sent a))"
    "sendErrorForID se j e a = Some t" "map_of (as_requests a) i = None" "e \<noteq> []" "frames_of i [data] \<noteq> []"
  shows "session_for host port i m (t\<lparr>as_received := as_received t @ [data]\<rparr>)"
proof -
  have "frames_of i (as_received t @ [data]) \<noteq> []"
    using assms(7) by (auto simp: frames_of_def map_filter_def)
  moreover have "only_errors i (frames_of i (as_sent t))"
    using frames_of_error [OF assms(4), of i] assms(3,6) by auto
  moreover have "map_of (as_requests t) i = None"
    using error_effect(4) [OF assms(4)] assms(5) by auto
  ultimately show ?thesis
    using error_effect [OF assms(4)] assms(1,2) by (simp add: session_for_def Let_def)
qed

lemma session_for_unfinished:
  assumes "session_for host port i m a" "map_of (as_requests a) i = None" "frames_of i (as_received a) \<noteq> request_frames i m"
  shows "jobs_of i (as_workers a) = []" "events_of i (as_trace a) = []" "only_errors i (frames_of i (as_sent a))"
    "frames_of i (as_received a) = [] \<longrightarrow> frames_of i (as_sent a) = []"
  using assms by (auto simp: session_for_def Let_def)

lemma own_text:
  assumes "fetch_ok m" "f \<in> set (request_frames i m)"
  shows "frames_of i [stringify f] = [f]"
  using request_frames_ok [OF assms] frames_of_snoc [of f i "[]"] by simp

lemma session_for_starts:
  assumes "session_inv a" "session_for host port i m a" "fetch_ok m" "frames_of i (as_received a) = []" "go_string i = i" "i \<noteq> []"
    "session_receives se (stringify (request_start i m)) a = Some t"
  shows "session_for host port i m t"
proof -
  let ?d = "stringify (request_start i m)"
  obtain u where u: "session_handle se ?d a = Some u" "t = u\<lparr>as_received := as_received u @ [?d]\<rparr>"
    using assms(7) by (auto simp: session_receives_def)
  have none: "map_of (as_requests a) i = None"
    using assms(2,4) by (auto simp: session_for_def Let_def split: option.splits)
  have "frames_of i (as_received a) \<noteq> request_frames i m"
    using assms(4) by (simp add: request_frames_def)
  note un = session_for_unfinished [OF assms(2) none this]
  have d: "frames_of i [?d] = [request_start i m]"
    using own_text [OF assms(3)] by (simp add: request_frames_def)
  let ?n = "empty_message\<lparr>vm_kind := js ''request_start'', vm_id := i, vm_method := go_string (vf_method m),
    vm_path := go_string (vf_path m), vm_headers := go_headers (fetch_headers m)\<rparr>"
  have n: "unmarshal ?d = Some ?n"
    using unmarshal_frames(1) [OF assms(3), of i] assms(5) by simp
  consider e j where "sendErrorForID se j e a = Some u" "e \<noteq> []" | "session_start ?n a = Inr u"
    using u(1) n
    by (auto simp: session_handle_def sendError_def session_start_def split: if_splits sum.splits option.splits)
  then show ?thesis
  proof cases
    case 1
    then show ?thesis
      unfolding u(2) using session_for_refused [OF un(1-3) 1(1) none 1(2)] d by simp
  next
    case 2
    then have "map_of (as_requests u) i = Some (received_request m [])" "as_workers u = as_workers a" "as_trace u = as_trace a"
      "as_sent u = as_sent a" "as_received u = as_received a"
      by (auto simp: session_start_def reserveSlotLocked_def received_request_def map_of_obj_set split: if_splits)
    then show ?thesis
      unfolding u(2) using un assms(4) d by (auto simp: session_for_def Let_def frames_of_def map_filter_def split: if_splits intro!: exI [of _ "[]"])
  qed
qed

lemma frames_received: "frames_of i (ts @ [d]) = frames_of i ts @ frames_of i [d]"
  by (simp add: frames_of_def map_filter_def)

lemma session_for_chunk:
  assumes "session_inv a" "session_for host port i m a" "fetch_ok m" "frames_of i (as_received a) \<noteq> []"
    "frames_of i (as_received a) \<noteq> request_frames i m" "plain_ascii i" "length i \<le> 20000"
    "request_chunk i b \<in> set (request_frames i m)" "length b \<le> chunk_bytes" "session_receives se (stringify (request_chunk i b)) a = Some t"
  shows "session_for host port i m t"
proof -
  let ?d = "stringify (request_chunk i b)"
  obtain u where u: "session_handle se ?d a = Some u" "t = u\<lparr>as_received := as_received u @ [?d]\<rparr>"
    using assms(10) by (auto simp: session_receives_def)
  have d: "frames_of i [?d] = [request_chunk i b]"
    by (rule own_text [OF assms(3,8)])
  have i: "go_string i = i" "go_string (base64 b) = base64 b"
    using assms(6) by (simp_all add: go_string_whole plain_ascii_whole plain_ascii_base64)
  have n: "session_handle se ?d a = session_chunk se (empty_message\<lparr>vm_kind := js ''request_chunk'', vm_id := i, vm_body := base64 b\<rparr>) a"
    using unmarshal_frames(2) [OF assms(3), of i b] i request_frame_sizes(1) [OF assms(6,7,9)] by (simp add: session_handle_def)
  show ?thesis
  proof (cases "map_of (as_requests a) i")
    case None
    note un = session_for_unfinished [OF assms(2) None assms(5)]
    have "sendErrorForID se i (js ''visitor request was not started'') a = Some u"
      using u(1) n None by (simp add: session_chunk_def)
    from session_for_refused [OF un(1-3) this None] show ?thesis
      unfolding u(2) using d by simp
  next
    case (Some q)
    obtain cs where cs: "frames_of i (as_received a) = request_start i m # map (request_chunk i) cs" "q = received_request m (concat cs)"
      "jobs_of i (as_workers a) = []" "events_of i (as_trace a) = []" "frames_of i (as_sent a) = []"
      using assms(2) Some by (auto simp: session_for_def Let_def)
    consider (large) e b where "sendErrorForID se i e b = Some u" "e \<noteq> []" "release_slots 1 (a\<lparr>as_requests := delete_key i (as_requests a)\<rparr>) = Some b"
      | (fits) "u = a\<lparr>as_requests := obj_set i (q\<lparr>sr_body := sr_body q @ b\<rparr>) (as_requests a)\<rparr>"
      using u(1) n Some by (auto simp: session_chunk_def removeAndError_def split: if_splits option.splits)
    then show ?thesis
    proof cases
      case (large e b)
      obtain s g where b: "b = a\<lparr>as_requests := delete_key i (as_requests a), as_slots := s, as_global := g\<rparr>"
        using release_effect [OF large(3)] by auto
      show ?thesis
        unfolding u(2) using session_for_refused [of i b, OF _ _ _ large(1) _ large(2)] b cs d by (simp add: map_of_delete_key)
    next
      case fits
      then show ?thesis
        unfolding u(2) using cs d
        by (auto simp: session_for_def Let_def map_of_obj_set frames_received received_request_def intro!: exI [of _ "cs @ [b]"])
    qed
  qed
qed

lemma request_chunk_inj: "request_chunk i b = request_chunk i c \<Longrightarrow> b = c"
proof -
  assume "request_chunk i b = request_chunk i c"
  then have "base64 b = base64 c"
    by (simp add: request_chunk_def frame_def)
  then have "fromBase64 (base64 b) = fromBase64 (base64 c)"
    by simp
  then show "b = c"
    by simp
qed

lemma session_for_end:
  assumes "session_inv a" "session_for host port i m a" "fetch_ok m" "frames_of i (as_received a) @ [request_end i] = request_frames i m"
    "plain_ascii i" "length i \<le> 20000" "session_receives se (stringify (request_end i)) a = Some t"
  shows "session_for host port i m t"
proof -
  let ?d = "stringify (request_end i)"
  obtain u where u: "session_handle se ?d a = Some u" "t = u\<lparr>as_received := as_received u @ [?d]\<rparr>"
    using assms(7) by (auto simp: session_receives_def)
  have d: "frames_of i [?d] = [request_end i]"
    using own_text [OF assms(3)] by (simp add: request_frames_def)
  have i: "go_string i = i"
    using assms(5) by (simp add: go_string_whole plain_ascii_whole)
  have n: "session_handle se ?d a = session_end se (empty_message\<lparr>vm_kind := js ''request_end'', vm_id := i\<rparr>) a"
    using unmarshal_frames(3) [OF assms(3), of i] i request_frame_sizes(2) [OF assms(5,6)] by (simp add: session_handle_def)
  show ?thesis
  proof (cases "map_of (as_requests a) i")
    case None
    have "frames_of i (as_received a) \<noteq> request_frames i m"
      unfolding assms(4) [symmetric] by simp
    note un = session_for_unfinished [OF assms(2) None this]
    have "sendErrorForID se i (js ''visitor request was not started'') (a\<lparr>as_requests := delete_key i (as_requests a)\<rparr>) = Some u"
      using u(1) n None by (simp add: session_end_def Let_def)
    from session_for_refused [OF _ _ _ this] un show ?thesis
      unfolding u(2) using d None by (simp add: map_of_delete_key)
  next
    case (Some q)
    obtain cs where cs: "frames_of i (as_received a) = request_start i m # map (request_chunk i) cs" "q = received_request m (concat cs)"
      "jobs_of i (as_workers a) = []" "events_of i (as_trace a) = []" "frames_of i (as_sent a) = []"
      using assms(2) Some by (auto simp: session_for_def Let_def)
    have "map (request_chunk i) cs = map (request_chunk i) (blocks chunk_bytes (fetch_body m))"
      using assms(4) unfolding cs(1) request_frames_def by simp
    then have "cs = blocks chunk_bytes (fetch_body m)"
      using request_chunk_inj by (metis (mono_tags, lifting) injI map_injective)
    then have q: "q = received_request m (fetch_body m)"
      using cs(2) by (simp add: chunk_bytes_def)
    have "u = a\<lparr>as_requests := delete_key i (as_requests a), as_workers := as_workers a @ [Stream_Job i q Executing]\<rparr>"
      using u(1) n Some by (simp add: session_end_def Let_def)
    then show ?thesis
      unfolding u(2) using cs d q assms(4)
      by (auto simp: session_for_def Let_def map_of_delete_key frames_received jobs_of_def)
  qed
qed

text \<open>The next frame of a request, whichever it is.\<close>

lemma session_for_receives:
  assumes "session_inv a" "session_for host port i m a" "fetch_ok m" "prefix (frames_of i (as_received a) @ [f]) (request_frames i m)"
    "plain_ascii i" "i \<noteq> []" "length i \<le> 20000" "session_receives se (stringify f) a = Some t"
  shows "session_for host port i m t"
proof -
  let ?got = "frames_of i (as_received a)"
  have f: "f \<in> set (request_frames i m)"
    using set_mono_prefix [OF assms(4)] by auto
  have whole: "?got \<noteq> request_frames i m"
    using prefix_length_le [OF assms(4)] by auto
  have later: "?got \<noteq> []" if "f \<noteq> request_start i m"
    using assms(4) that by (auto simp: request_frames_def)
  consider "f = request_start i m" | b where "f = request_chunk i b" "length b \<le> chunk_bytes" | "f = request_end i"
    using f block_length [of _ chunk_bytes "fetch_body m"] by (auto simp: request_frames_def)
  then show ?thesis
  proof cases
    case 1
    have "?got = []"
    proof (cases ?got)
      case (Cons g gs)
      then have "f \<in> set (map (request_chunk i) (blocks chunk_bytes (fetch_body m)) @ [request_end i])"
        using assms(4) set_mono_prefix by (fastforce simp: request_frames_def)
      then show ?thesis
        using 1 by (auto simp: frame_defs frame_def)
    qed simp
    then show ?thesis
      using session_for_starts [OF assms(1-3)] assms(5,6,8) 1 go_string_whole [OF plain_ascii_whole] by simp
  next
    case (2 b)
    have "f \<noteq> request_start i m"
      unfolding 2 by (simp add: frame_defs frame_def)
    then show ?thesis
      using session_for_chunk [OF assms(1-3) later whole assms(5,7)] f 2 assms(8) by simp
  next
    case 3
    then have "?got @ [request_end i] = request_frames i m"
      using request_frames_prefix [OF assms(4)] by simp
    then show ?thesis
      using session_for_end [OF assms(1-3) _ assms(5,7)] 3 assms(8) by simp
  qed
qed

subsection \<open>What the local service is asked\<close>

text \<open>There is at most one request to the local service for a fetch of the page, and it is the right one.\<close>

lemma asked_requests:
  assumes "session_for host port i m a"
  shows "filter asks_service (events_of i (as_trace a)) = [] \<or>
    (\<exists>e. ev_id e = i \<and> request_for host port m (ev_request e) \<and> filter asks_service (events_of i (as_trace a)) = [e])"
proof -
  let ?tr = "events_of i (as_trace a)" and ?sent = "frames_of i (as_sent a)"
  let ?once = "\<exists>e. ev_id e = i \<and> request_for host port m (ev_request e) \<and> filter asks_service ?tr = [e]"
  have served: ?once if "served_log host port i m ?tr ?sent bs rest tail" for bs rest tail
    using that by (fastforce simp: served_log_def)
  have "?tr = [] \<or> response_log host port i m ?tr ?sent \<or> (\<exists>ph. phase_log host port i m ?tr ?sent ph)"
    using assms by (auto simp: session_for_def Let_def split: option.splits)
  moreover have "?tr = [] \<or> ?once" if "phase_log host port i m ?tr ?sent ph" for ph
    using that served by (cases ph) auto
  moreover have "?tr = [] \<or> ?once" if "response_log host port i m ?tr ?sent"
    using that served unfolding response_log_def by fastforce
  ultimately show ?thesis
    by (metis filter.simps(1))
qed

text \<open>Which values the request to the service has for a header: all that the fetch has under names with this
  canonical form, but for the headers that concern the connection, the host, the length and the encoding.\<close>

definition passed_values :: "js_string \<Rightarrow> header_lists \<Rightarrow> js_string list" where
  "passed_values k hs =
     concat (map snd (filter (\<lambda>(n, vs). canonical_key n = k \<and>
       \<not> list_ex (lower_is n) [''connection'', ''keep-alive'', ''proxy-authenticate'', ''proxy-authorization'', ''te'', ''trailer'',
           ''transfer-encoding'', ''upgrade''] \<and>
       \<not> list_ex (equal_fold n) [''host'', ''content-length'', ''accept-encoding'']) hs))"

definition header_values :: "js_string \<Rightarrow> header_lists \<Rightarrow> js_string list" where
  "header_values k hs = (case map_of hs k of None \<Rightarrow> [] | Some vs \<Rightarrow> vs)"

lemma header_values_add:
  "header_values k (fold (header_add n) vs hs) = header_values k hs @ (if canonical_key n = k then vs else [])"
  by (induction vs arbitrary: hs) (auto simp: header_values_def header_add_def Let_def map_of_obj_set)

lemma header_values_copied: "header_values k (copyVisitorStreamHeaders hs src) = header_values k hs @ passed_values k src"
proof (induction src arbitrary: hs)
  case (Cons e src)
  obtain n vs where e: "e = (n, vs)"
    by fastforce
  let ?held = "isVisitorHopByHopHeader n \<or> equal_fold n ''host'' \<or> equal_fold n ''content-length'' \<or> equal_fold n ''accept-encoding''"
  have "passed_values k (e # src) = (if canonical_key n = k \<and> \<not> ?held then vs else []) @ passed_values k src"
    by (auto simp: passed_values_def isVisitorHopByHopHeader_def e)
  moreover have "copyVisitorStreamHeaders hs (e # src) = copyVisitorStreamHeaders (if ?held then hs else fold (header_add n) vs hs) src"
    by (simp add: copyVisitorStreamHeaders_def e)
  ultimately show ?case
    using Cons [of "if ?held then hs else fold (header_add n) vs hs"] by (simp add: header_values_add)
qed (simp add: passed_values_def copyVisitorStreamHeaders_def)

text \<open>A header without a value is no header.\<close>

lemma copied_not_empty: "[] \<notin> snd ` set hs \<Longrightarrow> [] \<notin> snd ` set (copyVisitorStreamHeaders hs src)"
proof -
  have add: "[] \<notin> snd ` set (header_add n v hs)" if "[] \<notin> snd ` set hs" for n v hs
    using that by (auto simp: header_add_def Let_def dest!: set_obj_set)
  have adds: "[] \<notin> snd ` set (fold (header_add n) vs hs)" if "[] \<notin> snd ` set hs" for n vs hs
    using that by (induction vs arbitrary: hs) (simp_all add: add)
  show "[] \<notin> snd ` set hs \<Longrightarrow> [] \<notin> snd ` set (copyVisitorStreamHeaders hs src)"
    unfolding copyVisitorStreamHeaders_def by (induction src arbitrary: hs) (auto simp: adds split: prod.splits)
qed

text \<open>Nothing is done under the empty id.\<close>

fun named_job :: "visitor_job \<Rightarrow> bool" where
  "named_job (Stream_Job i q ph) \<longleftrightarrow> i \<noteq> []"
| "named_job (Message_Job m) \<longleftrightarrow> True"

definition named :: "agent_session \<Rightarrow> bool" where
  "named a \<longleftrightarrow> [] \<notin> fst ` set (as_requests a) \<and> (\<forall>j \<in> set (as_workers a). named_job j) \<and> (\<forall>e \<in> set (as_trace a). ev_id e \<noteq> [])"

lemma named_sends:
  assumes "session_inv a" "k < length (as_workers a)" "worker_sends se k f nx (a\<lparr>as_trace := as_trace a @ evs\<rparr>) = Some t" "named a"
    "\<forall>e \<in> set evs. ev_id e \<noteq> []" "nx \<noteq> None \<Longrightarrow> job_id (as_workers a ! k) \<noteq> []"
  shows "named t"
proof -
  have "k < length (as_workers (a\<lparr>as_trace := as_trace a @ evs\<rparr>))"
    using assms(2) by simp
  with inv_trace [OF assms(1)] show ?thesis
    using assms(3)
  proof (cases rule: worker_sends_cases)
    case (goes ph)
    let ?j = "Stream_Job (job_id (as_workers a ! k)) (job_request (as_workers a ! k)) ph"
    have "named_job ?j" "set (as_workers t) \<subseteq> insert ?j (set (as_workers a))"
      using goes assms(6) set_update_subset_insert [of "as_workers a" k ?j] by simp_all
    then show ?thesis
      using goes assms(4,5) unfolding named_def by auto
  next
    case ends
    then show ?thesis
      using assms(4,5) set_remove_nth [of _ k "as_workers a"] unfolding named_def by auto
  qed
qed

lemma named_works:
  assumes "worker_step host port a t" "session_inv a" "named a"
  shows "named t"
  using assms(1)
proof cases
  case (executes k i q r se)
  have i: "i \<noteq> []"
    using executes(1,2) assms(3) nth_mem by (fastforce simp: named_def)
  obtain f evs nx where e: "execute host port i q r = (f, evs, nx)"
    using prod_cases3 by blast
  then have "\<forall>x \<in> set evs. ev_id x \<noteq> []"
    using executes(3) i by (cases rule: execute_cases) auto
  then show ?thesis
    using executes e i assms(2,3) named_sends [of a k se f nx evs t] by (simp add: execute_job_def)
next
  case (reads k i q n b se e)
  have i: "i \<noteq> []"
    using reads(1,2) assms(3) nth_mem by (fastforce simp: named_def)
  then have evs: "\<forall>x \<in> set (read_events i b e). ev_id x \<noteq> []"
    by (auto simp: read_events_def)
  show ?thesis
  proof (cases "b = []")
    case True
    have "set ((as_workers a)[k := Stream_Job i q (after_read i n e)]) \<subseteq> insert (Stream_Job i q (after_read i n e)) (set (as_workers a))"
      by (rule set_update_subset_insert)
    then show ?thesis
      using True reads assms(3) i evs by (auto simp: read_job_def streamResponseBody_def Let_def named_def)
  next
    case False
    then show ?thesis
      using reads i assms(2,3) evs named_sends [of a k se _ _ "read_events i b e" t]
      by (auto simp: read_job_def streamResponseBody_def Let_def split: if_splits)
  qed
next
  case (finishes k i q m se)
  then show ?thesis
    using assms(2,3) named_sends [of a k se m None "[]" t] by (simp add: finish_job_def)
next
  case (answers k m r se body)
  have "\<forall>x \<in> set (message_events host port m r). ev_id x \<noteq> []"
    by (cases r) (auto simp: message_events_def split: sum.splits)
  then show ?thesis
    using answers assms(2,3) named_sends [of a k se _ None "message_events host port m r" t] by (simp add: message_job_def)
next
  case closes
  then show ?thesis
    using close_effect [OF closes] assms(3) by (auto simp: named_def)
next
  case (others n)
  then show ?thesis
    using assms(3) by (simp add: named_def)
qed

lemma named_error: "sendErrorForID se j e a = Some t \<Longrightarrow> named a \<Longrightarrow> named t"
  using error_effect [of se j e a t] by (auto simp: named_def)

lemma named_fewer: "named a \<Longrightarrow> named (a\<lparr>as_requests := delete_key j (as_requests a)\<rparr>)"
  by (auto simp: named_def)

lemma named_release: "release_slots k a = Some t \<Longrightarrow> named a \<Longrightarrow> named t"
  by (auto dest!: release_effect simp: named_def)

lemma named_removeAndError:
  assumes "removeAndError se j e a = Some t" "named a"
  shows "named t"
proof -
  obtain b where b: "sendErrorForID se j e b = Some t"
    "b = a \<or> release_slots 1 (a\<lparr>as_requests := delete_key j (as_requests a)\<rparr>) = Some b"
    using assms(1) by (auto simp: removeAndError_def split: option.splits if_splits)
  from b(2) have "named b"
    using named_release named_fewer [OF assms(2), of j] assms(2) by auto
  then show ?thesis
    by (rule named_error [OF b(1)])
qed

lemma named_receives:
  assumes "session_receives se d a = Some t" "named a"
  shows "named t"
proof -
  obtain u where u: "session_handle se d a = Some u" "t = u\<lparr>as_received := as_received u @ [d]\<rparr>"
    using assms(1) by (auto simp: session_receives_def)
  have start: "named b" if "session_start n a = Inr b" for n b
  proof -
    have "vm_id n \<noteq> []"
      "b = a\<lparr>as_slots := as_slots a + 1, as_global := as_global a + 1, as_requests := obj_set (vm_id n)
         \<lparr>sr_method = vm_method n, sr_path = vm_path n, sr_headers = vm_headers n, sr_body = []\<rparr> (as_requests a)\<rparr>"
      using that by (auto simp: session_start_def reserveSlotLocked_def split: if_splits)
    then show ?thesis
      using assms(2) by (simp add: named_def keys_obj_set)
  qed
  have chunk: "named u" if "session_chunk se n a = Some u" for n
  proof -
    have "named (a\<lparr>as_requests := obj_set (vm_id n) q (as_requests a)\<rparr>)" if "map_of (as_requests a) (vm_id n) = Some q'" for q q'
      using assms(2) map_of_SomeD [OF that] by (force simp: named_def keys_obj_set)
    then show ?thesis
      using that named_error [OF _ assms(2)] named_removeAndError [OF _ assms(2)]
      by (auto simp: session_chunk_def split: option.splits if_splits)
  qed
  have ends: "named u" if "session_end se n a = Some u" for n
  proof (cases "map_of (as_requests a) (vm_id n)")
    case None
    then show ?thesis
      using that named_error named_fewer [OF assms(2)] by (auto simp: session_end_def Let_def)
  next
    case (Some q)
    have "vm_id n \<noteq> []"
      using map_of_SomeD [OF Some] assms(2) by (force simp: named_def)
    then show ?thesis
      using Some that named_fewer [OF assms(2), of "vm_id n"] by (auto simp: session_end_def Let_def named_def)
  qed
  have alone: "named (b\<lparr>as_workers := as_workers b @ [Message_Job n]\<rparr>)" if "reserveSlot a = Some b" for n b
    using that assms(2) by (auto simp: reserveSlot_def reserveSlotLocked_def named_def split: if_splits)
  have "named u"
    using u(1) start chunk ends alone named_error [OF _ assms(2)]
    by (auto simp: session_handle_def sendError_def split: option.splits if_splits sum.splits)
  then show ?thesis
    using u(2) by (simp add: named_def)
qed

subsection \<open>The workers come to rest\<close>

text \<open>A turn of a worker that gets on: a read gives bytes or ends the body.\<close>

inductive worker_turn :: "js_string \<Rightarrow> int \<Rightarrow> agent_session \<Rightarrow> agent_session \<Rightarrow> bool" for host port where
  executes: "session_inv a \<Longrightarrow> k < length (as_workers a) \<Longrightarrow> as_workers a ! k = Stream_Job i q Executing \<Longrightarrow> outcome_ok r \<Longrightarrow>
    execute_job host port se k r a = Some t \<Longrightarrow> worker_turn host port a t"
| reads: "session_inv a \<Longrightarrow> k < length (as_workers a) \<Longrightarrow> as_workers a ! k = Stream_Job i q (Reading n) \<Longrightarrow>
    length b \<le> visitorStreamChunkBytes \<Longrightarrow> b \<noteq> [] \<or> e \<noteq> Read_More \<Longrightarrow> read_job se k n b e a = Some t \<Longrightarrow> worker_turn host port a t"
| finishes: "session_inv a \<Longrightarrow> k < length (as_workers a) \<Longrightarrow> as_workers a ! k = Stream_Job i q (Finishing m) \<Longrightarrow>
    finish_job se k m a = Some t \<Longrightarrow> worker_turn host port a t"
| answers: "session_inv a \<Longrightarrow> k < length (as_workers a) \<Longrightarrow> as_workers a ! k = Message_Job m \<Longrightarrow> outcome_ok r \<Longrightarrow>
    message_job host port se k m r body a = Some t \<Longrightarrow> worker_turn host port a t"

fun job_load :: "visitor_job \<Rightarrow> nat" where
  "job_load (Stream_Job i q Executing) = visitorMaxResponseBytes + 3"
| "job_load (Stream_Job i q (Reading n)) = visitorMaxResponseBytes - n + 2"
| "job_load (Stream_Job i q (Finishing m)) = 1"
| "job_load (Message_Job m) = 1"

definition worker_load :: "agent_session \<Rightarrow> nat" where
  "worker_load a = (if session_inv a then \<Sum>j \<leftarrow> as_workers a. job_load j else 0)"

lemma job_load_pos: "0 < job_load j"
  by (cases j rule: job_load.cases) auto

lemma turn_works: "worker_turn host port a t \<Longrightarrow> worker_step host port a t \<and> session_inv a"
  by (induction rule: worker_turn.induct) (auto intro: worker_step.intros)

lemma load_update:
  assumes "k < length ws"
  shows "(\<Sum>x \<leftarrow> ws[k := j]. job_load x) + job_load (ws ! k) = (\<Sum>x \<leftarrow> ws. job_load x) + job_load j"
    "(\<Sum>x \<leftarrow> remove_nth k ws. job_load x) + job_load (ws ! k) = (\<Sum>x \<leftarrow> ws. job_load x)"
proof -
  have "(\<Sum>x \<leftarrow> ws. job_load x) = (\<Sum>x \<leftarrow> take k ws. job_load x) + (job_load (ws ! k) + (\<Sum>x \<leftarrow> drop (Suc k) ws. job_load x))"
    by (subst (1) id_take_nth_drop [OF assms]) simp
  then show "(\<Sum>x \<leftarrow> ws[k := j]. job_load x) + job_load (ws ! k) = (\<Sum>x \<leftarrow> ws. job_load x) + job_load j"
    "(\<Sum>x \<leftarrow> remove_nth k ws. job_load x) + job_load (ws ! k) = (\<Sum>x \<leftarrow> ws. job_load x)"
    using assms by (simp_all add: upd_conv_take_nth_drop remove_nth_def)
qed

text \<open>A worker that sends a frame is done, or it is in a phase with less to do.\<close>

lemma sends_less:
  assumes "session_inv a" "k < length (as_workers a)" "worker_sends se k f nx (a\<lparr>as_trace := tr\<rparr>) = Some t"
    "\<And>ph i q. nx = Some ph \<Longrightarrow> job_load (Stream_Job i q ph) < job_load (as_workers a ! k)"
  shows "(\<Sum>x \<leftarrow> as_workers t. job_load x) < (\<Sum>x \<leftarrow> as_workers a. job_load x)"
proof -
  have "k < length (as_workers (a\<lparr>as_trace := tr\<rparr>))"
    using assms(2) by simp
  with inv_trace [OF assms(1)] show ?thesis
    using assms(3)
  proof (cases rule: worker_sends_cases)
    case (goes ph)
    let ?j = "Stream_Job (job_id (as_workers a ! k)) (job_request (as_workers a ! k)) ph"
    have "job_load ?j < job_load (as_workers a ! k)"
      using assms(4) goes(1) by blast
    then show ?thesis
      using goes(4) load_update(1) [OF assms(2), of ?j] by simp
  next
    case ends
    then show ?thesis
      using load_update(2) [OF assms(2)] job_load_pos [of "as_workers a ! k"] by simp
  qed
qed

lemma turn_less:
  assumes "worker_turn host port a t"
  shows "worker_load t < worker_load a"
proof -
  have inv: "session_inv a" "session_inv t"
    using turn_works [OF assms] inv_worker_step by blast+
  have "(\<Sum>x \<leftarrow> as_workers t. job_load x) < (\<Sum>x \<leftarrow> as_workers a. job_load x)"
    using assms
  proof cases
    case (executes k i q r se)
    obtain f evs nx where e: "execute host port i q r = (f, evs, nx)"
      using prod_cases3 by blast
    then have "nx = None \<or> nx = Some (Reading 0)"
      using executes(4) by (cases rule: execute_cases) auto
    moreover have "worker_sends se k f nx (a\<lparr>as_trace := as_trace a @ evs\<rparr>) = Some t"
      using executes(3,5) e by (simp add: execute_job_def)
    ultimately show ?thesis
      by (intro sends_less [OF inv(1) executes(2)]) (auto simp: executes(3))
  next
    case (reads k i q n b e se)
    have "job_ok (Stream_Job i q (Reading n))"
      using inv(1) reads(2,3) nth_mem by (force simp: session_inv_def)
    then have after: "job_load (Stream_Job i' q' (after_read i (n + length b) e)) < job_load (as_workers a ! k)"
      if "n + length b \<le> visitorMaxResponseBytes" for i' q'
      using reads(3,5) that by (cases e; cases b) (auto simp: after_read_def)
    show ?thesis
    proof (cases "b = []")
      case True
      then have "as_workers t = (as_workers a)[k := Stream_Job i q (after_read i n e)]" "n \<le> visitorMaxResponseBytes"
        using reads(3,6) \<open>job_ok _\<close> by (auto simp: read_job_def streamResponseBody_def Let_def)
      then show ?thesis
        using load_update(1) [OF reads(2), of "Stream_Job i q (after_read i n e)"] after [of i q] True by simp
    next
      case False
      obtain f nx where s: "streamResponseBody i n b e = (Some f, nx)"
        "nx = None \<or> nx = Some (after_read i (n + length b) e) \<and> n + length b \<le> visitorMaxResponseBytes"
        using False by (cases "n + length b > visitorMaxResponseBytes") (simp_all add: streamResponseBody_def)
      then have "worker_sends se k f nx (a\<lparr>as_trace := as_trace a @ read_events i b e\<rparr>) = Some t"
        using reads(3,6) by (simp add: read_job_def)
      then show ?thesis
        by (rule sends_less [OF inv(1) reads(2)]) (use s(2) after in auto)
    qed
  next
    case (finishes k i q m se)
    then show ?thesis
      using sends_less [OF inv(1) finishes(2), of se m None "as_trace a" t] by (simp add: finish_job_def)
  next
    case (answers k m r se body)
    then show ?thesis
      using sends_less [OF inv(1) answers(2), of se _ None _ t] by (simp add: message_job_def)
  qed
  then show ?thesis
    using inv by (simp add: worker_load_def)
qed

text \<open>As long as there is a worker it has a turn, on a channel that is free for instance.\<close>

lemma turn_some:
  assumes "0 < worker_load a"
  shows "\<exists>t. worker_turn host port a t"
proof -
  have inv: "session_inv a" and ws: "0 < length (as_workers a)"
    using assms by (auto simp: worker_load_def split: if_splits)
  have some: "\<exists>t. x = Some t" if "settled free_channel x" for x
    using that by (cases x) (auto simp: free_channel_def)
  show ?thesis
  proof (cases "as_workers a ! 0" rule: job_load.cases)
    case (1 i q)
    then show ?thesis
      using some [OF execute_job_settled [OF inv ws 1], of host port "Do_Failed []"]
        worker_turn.executes [OF inv ws 1, of "Do_Failed []" host port free_channel] by (auto simp: outcome_ok_def)
  next
    case (2 i q n)
    then show ?thesis
      using some [OF read_job_settled [OF inv ws 2]] worker_turn.reads [OF inv ws 2, of "[]" Read_EOF] by force
  next
    case (3 i q m)
    then show ?thesis
      using some [OF message_job_settled(2) [OF inv ws]] worker_turn.finishes [OF inv ws 3] by blast
  next
    case (4 m)
    then show ?thesis
      using some [OF message_job_settled(1) [OF inv ws], of host port m "Do_Failed []" "Inr []"]
        worker_turn.answers [OF inv ws 4, of "Do_Failed []" host port free_channel "Inr []"] by (auto simp: outcome_ok_def)
  qed
qed

definition workers_done :: "agent_session \<Rightarrow> bool" where
  "workers_done a \<longleftrightarrow> as_workers a = [] \<and> as_slots a = length (as_requests a)"

lemma no_load:
  assumes "session_inv a" "worker_load a = 0"
  shows "workers_done a"
proof -
  have "as_workers a = []"
  proof (cases "as_workers a")
    case (Cons j js)
    then show ?thesis
      using assms job_load_pos [of j] by (simp add: worker_load_def)
  qed simp
  then show ?thesis
    using assms(1) by (simp add: workers_done_def session_inv_def)
qed

interpretation agent_workers: settling "worker_turn host port" worker_load "session_reachable host port" workers_done for host port
proof unfold_locales
  show "session_reachable host port t" if "session_reachable host port s" "worker_turn host port s t" for s t
    using that turn_works session_step.works session_reachable.step by blast
  show "workers_done s" if "session_reachable host port s" "worker_load s = 0" for s
    using that inv_session_reachable no_load by blast
qed (auto intro: turn_less turn_some)

text \<open>C7. The workers of a session come to an end by themselves: whatever the local
  service and the channel do (reads that give no bytes and no end do not count), no more turns are possible than there are bytes left to send, and a few more for each
  worker; and from every state the turns lead to one without workers, in which only the requests whose frames
  are still coming in hold a slot.\<close>

theorem agent_workers_come_to_rest:
  assumes "session_reachable host port a"
  shows "(\<forall>n t. (worker_turn host port ^^ n) a t \<longrightarrow> n \<le> (\<Sum>j \<leftarrow> as_workers a. job_load j)) \<and>
    (\<exists>t. (worker_turn host port)\<^sup>*\<^sup>* a t \<and> as_workers t = [] \<and> as_slots t = length (as_requests t))"
proof
  have "worker_load a = (\<Sum>j \<leftarrow> as_workers a. job_load j)"
    using inv_session_reachable [OF assms] by (simp add: worker_load_def)
  then show "\<forall>n t. (worker_turn host port ^^ n) a t \<longrightarrow> n \<le> (\<Sum>j \<leftarrow> as_workers a. job_load j)"
    using agent_workers.chain_bounded [of _ host port a] by fastforce
  show "\<exists>t. (worker_turn host port)\<^sup>*\<^sup>* a t \<and> as_workers t = [] \<and> as_slots t = length (as_requests t)"
    using agent_workers.settles [OF assms] by (auto simp: workers_done_def)
qed

theorem agent_workers_come_to_rest_witness:
  "as_workers demo_executing \<noteq> [] \<and> (\<exists>t. (worker_turn (js ''localhost'') 80)\<^sup>*\<^sup>* demo_executing t \<and> as_workers t = [])"
proof -
  have "as_workers demo_executing \<noteq> []"
    by (simp add: demo_session)
  then show ?thesis
    using agent_workers_come_to_rest [OF demo_executing_reachable] by blast
qed

end
