(* ===== verification/Visitor_Tunnel.thy ===== *)
theory Visitor_Tunnel
  imports Visitor Visitor_Exchange
begin

text \<open>
  The visitor's tunnel as a whole: the page, the data channel, and the session of the agent with its requests to the
  local service. The channel is ordered and reliable in both directions: the agent handles the texts that the page
  has sent one after the other, and the page those of the agent. In between, either side may do anything that
  it does on its own, and either may fall silent for good: a connection that breaks is one whose texts are no
  longer taken.
\<close>

subsection \<open>The machine\<close>

record tunnel_state =
  tn_page :: visitor_page
  tn_agent :: agent_session
  tn_read :: nat

inductive tunnel_step :: "js_string \<Rightarrow> int \<Rightarrow> tunnel_state \<Rightarrow> tunnel_state \<Rightarrow> bool" for host port where
  page: "broker_step (tn_page s) p \<Longrightarrow> tunnel_step host port s (s\<lparr>tn_page := p\<rparr>)"
| up: "length (as_received (tn_agent s)) < length (vp_sent (tn_page s)) \<Longrightarrow>
    session_receives se (vp_sent (tn_page s) ! length (as_received (tn_agent s))) (tn_agent s) = Some a \<Longrightarrow>
    tunnel_step host port s (s\<lparr>tn_agent := a\<rparr>)"
| work: "worker_step host port (tn_agent s) a \<Longrightarrow> tunnel_step host port s (s\<lparr>tn_agent := a\<rparr>)"
| down: "tn_read s < length (as_sent (tn_agent s)) \<Longrightarrow> vp_channel (tn_page s) \<noteq> None \<Longrightarrow>
    tunnel_step host port s
      (s\<lparr>tn_page := handleFrame (as_sent (tn_agent s) ! tn_read s) (tn_page s), tn_read := Suc (tn_read s)\<rparr>)"

inductive tunnel_reachable :: "js_string \<Rightarrow> int \<Rightarrow> tunnel_state \<Rightarrow> bool" for host port where
  initial: "others \<le> visitorMaxTotalStreams \<Longrightarrow>
    tunnel_reachable host port \<lparr>tn_page = visitor_initial, tn_agent = newVisitorDataSession others, tn_read = 0\<rparr>"
| step: "tunnel_reachable host port s \<Longrightarrow> tunnel_step host port s t \<Longrightarrow> tunnel_reachable host port t"

subsection \<open>What the page sends\<close>

definition page_text :: "visitor_page \<Rightarrow> js_string \<Rightarrow> bool" where
  "page_text s d \<longleftrightarrow> (\<exists>i p m f. (i, p, m) \<in> set (vp_accepted s) \<and> f \<in> set (request_frames i m) \<and> d = stringify f)"

definition texts_inv :: "visitor_page \<Rightarrow> bool" where
  "texts_inv s \<longleftrightarrow> (\<forall>d \<in> set (vp_sent s). page_text s d)"

lemma page_text_mono: "page_text s d \<Longrightarrow> set (vp_accepted s) \<subseteq> set (vp_accepted t) \<Longrightarrow> page_text t d"
  unfolding page_text_def by blast

text \<open>A step of the page adds at most one text to what it has sent, and a fetch to those it has accepted.\<close>

lemma forwardFetch_effect:
  "vp_sent (forwardFetch m port s) = vp_sent s" "set (vp_accepted s) \<subseteq> set (vp_accepted (forwardFetch m port s))"
  "set (vp_accepted (forwardFetch m port s)) \<subseteq> insert (nat_text (Suc (vp_sequence s)), port, m) (set (vp_accepted s))"
  "vp_sequence s \<le> vp_sequence (forwardFetch m port s)"
  by (auto simp: forwardFetch_def Let_def request_frames_def)

lemma task_failed_effect [simp]:
  "vp_sent (task_failed e s) = vp_sent s" "vp_accepted (task_failed e s) = vp_accepted s" "vp_sequence (task_failed e s) = vp_sequence s"
  by (simp_all add: task_failed_def split: list.splits)

lemma task_sent_effect:
  assumes "visitor_inv s"
  shows "vp_accepted (task_sent s) = vp_accepted s" "vp_sequence (task_sent s) = vp_sequence s" "vp_posted (task_sent s) = vp_posted s"
    "vp_pending (task_sent s) = vp_pending s"
    "vp_sent (task_sent s) = vp_sent s \<or> (\<exists>d. page_text s d \<and> vp_sent (task_sent s) = vp_sent s @ [d])"
proof -
  show "vp_accepted (task_sent s) = vp_accepted s" "vp_sequence (task_sent s) = vp_sequence s" "vp_posted (task_sent s) = vp_posted s"
    "vp_pending (task_sent s) = vp_pending s"
    by (simp_all add: task_sent_def split: list.splits)
  show "vp_sent (task_sent s) = vp_sent s \<or> (\<exists>d. page_text s d \<and> vp_sent (task_sent s) = vp_sent s @ [d])"
  proof (cases "vp_queue s")
    case (Cons j js)
    then obtain m where m: "(sj_id j, sj_port j, m) \<in> set (vp_accepted s)"
      "frames_of (sj_id j) (vp_sent s) @ sj_frame j # sj_rest j = request_frames (sj_id j) m"
      using assms queue_job [of s j] by (auto simp: visitor_inv_def)
    have "sj_frame j \<in> set (request_frames (sj_id j) m)"
      unfolding m(2) [symmetric] by simp
    then have "page_text s (stringify (sj_frame j))"
      using m(1) unfolding page_text_def by blast
    then show ?thesis
      using Cons by (auto simp: task_sent_def)
  qed (simp add: task_sent_def)
qed

lemma channel_effect [simp]:
  "vp_sent (channel_open u s) = vp_sent s" "vp_sent (channel_closed s) = vp_sent s" "vp_sent (channel_error s) = vp_sent s"
  "vp_accepted (channel_open u s) = vp_accepted s" "vp_accepted (channel_closed s) = vp_accepted s" "vp_accepted (channel_error s) = vp_accepted s"
  "vp_sequence (channel_open u s) = vp_sequence s" "vp_sequence (channel_closed s) = vp_sequence s" "vp_sequence (channel_error s) = vp_sequence s"
  by (simp_all add: channel_defs setStatus_def)

lemma broker_step_effect:
  assumes "broker_step s t" "visitor_inv s"
  shows "set (vp_accepted s) \<subseteq> set (vp_accepted t)"
    "vp_sent t = vp_sent s \<or> (\<exists>d. page_text s d \<and> vp_sent t = vp_sent s @ [d])"
  using assms(1) forwardFetch_effect task_sent_effect [OF assms(2)]
  by (induction rule: broker_step.induct; auto simp: start_task_def waitSendCapacity_def split: option.splits)+

lemma texts_broker_step: "broker_step s t \<Longrightarrow> visitor_inv s \<Longrightarrow> texts_inv s \<Longrightarrow> texts_inv t"
  using broker_step_effect [of s t] page_text_mono [of s _ t] unfolding texts_inv_def by auto

lemma handleFrame_effect [simp]:
  "vp_sent (handleFrame d s) = vp_sent s" "vp_accepted (handleFrame d s) = vp_accepted s" "vp_sequence (handleFrame d s) = vp_sequence s"
  by (cases rule: handleFrame_cases [of d s]; simp)+

lemma texts_handleFrame: "texts_inv s \<Longrightarrow> texts_inv (handleFrame d s)"
  by (simp add: texts_inv_def page_text_def)

subsection \<open>What the page posts\<close>

text \<open>On its own the page posts nothing but errors to the port of a request it has accepted, and then it no longer
  holds the request.\<close>

definition adds_errors :: "js_string \<Rightarrow> nat \<Rightarrow> visitor_page \<Rightarrow> visitor_page \<Rightarrow> bool" where
  "adds_errors i p s t \<longleftrightarrow>
     (\<exists>es. [] \<notin> set es \<and> port_log p t = port_log p s @ map (response_error i) es \<and>
        ((i, p) \<in> set (vp_pending t) \<longrightarrow> es = [] \<and> (i, p) \<in> set (vp_pending s)))"

lemma adds_none: "port_log p t = port_log p s \<Longrightarrow> ((i, p) \<in> set (vp_pending t) \<longrightarrow> (i, p) \<in> set (vp_pending s)) \<Longrightarrow> adds_errors i p s t"
  unfolding adds_errors_def by (intro exI [of _ "[]"]) simp

lemma adds_failPending:
  assumes "fetches_inv s" "(i, p, m) \<in> set (vp_accepted s)" "e \<noteq> []" "vp_posted t = vp_posted (failPending e s)" "vp_pending t = []"
  shows "adds_errors i p s t"
proof -
  let ?es = "map (\<lambda>x. e) (filter (\<lambda>(j, q). q = p) (vp_pending s))"
  have own: "j = i" if "(j, p) \<in> set (vp_pending s)" for j
    using pending_accepted [OF assms(1) that] port_unique [OF assms(1,2)] by blast
  have "map snd (filter (\<lambda>x. fst x = p) (map (\<lambda>(i, port). (port, response_error i e)) ps)) =
      map (response_error i) (map (\<lambda>x. e) (filter (\<lambda>(j, q). q = p) ps))" if "set ps \<subseteq> set (vp_pending s)" for ps
    using that by (induction ps) (auto dest: own)
  from this [of "vp_pending s"] have "port_log p t = port_log p s @ map (response_error i) ?es"
    by (simp add: port_log_def assms(4) failPending_eq)
  then show ?thesis
    unfolding adds_errors_def using assms(3,5) by (intro exI [of _ ?es]) auto
qed

lemma adds_task_failed:
  assumes "visitor_inv s" "(i, p, m) \<in> set (vp_accepted s)"
  shows "adds_errors i p s (task_failed e s)"
proof (cases "vp_queue s")
  case Nil
  then show ?thesis
    by (intro adds_none) (simp_all add: task_failed_def)
next
  case (Cons j jobs)
  have f: "fetches_inv s" and q: "queue_inv s"
    using assms(1) by (simp_all add: visitor_inv_def)
  obtain n where n: "(sj_id j, sj_port j, n) \<in> set (vp_accepted s)"
    using queue_job [OF q, of j] Cons by auto
  have t: "port_log p (task_failed e s) = port_log p s @ (if sj_port j = p then [response_error (sj_id j) (error_text e)] else [])"
    "vp_pending (task_failed e s) = delete_key (sj_id j) (vp_pending s)"
    by (auto simp: task_failed_def Cons port_log_def)
  show ?thesis
  proof (cases "sj_port j = p")
    case True
    then have "sj_id j = i"
      using port_unique [OF f n] assms(2) by auto
    then show ?thesis
      unfolding adds_errors_def using t True by (intro exI [of _ "[error_text e]"]) (auto simp: error_text_def)
  next
    case False
    then show ?thesis
      using t by (intro adds_none) auto
  qed
qed

lemma adds_forwardFetch:
  assumes "fetches_inv s" "(i, p, m) \<in> set (vp_accepted s)" "fresh_port port s"
  shows "adds_errors i p s (forwardFetch n port s)"
proof -
  have "port \<noteq> p"
    using assms(2,3) by (force simp: fresh_port_def)
  then have "port_log p (forwardFetch n port s) = port_log p s"
    by (auto simp: forwardFetch_def Let_def request_frames_def port_log_def)
  moreover have "(i, p) \<in> set (vp_pending (forwardFetch n port s)) \<Longrightarrow> (i, p) \<in> set (vp_pending s)"
    using \<open>port \<noteq> p\<close> by (auto simp: forwardFetch_def Let_def request_frames_def split: if_splits)
  ultimately show ?thesis
    by (intro adds_none) auto
qed

lemma broker_step_adds:
  assumes "broker_step s t" "visitor_inv s" "(i, p, m) \<in> set (vp_accepted s)"
  shows "adds_errors i p s t"
  using assms(1)
proof cases
  case closed
  then show ?thesis
    using assms(2,3) by (intro adds_failPending [where e = "js ''P2P connection closed''"])
      (auto simp: visitor_inv_def channel_closed_def setStatus_def failPending_eq)
next
  case failed
  then show ?thesis
    using assms(2,3) by (intro adds_failPending [where e = "js ''P2P data channel error''"])
      (auto simp: visitor_inv_def channel_error_def setStatus_def failPending_eq)
next
  case (fetch n port)
  then show ?thesis
    using assms(2,3) adds_forwardFetch by (auto simp: visitor_inv_def)
next
  case (start now)
  have "adds_errors i p s (s\<lparr>vp_running := x\<rparr>)" for x
    by (rule adds_none) (simp_all add: port_log_def)
  then show ?thesis
    using start assms(2,3) adds_task_failed by (auto simp: start_task_def)
next
  case (turn deadline now buffered thrown)
  have "adds_errors i p s (task_sent s)"
    using task_sent_effect(3,4) [OF assms(2)] by (intro adds_none) (auto simp: port_log_def)
  moreover have "adds_errors i p s s"
    by (rule adds_none) simp_all
  ultimately show ?thesis
    using turn assms(2,3) adds_task_failed by (auto simp: waitSendCapacity_def split: option.splits)
qed (intro adds_none, simp_all add: port_log_def channel_open_def setStatus_def)+

text \<open>A fetch that has just been accepted is held, and nothing was posted to its port.\<close>

lemma broker_step_new:
  assumes "broker_step s t" "visitor_inv s" "(i, p, m) \<in> set (vp_accepted t)" "(i, p, m) \<notin> set (vp_accepted s)"
  shows "port_log p t = []" "(i, p) \<in> set (vp_pending t)" "i \<notin> fst ` set (vp_accepted s)" "vp_sent t = vp_sent s" "fetch_ok m"
proof -
  obtain n port where n: "t = forwardFetch n port s" "fetch_ok n" "fresh_port port s"
    using assms(1,3,4) task_sent_effect(1) [OF assms(2)]
    by (cases rule: broker_step.cases) (auto simp: start_task_def waitSendCapacity_def setStatus_def split: option.splits if_splits)
  then have "(i, p, m) = (nat_text (Suc (vp_sequence s)), port, n)"
    using assms(3,4) forwardFetch_effect(3) [of n port s] by blast
  then have t: "t = forwardFetch m port s" "fetch_ok m" "fresh_port port s" "i = nat_text (Suc (vp_sequence s))" "p = port"
    using n by auto
  have "port_log p s = []"
    using t(3,5) by (auto simp: fresh_port_def port_log_def filter_empty_conv image_iff)
  then show "port_log p t = []" "(i, p) \<in> set (vp_pending t)"
    using assms(3,4) unfolding t(1) by (auto simp: forwardFetch_def Let_def request_frames_def port_log_def split: if_splits)
  show "i \<notin> fst ` set (vp_accepted s)"
    using fresh_id [of s] assms(2) t(4) by (simp add: visitor_inv_def)
  show "vp_sent t = vp_sent s" "fetch_ok m"
    using t forwardFetch_effect(1) by auto
qed

subsection \<open>Ids\<close>

lemma accepted_id:
  assumes "fetches_inv s" "(i, p, m) \<in> set (vp_accepted s)"
  obtains n where "n \<le> vp_sequence s" "i = nat_text n" "plain_ascii i" "i \<noteq> []"
proof -
  have "fst ` set (vp_accepted s) = nat_text ` {1..<Suc (vp_sequence s)}"
    using arg_cong [of _ _ set, OF conjunct1 [OF assms(1) [unfolded fetches_inv_def]]] by (simp only: set_map set_upt)
  moreover have "i \<in> fst ` set (vp_accepted s)"
    using assms(2) by force
  ultimately obtain n where n: "n \<le> vp_sequence s" "i = nat_text n"
    by (auto simp: less_Suc_eq_le)
  have "plain_ascii [c]" if "is_digit c" for c
    using that by (auto simp: plain_ascii_def is_digit_def html_unit_def word_le_nat_alt word_less_nat_alt)
  then have "plain_ascii i"
    using nat_text_digits [of _ n] n(2) unfolding plain_ascii_def by fastforce
  then show thesis
    using that n by simp
qed

subsection \<open>What the agent adds\<close>

lemma frames_of_append: "frames_of i (xs @ ys) = frames_of i xs @ frames_of i ys"
  by (simp add: frames_of_def map_filter_def)

lemma prefix_frames_of: "prefix xs ys \<Longrightarrow> prefix (frames_of i xs) (frames_of i ys)"
  by (auto simp: prefix_def frames_of_append)

lemma worker_step_grows:
  assumes "worker_step host port a t" "session_inv a"
  shows "prefix (as_sent a) (as_sent t)" "as_received t = as_received a"
proof -
  have sends: "prefix (as_sent a) (as_sent t) \<and> as_received t = as_received a"
    if "k < length (as_workers a)" "worker_sends se k f nx (a\<lparr>as_trace := tr\<rparr>) = Some t" for se k f nx tr
  proof -
    have "k < length (as_workers (a\<lparr>as_trace := tr\<rparr>))"
      using that by simp
    with inv_trace [OF assms(2)] show ?thesis
      using that(2) by (cases rule: worker_sends_cases) auto
  qed
  have "prefix (as_sent a) (as_sent t) \<and> as_received t = as_received a"
    using assms(1)
  proof cases
    case (executes k i q r se)
    obtain f evs nx where "execute host port i q r = (f, evs, nx)"
      using prod_cases3 by blast
    then show ?thesis
      using executes sends by (simp add: execute_job_def)
  next
    case (reads k i q n b se e)
    then show ?thesis
      using sends by (auto simp: read_job_def Let_def streamResponseBody_def split: if_splits)
  next
    case (finishes k i q m se)
    then show ?thesis
      using sends [of k se m None "as_trace a"] by (simp add: finish_job_def)
  next
    case (answers k m r se body)
    then show ?thesis
      using sends by (simp add: message_job_def)
  next
    case closes
    then show ?thesis
      using close_effect by force
  qed simp
  then show "prefix (as_sent a) (as_sent t)" "as_received t = as_received a"
    by auto
qed

lemma error_grows: "sendErrorForID se j e a = Some t \<Longrightarrow> prefix (as_sent a) (as_sent t) \<and> as_received t = as_received a"
  using error_effect [of se j e a t] by auto

lemma remove_grows:
  assumes "removeAndError se j e a = Some t"
  shows "prefix (as_sent a) (as_sent t) \<and> as_received t = as_received a"
proof -
  obtain b where b: "sendErrorForID se j e b = Some t"
    "b = a \<or> release_slots 1 (a\<lparr>as_requests := delete_key j (as_requests a)\<rparr>) = Some b"
    using assms by (auto simp: removeAndError_def split: option.splits if_splits)
  then have "as_sent b = as_sent a \<and> as_received b = as_received a"
    using release_effect by force
  then show ?thesis
    using error_grows [OF b(1)] by simp
qed

lemma receives_grows:
  assumes "session_receives se d a = Some t"
  shows "prefix (as_sent a) (as_sent t)" "as_received t = as_received a @ [d]"
proof -
  obtain u where u: "session_handle se d a = Some u" "t = u\<lparr>as_received := as_received u @ [d]\<rparr>"
    using assms by (auto simp: session_receives_def)
  have "prefix (as_sent a) (as_sent u) \<and> as_received u = as_received a"
    using u(1) error_grows remove_grows
    by (auto simp: session_handle_def sendError_def session_start_def session_chunk_def session_end_def Let_def reserveSlot_def reserveSlotLocked_def
        split: option.splits if_splits sum.splits) (fastforce+)?
  then show "prefix (as_sent a) (as_sent t)" "as_received t = as_received a @ [d]"
    using u(2) by auto
qed

subsection \<open>Invariant\<close>

text \<open>What was posted to the port of a request came from the agent, in its order, but for errors of the page at the
  end; as long as the page holds the request it is all that has come from the agent.\<close>

definition port_from :: "js_string \<Rightarrow> nat \<Rightarrow> tunnel_state \<Rightarrow> bool" where
  "port_from i p s \<longleftrightarrow>
     (\<exists>fs es. port_log p (tn_page s) = fs @ map (response_error i) es \<and> [] \<notin> set es \<and>
        prefix fs (frames_of i (as_sent (tn_agent s))) \<and>
        ((i, p) \<in> set (vp_pending (tn_page s)) \<longrightarrow> es = [] \<and> fs = frames_of i (take (tn_read s) (as_sent (tn_agent s)))))"

definition fetches_for :: "js_string \<Rightarrow> int \<Rightarrow> tunnel_state \<Rightarrow> bool" where
  "fetches_for host port s \<longleftrightarrow>
     (\<forall>i p m. (i, p, m) \<in> set (vp_accepted (tn_page s)) \<longrightarrow>
        port_from i p s \<and> (length i \<le> 20000 \<longrightarrow> session_for host port i m (tn_agent s))) \<and>
     (\<forall>i m. i \<notin> fst ` set (vp_accepted (tn_page s)) \<longrightarrow> i \<noteq> [] \<longrightarrow> session_for host port i m (tn_agent s))"

definition tunnel_inv :: "js_string \<Rightarrow> int \<Rightarrow> tunnel_state \<Rightarrow> bool" where
  "tunnel_inv host port s \<longleftrightarrow>
     visitor_inv (tn_page s) \<and> texts_inv (tn_page s) \<and> session_inv (tn_agent s) \<and> tn_read s \<le> length (as_sent (tn_agent s)) \<and>
     prefix (as_received (tn_agent s)) (vp_sent (tn_page s)) \<and> named (tn_agent s) \<and> fetches_for host port s"

lemma tunnel_initial: "others \<le> visitorMaxTotalStreams \<Longrightarrow> tunnel_inv host port \<lparr>tn_page = visitor_initial, tn_agent = newVisitorDataSession others, tn_read = 0\<rparr>"
  using inv_visitor_initial
  by (simp add: tunnel_inv_def fetches_for_def session_for_def session_inv_def newVisitorDataSession_def texts_inv_def named_def)
    (simp add: visitor_initial_def jobs_of_def events_of_def)

lemma port_from_page:
  assumes "port_from i p s" "adds_errors i p (tn_page s) q"
  shows "port_from i p (s\<lparr>tn_page := q\<rparr>)"
proof -
  obtain fs es where l: "port_log p (tn_page s) = fs @ map (response_error i) es" "[] \<notin> set es" "prefix fs (frames_of i (as_sent (tn_agent s)))"
    "(i, p) \<in> set (vp_pending (tn_page s)) \<longrightarrow> es = [] \<and> fs = frames_of i (take (tn_read s) (as_sent (tn_agent s)))"
    using assms(1) by (auto simp: port_from_def)
  obtain es' where m: "[] \<notin> set es'" "port_log p q = port_log p (tn_page s) @ map (response_error i) es'"
    "(i, p) \<in> set (vp_pending q) \<longrightarrow> es' = [] \<and> (i, p) \<in> set (vp_pending (tn_page s))"
    using assms(2) by (auto simp: adds_errors_def)
  show ?thesis
    unfolding port_from_def using l m by (intro exI [of _ fs] exI [of _ "es @ es'"]) auto
qed

lemma port_from_agent:
  assumes "port_from i p s" "prefix (as_sent (tn_agent s)) (as_sent a)" "tn_read s \<le> length (as_sent (tn_agent s))"
  shows "port_from i p (s\<lparr>tn_agent := a\<rparr>)"
proof -
  have "take (tn_read s) (as_sent a) = take (tn_read s) (as_sent (tn_agent s))"
    using assms(2,3) by (auto simp: prefix_def)
  then show ?thesis
    using assms(1) prefix_frames_of [OF assms(2), of i] unfolding port_from_def by (auto intro: prefix_order.trans)
qed

lemma tunnel_page:
  assumes "tunnel_inv host port s" "broker_step (tn_page s) q"
  shows "tunnel_inv host port (s\<lparr>tn_page := q\<rparr>)"
proof -
  have inv: "visitor_inv (tn_page s)" "texts_inv (tn_page s)" "fetches_for host port s"
    using assms(1) by (simp_all add: tunnel_inv_def)
  note eff = broker_step_effect [OF assms(2) inv(1)]
  have "port_from i p (s\<lparr>tn_page := q\<rparr>) \<and> (length i \<le> 20000 \<longrightarrow> session_for host port i m (tn_agent s))"
    if a: "(i, p, m) \<in> set (vp_accepted q)" for i p m
  proof (cases "(i, p, m) \<in> set (vp_accepted (tn_page s))")
    case True
    then show ?thesis
      using inv(3) port_from_page broker_step_adds [OF assms(2) inv(1) True] unfolding fetches_for_def by blast
  next
    case False
    note new = broker_step_new [OF assms(2) inv(1) a False]
    have "fetches_inv q"
      using inv_broker_step [OF assms(2) inv(1)] by (simp add: visitor_inv_def)
    then have "i \<noteq> []"
      by (rule accepted_id [OF _ a])
    then have sf: "session_for host port i m (tn_agent s)"
      using inv(3) new(3) unfolding fetches_for_def by blast
    have "frames_of i (vp_sent (tn_page s)) = []"
      by (rule fresh_unsent [OF inv(1) new(3)])
    then have "frames_of i (as_received (tn_agent s)) = []"
      using assms(1) prefix_frames_of [of "as_received (tn_agent s)" "vp_sent (tn_page s)" i] by (simp add: tunnel_inv_def)
    then have "frames_of i (as_sent (tn_agent s)) = []"
      using sf by (auto simp: session_for_def Let_def request_frames_def split: option.splits)
    then have "frames_of i (take (tn_read s) (as_sent (tn_agent s))) = []"
      using prefix_frames_of [OF take_is_prefix, of i "tn_read s" "as_sent (tn_agent s)"] by simp
    then show ?thesis
      using new(1) sf unfolding port_from_def by simp
  qed
  moreover have "session_for host port i m (tn_agent s)" if "i \<notin> fst ` set (vp_accepted q)" "i \<noteq> []" for i m
    using inv(3) eff(1) that unfolding fetches_for_def by blast
  ultimately have "fetches_for host port (s\<lparr>tn_page := q\<rparr>)"
    unfolding fetches_for_def by simp
  moreover have "prefix (vp_sent (tn_page s)) (vp_sent q)"
    using eff(2) by auto
  ultimately show ?thesis
    using assms(1) inv_broker_step [OF assms(2) inv(1)] texts_broker_step [OF assms(2) inv(1,2)]
    by (auto simp: tunnel_inv_def intro: prefix_order.trans)
qed

text \<open>The id under which the agent has a text of the page.\<close>

lemma page_text_id:
  assumes "fetches_inv s" "(j, q, n) \<in> set (vp_accepted s)" "f \<in> set (request_frames j n)" "unmarshal (stringify f) = Some x"
  shows "vm_id x = j"
proof -
  have ok: "fetch_ok n"
    using accepted_inv [OF assms(1,2)] by simp
  have "go_string j = j"
    by (rule accepted_id [OF assms(1,2)]) (simp add: go_string_whole plain_ascii_whole)
  then show ?thesis
    using assms(3,4) unmarshal_frames [OF ok] by (auto simp: request_frames_def)
qed

lemma tunnel_up:
  assumes "tunnel_inv host port s" "length (as_received (tn_agent s)) < length (vp_sent (tn_page s))"
    "session_receives se (vp_sent (tn_page s) ! length (as_received (tn_agent s))) (tn_agent s) = Some a"
  shows "tunnel_inv host port (s\<lparr>tn_agent := a\<rparr>)"
proof -
  let ?n = "length (as_received (tn_agent s))"
  let ?d = "vp_sent (tn_page s) ! ?n"
  have inv: "visitor_inv (tn_page s)" "texts_inv (tn_page s)" "session_inv (tn_agent s)" "fetches_for host port s"
    "prefix (as_received (tn_agent s)) (vp_sent (tn_page s))" and f: "fetches_inv (tn_page s)"
    using assms(1) by (simp_all add: tunnel_inv_def visitor_inv_def)
  note grows = receives_grows [OF assms(3)]
  have got: "as_received (tn_agent s) @ [?d] = take (Suc ?n) (vp_sent (tn_page s))"
    using inv(5) assms(2) by (auto simp: prefix_def take_Suc_conv_app_nth)
  obtain j q n g where d: "(j, q, n) \<in> set (vp_accepted (tn_page s))" "g \<in> set (request_frames j n)" "?d = stringify g"
    using inv(2) nth_mem [OF assms(2)] unfolding texts_inv_def page_text_def by blast
  have ok: "json_ok g" "for_id j g" "fetch_ok n"
    using accepted_inv [OF f d(1)] request_frames_ok [OF _ d(2)] by auto
  have other: "session_for host port i m a" if "session_for host port i m (tn_agent s)" "j \<noteq> i" "i \<noteq> []" for i m
  proof -
    obtain u where u: "session_handle se ?d (tn_agent s) = Some u" "a = u\<lparr>as_received := as_received u @ [?d]\<rparr>"
      using assms(3) by (auto simp: session_receives_def)
    have "idle_step i (tn_agent s) u"
      using idle_handle [OF u(1) _ that(3)] page_text_id [OF f d(1,2)] that(2) d(3) by metis
    moreover have "frames_of i [?d] = []"
      using frames_of_snoc [OF ok(1), of i "[]"] ok(2) that(2) by (simp add: d(3) for_id_def)
    ultimately show ?thesis
      unfolding u(2) by (rule session_for_idle [OF that(1)])
  qed
  have own: "session_for host port j n a" if "length j \<le> 20000"
  proof -
    have "session_for host port j n (tn_agent s)"
      using inv(4) d(1) that unfolding fetches_for_def by blast
    moreover have "prefix (frames_of j (as_received (tn_agent s)) @ [g]) (request_frames j n)"
    proof -
      have "frames_of j (as_received (tn_agent s)) @ [g] = frames_of j (take (Suc ?n) (vp_sent (tn_page s)))"
        unfolding got [symmetric] using frames_of_snoc [OF ok(1)] ok(2) d(3) by simp
      moreover have "prefix (frames_of j (vp_sent (tn_page s))) (request_frames j n)"
        using inv(1) d(1) by (auto simp: visitor_inv_def queue_inv_def)
      ultimately show ?thesis
        using prefix_frames_of [OF take_is_prefix, of j "Suc ?n" "vp_sent (tn_page s)"] by (metis prefix_order.trans)
    qed
    moreover have "plain_ascii j" "j \<noteq> []"
      by (rule accepted_id [OF f d(1)]; simp)+
    ultimately show ?thesis
      using session_for_receives [OF inv(3)] ok(3) that assms(3) d(3) by metis
  qed
  have "port_from i p (s\<lparr>tn_agent := a\<rparr>) \<and> (length i \<le> 20000 \<longrightarrow> session_for host port i m a)"
    if i: "(i, p, m) \<in> set (vp_accepted (tn_page s))" for i p m
  proof -
    have "port_from i p (s\<lparr>tn_agent := a\<rparr>)"
      using inv(4) i port_from_agent [OF _ grows(1)] assms(1) unfolding fetches_for_def tunnel_inv_def by blast
    moreover have "session_for host port i m a" if l: "length i \<le> 20000"
    proof (cases "i = j")
      case True
      then show ?thesis
        using own l accepted_unique [OF f i] d(1) by blast
    next
      case False
      have "i \<noteq> []"
        by (rule accepted_id [OF f i])
      then show ?thesis
        using other False inv(4) i l unfolding fetches_for_def by blast
    qed
    ultimately show ?thesis
      by blast
  qed
  moreover have "session_for host port i m a" if "i \<notin> fst ` set (vp_accepted (tn_page s))" "i \<noteq> []" for i m
  proof -
    have "j \<noteq> i"
      using d(1) that(1) by force
    then show ?thesis
      using other inv(4) that unfolding fetches_for_def by blast
  qed
  ultimately have "fetches_for host port (s\<lparr>tn_agent := a\<rparr>)"
    unfolding fetches_for_def by simp
  moreover have "prefix (as_received a) (vp_sent (tn_page s))"
    unfolding grows(2) got by (rule take_is_prefix)
  moreover have "length (as_sent (tn_agent s)) \<le> length (as_sent a)"
    by (rule prefix_length_le [OF grows(1)])
  ultimately show ?thesis
    using assms(1) inv_session_receives [OF assms(3) inv(3)] named_receives [OF assms(3)] by (simp add: tunnel_inv_def)
qed

lemma tunnel_work:
  assumes "tunnel_inv host port s" "worker_step host port (tn_agent s) a"
  shows "tunnel_inv host port (s\<lparr>tn_agent := a\<rparr>)"
proof -
  have inv: "session_inv (tn_agent s)" "fetches_for host port s" "tn_read s \<le> length (as_sent (tn_agent s))"
    using assms(1) by (simp_all add: tunnel_inv_def)
  note grows = worker_step_grows [OF assms(2) inv(1)]
  have "fetches_for host port (s\<lparr>tn_agent := a\<rparr>)"
    using inv(2) port_from_agent [OF _ grows(1) inv(3)] session_for_works [OF assms(2) inv(1)]
    unfolding fetches_for_def by simp
  moreover have "length (as_sent (tn_agent s)) \<le> length (as_sent a)"
    by (rule prefix_length_le [OF grows(1)])
  ultimately show ?thesis
    using assms(1) inv_worker_step [OF assms(2) inv(1)] named_works [OF assms(2) inv(1)] grows(2) by (simp add: tunnel_inv_def)
qed

lemma tunnel_down:
  assumes "tunnel_inv host port s" "tn_read s < length (as_sent (tn_agent s))"
  shows "tunnel_inv host port (s\<lparr>tn_page := handleFrame (as_sent (tn_agent s) ! tn_read s) (tn_page s), tn_read := Suc (tn_read s)\<rparr>)"
    (is "tunnel_inv host port ?t")
proof -
  let ?d = "as_sent (tn_agent s) ! tn_read s" and ?n = "tn_read s" and ?sent = "as_sent (tn_agent s)"
  have inv: "visitor_inv (tn_page s)" "texts_inv (tn_page s)" "fetches_for host port s" and f: "fetches_inv (tn_page s)"
    using assms(1) by (simp_all add: tunnel_inv_def visitor_inv_def)
  have more: "frames_of i (take (Suc ?n) ?sent) = frames_of i (take ?n ?sent) @ frames_of i [?d]" for i
    using assms(2) by (simp add: take_Suc_conv_app_nth frames_of_append)
  have "port_from i p ?t" if a: "(i, p, m) \<in> set (vp_accepted (tn_page s))" for i p m
  proof -
    obtain fs es where l: "port_log p (tn_page s) = fs @ map (response_error i) es" "[] \<notin> set es" "prefix fs (frames_of i ?sent)"
      "(i, p) \<in> set (vp_pending (tn_page s)) \<longrightarrow> es = [] \<and> fs = frames_of i (take ?n ?sent)"
      using inv(3) a unfolding fetches_for_def port_from_def by blast
    show ?thesis
    proof (cases "(i, p) \<in> set (vp_pending (tn_page s))")
      case False
      have "port_log p (handleFrame ?d (tn_page s)) = port_log p (tn_page s)"
        using fold_handleFrame_ended [OF inv(1) a False, of "[?d]"] by simp
      moreover have "(i, p) \<notin> set (vp_pending (handleFrame ?d (tn_page s)))"
        using False by (cases rule: handleFrame_cases [of ?d "tn_page s"]) auto
      ultimately show ?thesis
        unfolding port_from_def using l by (intro exI [of _ fs] exI [of _ es]) simp
    next
      case True
      have "port_log p (handleFrame ?d (tn_page s)) = frames_of i (take ?n ?sent) @ upto_end (frames_of i [?d])"
        using fold_handleFrame [OF inv(1) True, of "[?d]"] l True by simp
      moreover have "upto_end (frames_of i [?d]) = frames_of i [?d]"
        by (auto simp: frames_of_Cons split: option.splits)
      ultimately have "port_log p (handleFrame ?d (tn_page s)) = frames_of i (take (Suc ?n) ?sent)"
        by (simp add: more)
      then show ?thesis
        unfolding port_from_def using prefix_frames_of [OF take_is_prefix, of i "Suc ?n" ?sent]
        by (intro exI [of _ "frames_of i (take (Suc ?n) ?sent)"] exI [of _ "[]"]) simp
    qed
  qed
  then have "fetches_for host port ?t"
    using inv(3) unfolding fetches_for_def by simp
  then show ?thesis
    using assms inv_handleFrame [OF inv(1)] texts_handleFrame [OF inv(2)] by (simp add: tunnel_inv_def)
qed

lemma tunnel_reachable_inv: "tunnel_reachable host port s \<Longrightarrow> tunnel_inv host port s"
proof (induction rule: tunnel_reachable.induct)
  case (step s t)
  from step.hyps(2) show ?case
    by cases (use step.IH tunnel_page tunnel_up tunnel_work tunnel_down in auto)
qed (rule tunnel_initial)

subsection \<open>Responses\<close>

text \<open>A stream ends well only by an end without an error.\<close>

lemma closed_by_end:
  assumes "rs_stream (responseStream shell ms) = Stream_Closed"
  shows "Response_End [] \<in> set ms"
proof (rule ccontr)
  assume n: "Response_End [] \<notin> set ms"
  have keeps: "rs_stream (on_message shell x r) \<noteq> Stream_Closed" if "x \<noteq> Response_End []" "rs_stream r \<noteq> Stream_Closed" for x r
    using that
    by (auto simp: on_message_def on_start_def on_chunk_def on_end_def settle_start_def Let_def split: worker_message.splits option.splits)
  have "rs_stream (fold (on_message shell) ms stream_initial) \<noteq> Stream_Closed"
    by (rule fold_invariant [where Q = "\<lambda>x. x \<noteq> Response_End []"]) (use n keeps in \<open>auto simp: stream_initial_def\<close>)
  then show False
    using assms by (simp add: responseStream_def)
qed

lemma read_response_error: "read_message (response_error i e) = Response_End e"
  by (simp add: read_message_def response_error_def) (simp add: text_field_def field_def frame_def)

text \<open>Only the end of a whole response is one.\<close>

lemma end_of_response:
  assumes "session_for host port i m a" "v \<in> set (frames_of i (as_sent a))" "read_message v = Response_End []"
  obtains q st hs bs where "request_for host port m q" "length (concat bs) \<le> visitorMaxResponseBytes" "v = message_json (end_frame i)"
    "events_of i (as_trace a) = Served i q st hs # map (Body_Read i) bs @ [Body_Ended i]" "frames_of i (as_sent a) = response_frames i st hs bs"
proof -
  let ?tr = "events_of i (as_trace a)" and ?sent = "frames_of i (as_sent a)"
  have no_errors: "\<not> only_errors i ?sent"
  proof
    assume "only_errors i ?sent"
    then obtain e where "e \<noteq> []" "v = message_json (error_frame i e)"
      using assms(2) by (auto simp: only_errors_def) (metis)
    then show False
      using assms(3) by (simp add: read_frames)
  qed
  have open_log: False if "served_log host port i m ?tr ?sent bs rest tail" "\<forall>f \<in> set tail. read_message (message_json f) \<noteq> Response_End []" for bs rest tail
    using that assms(2,3) by (auto simp: served_log_def read_frames)
  have "\<not> phase_log host port i m ?tr ?sent ph" for ph
    using open_log [of _ _ "[]"] assms(2) by (cases ph) auto
  then have "response_log host port i m ?tr ?sent"
    using assms(1,2) no_errors by (auto simp: session_for_def Let_def split: option.splits)
  then obtain bs rest tail where s: "served_log host port i m ?tr ?sent bs rest tail"
    "tail = [] \<or> (\<exists>e. e \<noteq> [] \<and> tail = [error_frame i e]) \<or> tail = [end_frame i] \<and> rest = [Body_Ended i]"
    using no_errors unfolding response_log_def by blast
  have "tail = [end_frame i]" "rest = [Body_Ended i]"
    using s(2) open_log [OF s(1)] by (auto simp: read_frames)
  then obtain q st hs where "request_for host port m q" "length (concat bs) \<le> visitorMaxResponseBytes" "?tr = Served i q st hs # map (Body_Read i) bs @ [Body_Ended i]"
    "?sent = response_frames i st hs bs"
    using s(1) by (auto simp: served_log_def response_frames_def)
  moreover from this(4) have "v = message_json (end_frame i)"
    using assms(2,3) by (auto simp: response_frames_def read_frames)
  ultimately show thesis
    using that by blast
qed

lemma prefix_to_last: "prefix xs (ys @ [y]) \<Longrightarrow> y \<in> set xs \<Longrightarrow> y \<notin> set ys \<Longrightarrow> xs = ys @ [y]"
  by (auto simp: prefix_snoc dest: set_mono_prefix)

lemma response_is_the_services:
  assumes "tunnel_inv host port s" "(i, p, m) \<in> set (vp_accepted (tn_page s))" "length i \<le> 20000"
    "r = responseStream shell (map read_message (port_log p (tn_page s)))" "rs_stream r = Stream_Closed"
  obtains q st hs bs where "request_for host port m q"
    "events_of i (as_trace (tn_agent s)) = Served i q st hs # map (Body_Read i) bs @ [Body_Ended i]"
    "rs_answer r = Some (respond (Some (of_nat st)) (passed_headers hs))"
    "concat (rs_enqueued r) = (if isRewriteable (Some (passed_headers hs)) then rewriteBody shell (concat bs) (passed_headers hs) else concat bs)"
proof -
  have port: "port_from i p s" and sf: "session_for host port i m (tn_agent s)"
    using assms(1-3) unfolding tunnel_inv_def fetches_for_def by blast+
  obtain fs es where l: "port_log p (tn_page s) = fs @ map (response_error i) es" "[] \<notin> set es" "prefix fs (frames_of i (as_sent (tn_agent s)))"
    using port unfolding port_from_def by blast
  have "Response_End [] \<in> set (map read_message (port_log p (tn_page s)))"
    using closed_by_end assms(4,5) by blast
  then obtain v where v: "v \<in> set fs" "read_message v = Response_End []"
    using l(1,2) by (auto simp: read_response_error)
  have vs: "v \<in> set (frames_of i (as_sent (tn_agent s)))"
    using v(1) set_mono_prefix [OF l(3)] by blast
  obtain q st hs bs where e: "request_for host port m q" "length (concat bs) \<le> visitorMaxResponseBytes" "v = message_json (end_frame i)"
    "events_of i (as_trace (tn_agent s)) = Served i q st hs # map (Body_Read i) bs @ [Body_Ended i]"
    "frames_of i (as_sent (tn_agent s)) = response_frames i st hs bs"
    by (rule end_of_response [OF sf vs v(2)])
  have "v \<notin> set (map message_json (start_frame i st hs # map (chunk_frame i) bs))"
    using v(2) by (auto simp: read_frames)
  then have fs: "fs = response_frames i st hs bs"
    using prefix_to_last [of fs "map message_json (start_frame i st hs # map (chunk_frame i) bs)" v] l(3) v(1) e(3,5)
    by (simp add: response_frames_def)
  have "read_message v \<in> set (map read_message (response_frames i st hs bs))"
    using v(1) unfolding fs set_map by (rule imageI)
  then have "Response_End [] \<in> set (map read_message (response_frames i st hs bs))"
    unfolding v(2) .
  from response_end_settles_the_request [OF this, of shell "map (read_message \<circ> response_error i) es"]
  have "responseStream shell (map read_message (response_frames i st hs bs) @ map (read_message \<circ> response_error i) es) =
      responseStream shell (map read_message (response_frames i st hs bs))"
    unfolding Let_def by blast
  then have r: "r = responseStream shell (map read_message (response_frames i st hs bs))"
    using assms(4) unfolding l(1) fs by simp
  show thesis
    using that [OF e(1,4)] responseStream_frames [OF _ r] e(2) by (simp add: visitorMaxResponseBytes_def maxProxyResponseBytes_def)
qed

lemma length_nat_text: "0 < k \<Longrightarrow> n < 10 ^ k \<Longrightarrow> length (nat_text n) \<le> k"
proof (induction k arbitrary: n)
  case (Suc k)
  show ?case
  proof (cases "n < 10")
    case False
    then have "n div 10 < 10 ^ k" "0 < k"
      using Suc(3) by (auto simp: less_mult_imp_div_less mult.commute) (cases k; simp)
    then show ?thesis
      using Suc(1) False by (subst nat_text.simps) simp
  qed (subst nat_text.simps, simp)
qed simp

lemma accepted_id_short:
  assumes "fetches_inv s" "(i, p, m) \<in> set (vp_accepted s)" "vp_sequence s < 2 ^ 53"
  shows "length i \<le> 20000"
proof (rule accepted_id [OF assms(1,2)])
  fix n
  assume "n \<le> vp_sequence s" "i = nat_text n"
  moreover have "(2::nat) ^ 53 < 10 ^ 16"
    by simp
  ultimately show ?thesis
    using length_nat_text [of 16 n] assms(3) by simp
qed

subsection \<open>Properties\<close>

lemma request_for_parts:
  assumes "request_for host port m q"
  shows "hr_method q = go_string (vf_method m) \<and> hr_body q = fetch_body m \<and>
    hr_target q = js ''http://'' @ joinHostPort host (int_text port) @
      (let t = go_trim (go_string (vf_path m)) in if t = [] then js ''/'' else t) \<and>
    (\<forall>k. header_values k (hr_headers q) = passed_values k (go_headers (fetch_headers m))) \<and> [] \<notin> snd ` set (hr_headers q)"
proof -
  have "hr_target q = js ''http://'' @ joinHostPort host (int_text port) @
      (let t = go_trim (go_string (vf_path m)) in if t = [] then js ''/'' else t)"
    using assms by (auto simp: request_for_def visitorTargetURL_def Let_def split: if_splits)
  moreover have "header_values k (hr_headers q) = passed_values k (go_headers (fetch_headers m))" for k
    using assms header_values_copied [of k "[]"] by (simp add: request_for_def header_values_def)
  ultimately show ?thesis
    using assms copied_not_empty [of "[]"] by (simp add: request_for_def)
qed

text \<open>C3. However the requests of a visitor interleave and whatever fails: a
  response that reaches the end of its stream in the browser is the response of the local service to that very
  request. The agent made the request with the method, the path below the scope and the body of the browser's
  request, the status and the headers are those that the service answered (but for the headers that concern the
  connection), and the body is all that the service sent until its end, or the document rewritten from it. A part of
  a response is never taken for the whole, nor one response for another.\<close>

theorem browser_gets_the_services_response:
  assumes "tunnel_reachable host port s" "proxy scopePath windows rq = Forward w m" "(i, p, m) \<in> set (vp_accepted (tn_page s))"
    and "vp_sequence (tn_page s) < 2 ^ 53" "r = responseStream shell (map read_message (port_log p (tn_page s)))" "rs_stream r = Stream_Closed"
  shows "\<exists>q st hs bs.
    events_of i (as_trace (tn_agent s)) = Served i q st hs # map (Body_Read i) bs @ [Body_Ended i] \<and>
    hr_method q = go_string (vr_method rq) \<and> hr_body q = vr_body rq \<and>
    visitorTargetURL host port (go_string (forward_path scopePath (vr_url rq))) = Inr (hr_target q) \<and>
    rs_answer r = Some (respond (Some (of_nat st)) (passed_headers hs)) \<and>
    concat (rs_enqueued r) = (if isRewriteable (Some (passed_headers hs)) then rewriteBody shell (concat bs) (passed_headers hs) else concat bs)"
proof -
  have inv: "tunnel_inv host port s" and f: "fetches_inv (tn_page s)"
    using tunnel_reachable_inv [OF assms(1)] by (simp_all add: tunnel_inv_def visitor_inv_def)
  obtain q st hs bs where q: "request_for host port m q"
    "events_of i (as_trace (tn_agent s)) = Served i q st hs # map (Body_Read i) bs @ [Body_Ended i]"
    "rs_answer r = Some (respond (Some (of_nat st)) (passed_headers hs))"
    "concat (rs_enqueued r) = (if isRewriteable (Some (passed_headers hs)) then rewriteBody shell (concat bs) (passed_headers hs) else concat bs)"
    by (rule response_is_the_services [OF inv assms(3) accepted_id_short [OF f assms(3,4)] assms(5,6)])
  then show ?thesis
    using proxy_forward [OF assms(2)] unfolding request_for_def by metis
qed

text \<open>C4. The local service is asked nothing but what a visitor's browser asked:
  every request that the agent gives to its HTTP client, answered or not, belongs to a fetch that the page has accepted. It
  goes to the address of the service with the trimmed path of the fetch (a slash if that is empty), has its method and its
  body, and every header of the fetch with all its values, save the headers that concern the connection, the host, the
  length and the encoding, and no other header. No fetch is asked twice.\<close>

theorem service_gets_the_browsers_requests:
  assumes "tunnel_reachable host port s" "vp_sequence (tn_page s) < 2 ^ 53" "e \<in> set (as_trace (tn_agent s))" "asks_service e"
  shows "\<exists>p m. (ev_id e, p, m) \<in> set (vp_accepted (tn_page s)) \<and>
    hr_method (ev_request e) = go_string (vf_method m) \<and> hr_body (ev_request e) = fetch_body m \<and>
    hr_target (ev_request e) = js ''http://'' @ joinHostPort host (int_text port) @
      (let t = go_trim (go_string (vf_path m)) in if t = [] then js ''/'' else t) \<and>
    (\<forall>k. header_values k (hr_headers (ev_request e)) = passed_values k (go_headers (fetch_headers m))) \<and>
    [] \<notin> snd ` set (hr_headers (ev_request e)) \<and>
    filter asks_service (events_of (ev_id e) (as_trace (tn_agent s))) = [e]"
proof -
  define tr where "tr = filter asks_service (events_of (ev_id e) (as_trace (tn_agent s)))"
  have inv: "fetches_for host port s" "named (tn_agent s)" and f: "fetches_inv (tn_page s)"
    using tunnel_reachable_inv [OF assms(1)] by (simp_all add: tunnel_inv_def visitor_inv_def)
  have e: "e \<in> set tr" "ev_id e \<noteq> []"
    using assms(3,4) inv(2) by (auto simp: tr_def events_of_def named_def)
  have once: "request_for host port m (ev_request e) \<and> tr = [e]" if "session_for host port (ev_id e) m (tn_agent s)" for m
    using asked_requests [OF that, folded tr_def] e(1) by auto
  show ?thesis
  proof (cases "ev_id e \<in> fst ` set (vp_accepted (tn_page s))")
    case True
    then obtain p m where a: "(ev_id e, p, m) \<in> set (vp_accepted (tn_page s))"
      by force
    then have "session_for host port (ev_id e) m (tn_agent s)"
      using inv(1) accepted_id_short [OF f a assms(2)] unfolding fetches_for_def by blast
    then show ?thesis
      using a once request_for_parts unfolding tr_def by blast
  next
    case False
    then have "session_for host port (ev_id e) m (tn_agent s)" for m
      using inv(1) e(2) unfolding fetches_for_def by blast
    then have "request_for host port (undefined\<lparr>vf_body := Some (0 # hr_body (ev_request e))\<rparr>) (ev_request e)"
      using once by blast
    then show ?thesis
      by (simp add: request_for_def fetch_body_def)
  qed
qed

subsection \<open>A run\<close>

lemma tunnel_pages:
  assumes "broker_step\<^sup>*\<^sup>* p q" "tunnel_reachable host port \<lparr>tn_page = p, tn_agent = a, tn_read = n\<rparr>"
  shows "tunnel_reachable host port \<lparr>tn_page = q, tn_agent = a, tn_read = n\<rparr>"
  using assms
proof (induction rule: rtranclp_induct)
  case (step q u)
  then show ?case
    using tunnel_reachable.step [OF step.IH tunnel_step.page] by simp
qed simp

lemma channel_handleFrame: "vp_channel (handleFrame d s) = vp_channel s"
  by (cases rule: handleFrame_cases [of d s]) (simp_all add: end_fetch_def)

lemma tunnel_downs:
  assumes "tunnel_reachable host port \<lparr>tn_page = p, tn_agent = a, tn_read = n\<rparr>" "vp_channel p \<noteq> None" "as_sent a = before @ ds" "length before = n"
  shows "tunnel_reachable host port \<lparr>tn_page = fold handleFrame ds p, tn_agent = a, tn_read = n + length ds\<rparr>"
  using assms
proof (induction ds arbitrary: p n before)
  case (Cons d ds)
  let ?s = "\<lparr>tn_page = p, tn_agent = a, tn_read = n\<rparr>"
  have "tunnel_step host port ?s (?s\<lparr>tn_page := handleFrame (as_sent (tn_agent ?s) ! tn_read ?s) (tn_page ?s), tn_read := Suc (tn_read ?s)\<rparr>)"
    by (rule tunnel_step.down) (use Cons.prems in simp_all)
  then have "tunnel_reachable host port \<lparr>tn_page = handleFrame d p, tn_agent = a, tn_read = Suc n\<rparr>"
    using tunnel_reachable.step [OF Cons.prems(1)] Cons.prems(3,4) by (simp add: nth_append)
  from Cons.IH [OF this, of "before @ [d]"] show ?case
    using Cons.prems by (simp add: channel_handleFrame)
qed simp

definition demo_http :: local_request where
  "demo_http = \<lparr>hr_method = js ''POST'', hr_target = js ''http://localhost:80/a'', hr_headers = [(js ''Accept'', [js ''*/*''])], hr_body = [1, 2, 3]\<rparr>"

definition demo_reading :: agent_session where
  "demo_reading = demo_executing\<lparr>as_trace := [Served (js ''1'') demo_http 200 []], as_sent := [marshal (start_frame (js ''1'') 200 [])],
     as_workers := [Stream_Job (js ''1'') (demo_stream\<lparr>sr_body := [1, 2, 3]\<rparr>) (Reading 0)]\<rparr>"

definition demo_read :: agent_session where
  "demo_read = demo_reading\<lparr>as_trace := as_trace demo_reading @ [Body_Read (js ''1'') [5, 6], Body_Ended (js ''1'')],
     as_sent := as_sent demo_reading @ [marshal (chunk_frame (js ''1'') [5, 6])],
     as_workers := [Stream_Job (js ''1'') (demo_stream\<lparr>sr_body := [1, 2, 3]\<rparr>) (Finishing (end_frame (js ''1'')))]\<rparr>"

definition demo_answered :: agent_session where
  "demo_answered = demo_read\<lparr>as_sent := as_sent demo_read @ [marshal (end_frame (js ''1''))], as_workers := [], as_slots := 0, as_global := 0\<rparr>"

lemma demo_target: "visitorTargetURL (js ''localhost'') 80 (js ''/a'') = Inr (js ''http://localhost:80/a'')"
  by (simp add: visitorTargetURL_def Let_def go_trim_def go_space_def js_space_def js_def request_uri_ok_def joinHostPort_def int_text_def nat_text.simps)

lemma demo_accept: "copyVisitorStreamHeaders [] [(js ''accept'', [js ''*/*''])] = [(js ''Accept'', [js ''*/*''])]"
  by (simp add: copyVisitorStreamHeaders_def isVisitorHopByHopHeader_def lower_is_def equal_fold_def header_add_def canonical_key_def Let_def
      js_def go_lower_unit_def go_fold_unit_def token_unit_def is_digit_def)

lemma demo_frame_sizes:
  "byte_length (marshal (start_frame (js ''1'') 200 [])) \<le> 61440" "byte_length (marshal (chunk_frame (js ''1'') [5, 6])) \<le> 61440"
  "byte_length (marshal (end_frame (js ''1''))) \<le> 61440"
proof -
  have one: "plain_ascii (js ''1'')"
    by (simp add: plain_ascii_def js_def html_unit_def)
  let ?t = "stringify (JObj [(js ''kind'', JStr (js ''response_start'')), (js ''id'', JStr (js ''1'')), (js ''status'', JNum 200)])"
  have t: "stringify (message_json (start_frame (js ''1'') 200 [])) = ?t"
    by (simp add: message_json_def start_frame_def empty_message_def visitorResponseHeaders_def)
  have "\<forall>c \<in> set ?t. c < 0x80 \<and> \<not> html_unit c" "length ?t \<le> 61440"
    by (simp_all add: quote_def number_text_def int_text_def)
      (simp_all add: js_def quote_unit_def is_high_def is_low_def html_unit_def nat_text.simps)
  then show "byte_length (marshal (start_frame (js ''1'') 200 [])) \<le> 61440"
    unfolding marshal_def t by (simp only: byte_length_plain)
  have "length (base64 [5, 6]) = 4"
    by (simp add: length_base64)
  moreover from this have "message_json (chunk_frame (js ''1'') [5, 6]) = frame ''response_chunk'' (js ''1'') [(js ''body'', JStr (base64 [5, 6]))]"
    "message_json (end_frame (js ''1'')) = frame ''response_end'' (js ''1'') []"
    by (auto simp: message_json_def chunk_frame_def end_frame_def empty_message_def frame_def)
  ultimately show "byte_length (marshal (chunk_frame (js ''1'') [5, 6])) \<le> 61440" "byte_length (marshal (end_frame (js ''1''))) \<le> 61440"
    using frame_text_plain [OF plain_ascii_literals(6) one plain_ascii_base64 [of "[5, 6]"] disjI2 [OF refl]]
      frame_text_plain [OF plain_ascii_literals(7) one plain_ascii_base64 [of "[5, 6]"] disjI1 [OF refl]]
    unfolding marshal_def by (simp_all add: byte_length_plain js_def)
qed

lemma demo_sends:
  assumes "byte_length (marshal f) \<le> 61440"
  shows "sendFrame free_channel f a = Some (True, a\<lparr>as_sent := as_sent a @ [marshal f]\<rparr>)"
  using assms by (simp add: sendFrame_def Let_def visitorMaxMessageBytes_def free_channel_def visitorDataChannelMaxBufferedBytes_def)

lemma demo_works:
  "execute_job (js ''localhost'') 80 free_channel 0 (Responded 200 []) demo_executing = Some demo_reading"
  "read_job free_channel 0 0 [5, 6] Read_EOF demo_reading = Some demo_read"
  "finish_job free_channel 0 (end_frame (js ''1'')) demo_read = Some demo_answered"
proof -
  show "execute_job (js ''localhost'') 80 free_channel 0 (Responded 200 []) demo_executing = Some demo_reading"
    using demo_frame_sizes(1)
    by (simp add: execute_job_def execute_def demo_session demo_target demo_accept worker_sends_def demo_sends demo_reading_def demo_http_def)
  show "read_job free_channel 0 0 [5, 6] Read_EOF demo_reading = Some demo_read"
    using demo_frame_sizes(2)
    by (simp add: read_job_def streamResponseBody_def read_events_def after_read_def visitorMaxResponseBytes_def worker_sends_def demo_sends
        demo_read_def demo_reading_def demo_session)
  show "finish_job free_channel 0 (end_frame (js ''1'')) demo_read = Some demo_answered"
    using demo_frame_sizes(3)
    by (simp add: finish_job_def worker_sends_def demo_sends worker_done_def releaseSlot_def release_slots_def receive_tokens_def remove_nth_def
        demo_answered_def demo_read_def demo_reading_def demo_session)
qed

definition demo_tunnel :: tunnel_state where
  "demo_tunnel = \<lparr>tn_page = fold handleFrame (as_sent demo_answered) demo_sent, tn_agent = demo_answered, tn_read = 3\<rparr>"

lemma nat_text_one: "nat_text 1 = js ''1''"
  by (simp add: nat_text.simps js_def)

lemma demo_texts: "vp_sent demo_sent =
    [stringify (request_start (js ''1'') demo_fetch), stringify (request_chunk (js ''1'') [1, 2, 3]), stringify (request_end (js ''1''))]"
  unfolding demo_sent_def nat_text_one [symmetric] by (simp add: demo_eval)

lemma demo_tunnel_reachable: "tunnel_reachable (js ''localhost'') 80 demo_tunnel"
proof -
  let ?r = "\<lambda>p a. tunnel_reachable (js ''localhost'') 80 \<lparr>tn_page = p, tn_agent = a, tn_read = 0\<rparr>"
  have up: "?r demo_sent b" if "?r demo_sent a" "length (as_received a) < 3" "session_receives free_channel (vp_sent demo_sent ! length (as_received a)) a = Some b" for a b
    using tunnel_reachable.step [OF that(1) tunnel_step.up] that(2,3) by (simp add: demo_texts)
  have work: "?r demo_sent b" if "?r demo_sent a" "worker_step (js ''localhost'') 80 a b" for a b
    using tunnel_reachable.step [OF that(1) tunnel_step.work] that(2) by simp
  have l: "as_received (newVisitorDataSession 0) = []" "length (as_received demo_started) = 1" "length (as_received demo_filled) = 2"
    by (simp_all add: demo_session)
  have "?r visitor_initial (newVisitorDataSession 0)"
    by (rule tunnel_reachable.initial) simp
  then have "?r demo_sent (newVisitorDataSession 0)"
    by (rule tunnel_pages [OF demo_sent_pages])
  then have "?r demo_sent demo_started"
    by (rule up) (simp_all add: l demo_texts demo_starts)
  then have "?r demo_sent demo_filled"
    by (rule up) (simp_all add: l demo_texts demo_fills)
  then have "?r demo_sent demo_executing"
    by (rule up) (simp_all add: l demo_texts demo_executes)
  then have "?r demo_sent demo_reading"
    by (rule work) (rule worker_step.executes [OF _ _ _ demo_works(1)], simp_all add: demo_session outcome_ok_def)
  then have "?r demo_sent demo_read"
    by (rule work) (rule worker_step.reads [OF _ _ _ demo_works(2)], simp_all add: demo_reading_def visitorStreamChunkBytes_def)
  then have a: "?r demo_sent demo_answered"
    by (rule work) (rule worker_step.finishes [OF _ _ demo_works(3)], simp_all add: demo_read_def)
  have "vp_channel demo_sent \<noteq> None"
    unfolding demo_sent_def by (simp add: demo_eval)
  moreover have "length (as_sent demo_answered) = 3"
    by (simp add: demo_answered_def demo_read_def demo_reading_def)
  ultimately show ?thesis
    using tunnel_downs [OF a, of "[]" "as_sent demo_answered"] by (simp add: demo_tunnel_def)
qed

theorem browser_gets_the_services_response_witness:
  "let r = responseStream (js ''/v'') (map read_message (port_log 7 (tn_page demo_tunnel))) in
   rs_stream r = Stream_Closed \<and> concat (rs_enqueued r) = [5, 6] \<and> vr_body demo_request = [1, 2, 3] \<and>
   events_of (nat_text 1) (as_trace (tn_agent demo_tunnel)) =
     [Served (nat_text 1) demo_http 200 [], Body_Read (nat_text 1) [5, 6], Body_Ended (nat_text 1)]"
proof -
  let ?fs = "start_frame (nat_text 1) 200 [] # map (chunk_frame (nat_text 1)) [[5, 6]] @ [end_frame (nat_text 1)]"
  let ?r = "responseStream (js ''/v'') (map read_message (port_log 7 (tn_page demo_tunnel)))"
  have p: "(nat_text 1, 7) \<in> set (vp_pending demo_sent)" and l: "port_log 7 demo_sent = []"
    and a: "(nat_text 1, 7, demo_fetch) \<in> set (vp_accepted demo_sent)" and n: "vp_sequence demo_sent = 1"
    unfolding demo_sent_def port_log_def by (simp_all add: demo_eval)
  have sent: "as_sent demo_answered = map marshal ?fs"
    by (simp add: demo_answered_def demo_read_def demo_reading_def nat_text_one del: One_nat_def)
  have "distinct (map fst (vm_headers f)) \<and> vm_id f = nat_text 1" if "f \<in> set ?fs" for f
    using that by (auto simp: start_frame_def visitorResponseHeaders_def)
  then have f: "frames_of (nat_text 1) (as_sent demo_answered) = response_frames (nat_text 1) 200 [] [[5, 6]]"
    unfolding response_frames_def sent
    by (simp add: frames_of_def map_filter_def comp_def marshal_parse cong: map_cong filter_cong)
  have closed: "rs_stream ?r = Stream_Closed"
    using response_delivered [OF demo_sent_reachable p l f _ refl, of "js ''/v''"] by (simp add: demo_tunnel_def)
  have "vp_accepted (fold handleFrame ds s) = vp_accepted s \<and> vp_sequence (fold handleFrame ds s) = vp_sequence s" for ds s
    by (induction ds arbitrary: s) simp_all
  then have acc: "(nat_text 1, 7, demo_fetch) \<in> set (vp_accepted (tn_page demo_tunnel))" "vp_sequence (tn_page demo_tunnel) < 2 ^ 53"
    using a n by (simp_all add: demo_tunnel_def)
  have tr: "events_of (nat_text 1) (as_trace (tn_agent demo_tunnel)) =
      [Served (nat_text 1) demo_http 200 [], Body_Read (nat_text 1) [5, 6], Body_Ended (nat_text 1)]"
    by (simp add: demo_tunnel_def demo_answered_def demo_read_def demo_reading_def events_of_def nat_text_one del: One_nat_def)
  have "concat (rs_enqueued ?r) =
      (if isRewriteable (Some (passed_headers [])) then rewriteBody (js ''/v'') (concat [[5, 6]]) (passed_headers []) else concat [[5, 6]])"
    using browser_gets_the_services_response [OF demo_tunnel_reachable demo_request_forward acc refl closed] unfolding tr by auto
  moreover have "\<not> isRewriteable (Some (passed_headers []))"
    by (simp add: isRewriteable_def passed_headers_def visitorResponseHeaders_def sorted_headers_def)
  ultimately show ?thesis
    using closed tr by (simp add: Let_def demo_request_def)
qed

theorem service_gets_the_browsers_requests_witness:
  "\<exists>p m. (js ''1'', p, m) \<in> set (vp_accepted (tn_page demo_tunnel)) \<and> fetch_body m = [1, 2, 3] \<and>
     passed_values (js ''Accept'') (go_headers (fetch_headers m)) = [js ''*/*'']"
proof -
  have "Served (js ''1'') demo_http 200 [] \<in> set (as_trace (tn_agent demo_tunnel))"
    by (simp add: demo_tunnel_def demo_answered_def demo_read_def demo_reading_def)
  moreover have "vp_sequence (fold handleFrame ds s) = vp_sequence s" for ds s
    by (induction ds arbitrary: s) simp_all
  then have "vp_sequence (tn_page demo_tunnel) < 2 ^ 53"
    unfolding demo_tunnel_def demo_sent_def by (simp add: demo_eval)
  ultimately obtain p m where m: "(js ''1'', p, m) \<in> set (vp_accepted (tn_page demo_tunnel))" "hr_body demo_http = fetch_body m"
    "\<forall>k. header_values k (hr_headers demo_http) = passed_values k (go_headers (fetch_headers m))"
    using service_gets_the_browsers_requests [OF demo_tunnel_reachable, of "Served (js ''1'') demo_http 200 []"] by auto
  moreover have "header_values (js ''Accept'') (hr_headers demo_http) = [js ''*/*'']" "hr_body demo_http = [1, 2, 3]"
    by (simp_all add: demo_http_def header_values_def)
  ultimately show ?thesis
    by metis
qed

end
