(* ===== verification/Spec2Isabelle.thy ===== *)
theory Spec2Isabelle
  imports Console Desktop_Views Visitor_Tunnel
begin

text \<open>
  Nrynet is a self-hosted network tunnel: a server, agents that expose local services
  through it, relays, a web dashboard for the operator and a desktop client for the user of
  an agent. This development models the programs that run in a browser: the dashboard
  (\<open>web/dashboard/src/\<close>), the frontend of the desktop client (\<open>desktop/frontend/src/\<close>), both in
  TypeScript, and the page with its service worker through which a visitor reaches a site behind
  a tunnel, whose JavaScript is embedded in \<open>server/visitor/page.go\<close> and \<open>worker.go\<close>. Of the
  programs in Go it models the part that page talks to, the session of the agent at the other end
  of the data channel (\<open>client/agent/visitor_stream.go\<close> and its neighbours), and joins the two.
  The server, the rest of the agent, the relay and the Go side of the desktop client are the
  answers to requests, which the theorems leave arbitrary unless a hypothesis says otherwise.

  \<^bold>\<open>How programs are modelled.\<close> A string is the list of its UTF-16 code units and text literals
  of the source are written as such lists (Chinese ones by their units). A number is an exact
  rational, an \<open>int\<close> where the source only has whole numbers; rounding of floating point is
  not modelled. An object with declared fields is a record, an optional property an \<open>option\<close>,
  a thrown value the left side of a sum. A React component is a record of its state, one
  definition per handler, and a definition of what it shows. A handler that awaits is split
  at each await: the part up to the request and the part that takes the outcome, so that the
  machines can interleave answers and user actions in every order. What is not part of the
  repository is a parameter: \<open>fetch\<close>, reading and printing of dates, the URL parser, the
  desktop service, the time.

  \<^bold>\<open>Foundations.\<close>
  \<^item> \<open>Js_Prelude\<close>: strings, numbers as text, exceptions, with the lemmas the components share.
  \<^item> \<open>Uri\<close>: \<open>encodeURIComponent\<close> and form encoding with their inverse; an encoded component has
    no delimiter and decodes to its source.
  \<^item> \<open>Json\<close>: \<open>JSON.stringify\<close> and \<open>JSON.parse\<close>; the parser has as fuel twice the length of its text
    and two, more never changes its result (\<open>parse_value_fuel\<close>), and printing then parsing gives the
    value back.
  \<^item> \<open>Bytes\<close>: byte arrays in blocks, \<open>btoa\<close> and \<open>atob\<close>; decoding undoes encoding.
  \<^item> \<open>Machines\<close>: the contracts of step relations, as locales. \<open>single_flight\<close> is a refresh that does
    not overlap itself; \<open>draining\<close> a machine whose answers come to an end, by a measure;
    \<open>settling\<close> extends it by what holds once nothing is outstanding.

  \<^bold>\<open>The dashboard.\<close>
  \<^item> \<open>Session\<close> (\<open>api/session.ts\<close>): the credential in the local storage, the migration of an
    old key, unreadable entries. The locale \<open>credential_store\<close> is its contract, an optional
    cell; the module refines it.
  \<^item> \<open>Api_Errors\<close> and \<open>Api_Client\<close> (\<open>api/client.ts\<close>): headers, requests, answers, the methods
    of \<open>api\<close>, also the log download with its own \<open>fetch\<close>, the localized error texts. What a request carries, what 401 does, what a login
    makes of later requests, that failures are reported in Chinese.
  \<^item> \<open>Async_Hook\<close> (\<open>hooks/useAsync.ts\<close>): overlapping loads; the state shown is consistent, but
    an old answer may replace a newer one.
  \<^item> \<open>Dashboard_Types\<close>, \<open>Dash_Format\<close> (\<open>types.ts\<close>, \<open>utils/\<close>, \<open>display/\<close>, \<open>components/\<close>): the
    records and the texts for sizes, durations and states.
  \<^item> \<open>Transport_Settings\<close> (\<open>settings/\<close>): endpoints, certificates, TLS and subdomains; the
    component is the step relation \<open>transport_step\<close>, with invariants over its reachable states
    and an instance of \<open>settling\<close>.
  \<^item> \<open>Dash_Pages\<close> (\<open>pages/ClientsPage.tsx\<close>, \<open>TokensPage.tsx\<close>): what pages share, with the
    locales \<open>reloading_action\<close> (a change that succeeded reads the list again once) and
    \<open>latest_only\<close> (of answers with tickets only the newest counts); the drawer of the clients
    page is an instance of the second, the changes on all pages are instances of the first.
  \<^item> \<open>Tunnels_Page\<close> (\<open>pages/TunnelsPage.tsx\<close>): the editor, the payload, the visitor link.
  \<^item> \<open>Dash_Views\<close>: the pages for logs, traffic, settings, relays and the overview. The reload after the log was
    cleared is the one of the render in which the dialog was opened, with the filters of that moment; while
    no filter changes meanwhile, the last request for entries is for the filters shown.
  \<^item> \<open>Dashboard_App\<close> (\<open>App.tsx\<close>, \<open>pages/LoginPage.tsx\<close>): the gate between login and console
    over client and session store, as the step relation \<open>app_step\<close>. Its hypothesis on the
    server, \<open>login_answer_ok\<close>, is that a successful login carries a token. The login form is
    an instance of \<open>settling\<close>; a 401 that comes late ends a session it does not belong to. The download of the
    logs is one of the calls, with its credentials and its 401.
  \<^item> \<open>Console\<close>: the shell with its pages as one step relation, \<open>console_step\<close>. The page on the
    screen, the loads it starts when it is opened and the handlers of pages that were left while
    they awaited an answer or a confirmation all send through the shell's client; the whole refines \<open>app_step\<close>.

  \<^bold>\<open>The desktop client.\<close>
  \<^item> \<open>Desktop_Base\<close> (\<open>configDraft.ts\<close>, \<open>elapsedTime.ts\<close>, \<open>format.ts\<close>, \<open>userFeedback.ts\<close> and the
    records of the bindings): pure helpers and the clock; every error text shown is Chinese.
  \<^item> \<open>Desktop_Endpoint\<close> (\<open>tunnelEndpoint.ts\<close>): the addresses of tunnels.
  \<^item> \<open>Desktop_Traffic\<close> (\<open>useTrafficHistory.ts\<close>, \<open>TrafficChart.tsx\<close>): rates and the chart as
    the commands given to the canvas.
  \<^item> \<open>Desktop_Canvas\<close> (\<open>TrafficCanvas\<close>): the component with its observer and animation frames; what
    it shows is never out of date.
  \<^item> \<open>Desktop_App\<close> (\<open>App.tsx\<close>, \<open>previewData.ts\<close>, the calls of \<open>desktopservice.ts\<close>): the shell as
    the step relation \<open>desktop_step\<close>, whose answers are \<open>desktop_answer\<close>. \<open>single_flight\<close> is
    interpreted for the snapshot and for the status, \<open>settling\<close> for the whole: an answer may lead
    to further requests, and the measure \<open>desktop_work\<close> bounds how many.
  \<^item> \<open>Desktop_Views\<close> (\<open>HomeView.tsx\<close>, \<open>TunnelDetailView.tsx\<close>, \<open>SettingsView.tsx\<close>): what is
    shown, and the choice of the view.

  \<^bold>\<open>The visitor page.\<close>
  \<^item> \<open>Visitor_Page\<close> (the script of \<open>page.go\<close>): requests of the worker become frames in one queue, frames
    of the agent go to the ports of their requests. The step relation \<open>visitor_step\<close> interleaves
    what the page does by itself (\<open>broker_step\<close>: fetches, tasks of the queue, events of the channel)
    with frames that arrive; \<open>visitor_inv\<close> is its invariant, and the queue is an instance of
    \<open>settling\<close> (\<open>send_step\<close>, \<open>send_load\<close>).
  \<^item> \<open>Visitor_Startup\<close> (\<open>connect\<close>, \<open>waitWorker\<close>): how the page gets its channel; the script only
    goes forward in the order of \<open>startup_phase\<close>, and an error of the signalling socket is lost in
    two of its three phases.
  \<^item> \<open>Visitor_Rewrite\<close> (\<open>rewriteBody\<close>, \<open>rewriteHTML\<close>, \<open>bridgeScript\<close>): the regular expressions as
    matchers, the rewriting of links, UTF-8 in and out. Nothing of a document is lost; in the document with
    its new head no link to the root (\<open>root_link\<close>, which names the attributes without the expressions of the code)
    leaves the path of the tunnel, if that path has neither \<open>=\<close> nor \<open>>\<close>; and the bytes handed on decode to the rewritten text.
  \<^item> \<open>Visitor_Worker\<close> (\<open>proxy\<close>, \<open>responseStream\<close>): what is forwarded, and the response as a machine
    over the messages of its port, with its invariant \<open>stream_inv\<close>.
  \<^item> \<open>Visitor\<close>: page and worker together. The locale \<open>port_provider\<close> is what the worker relies on, the
    page provides it; a request reaches the agent and a response the browser in the presence of
    any others, and every request is settled.

  \<^bold>\<open>The agent's end of the channel.\<close>
  \<^item> \<open>Go_Json\<close> (\<open>internal/protocol/messages.go\<close>): the message type, with reading, writing and Base64 as
    the agent uses them of Go's library. The page reads back what the agent wrote, the agent reads back
    the frames of the page, and the length of a frame in bytes is bounded by its contents.
  \<^item> \<open>Visitor_Agent\<close> (\<open>visitor_stream.go\<close>, \<open>visitor_response_stream.go\<close>, \<open>visitor_channel.go\<close>,
    \<open>visitor_http.go\<close>): a session with its requests, slots and workers, as the step relation
    \<open>session_step\<close>; a worker takes its turns in any order with messages, other workers and the end of
    the session. \<open>session_inv\<close> says that the tokens taken are those of the requests and workers, so that no
    receive from a semaphore waits for ever. A response head of more than 60 KiB is refused by the agent itself,
    and the request is left without an answer.
  \<^item> \<open>Visitor_Exchange\<close>: what a session has sent for one request is a prefix of the response that the local
    service gave, whatever else the session does (\<open>session_for\<close>, preserved by every step). The workers
    come to rest whatever the service and the channel do: an instance of \<open>settling\<close> with the measure \<open>worker_load\<close>,
    the bytes that the limits still allow and a few turns for each worker.
  \<^item> \<open>Visitor_Tunnel\<close>: page, channel and session as one machine, \<open>tunnel_step\<close>. The channel is reliable and
    ordered, as the page asks for it: the agent reads a prefix of what the page sent, the page a prefix of what the agent
    sent. What a port gets for a request is the response of the service to that request, in full when it
    ends well; and each request given to the agent's HTTP client, answered or not (the trace \<open>as_trace\<close> has both),
    is one that the worker gave to the page, with its headers, and is made once.

  This theory holds what spans the programs: dashboard and desktop client compute the same
  visitor link.

  \<^bold>\<open>Loops.\<close> The only fuel is that of the JSON parser and of \<open>decodeURIComponent\<close>; it is a multiple of
  the length of the text, which each turn shortens (lemmas show that it is enough). The scans of \<open>Visitor_Rewrite\<close>, the blocks of
  \<open>Bytes\<close> and the decoder terminate by the length of what is left. The wait for room in the
  send buffer, a loop of the source, is the step \<open>turn\<close> of \<open>broker_step\<close>, bounded by its deadline. On the side of the
  agent the same wait, \<open>waitForSendCapacity\<close>, runs over the turns it is given and has no result when they do not
  suffice; the loop over a response body is one turn of a worker per read.

  \<^bold>\<open>Not modelled.\<close> The Go programs other than the visitor session of the agent, and its signalling
  (\<open>handleVisitorWebRTC\<close>); in its messages the spelling of numbers, repeated members and bytes that are no UTF-8, and the position
  in the text of a Base64 error; the peer connection, the streams and the parser of URLs of the
  browser beyond what the sources rely on; the framework that delivers the desktop client's calls; other
  tabs that write the same local storage; the component library (validation rules of its forms, layout, styles, dialogs beyond the call
  made when one is confirmed); the bundle built from the dashboard's sources; entry points
  and build options; case mapping of letters outside ASCII other than those that map into it.
\<close>

text \<open>
  C33. Two programs compute the link of a visitor tunnel, each from what it knows: the dashboard
  from the origin it was loaded from, the desktop client from the address of the control
  server. When the dashboard is served by the control server, both give the same link.
\<close>

theorem visitor_links_agree:
  assumes "parse server = Some u" and "server \<noteq> []" and "url_scheme u = js ''ws'' \<or> url_scheme u = js ''wss''"
    and "url_port u \<noteq> default_port (url_scheme u)" and "url_host u = Some h" and "\<not> url_opaque u"
    and "toLowerCase (at_protocol t) = js ''visitor_webrtc''" and "at_visitor_token t = Some token" and "token \<noteq> []"
    and "encodeURIComponent (at_id t) = Some i" and "encodeURIComponent token = Some k"
    and "plain_segment i" and "plain_segment k"
    and "credentials_text u = []"
    and "origin = (if url_scheme u = js ''wss'' then js ''https://'' else js ''http://'') @ h @ port_text (url_port u)"
    and "tn_id d = at_id t" and "tn_visitor_token d = at_visitor_token t"
  shows "visitorURL origin d \<noteq> None \<and> visitorURL origin d = ep_copyValue (resolveTunnelEndpoint parse t public server)"
proof -
  have "visitorURL origin d = Some (origin @ js ''/visitor/'' @ i @ js ''/'' @ k)"
    using assms(8-11,16,17) by (simp add: visitorURL_def truthy_opt_def)
  moreover have "ep_copyValue (resolveTunnelEndpoint parse t public server) = Some (origin @ js ''/visitor/'' @ i @ js ''/'' @ k)"
    using visitor_endpoint_text [where parse = parse and server = server, OF assms(1-13)] assms(14,15) by simp
  ultimately show ?thesis
    by simp
qed

theorem visitor_links_agree_witness:
  "visitorURL (js ''https://server.example'' @ port_text (Some 7000))
      ((emptyTunnel [] None)\<lparr>tn_id := js ''t1'', tn_visitor_token := Some (js ''k'')\<rparr>)
     = ep_copyValue (resolveTunnelEndpoint (\<lambda>s. Some sample_url) sample_tunnel [] (js ''wss://server.example:7000''))"
proof -
  have e: "encodeURIComponent (js ''t1'') = Some (js ''t1'')" "encodeURIComponent (js ''k'') = Some (js ''k'')"
    by code_simp+
  have p: "plain_segment (js ''t1'')" "plain_segment (js ''k'')"
    by (simp_all add: plain_segment_def single_dot_def double_dot_def fold_text_def fold_unit_def js_def)
  have l: "toLowerCase (js ''visitor_webrtc'') = js ''visitor_webrtc''"
    by (simp add: toLowerCase_def toLowerCase_unit_def js_def)
  have o': "js ''https://server.example'' = js ''https://'' @ js ''server.example''"
    by (simp add: js_def)
  show ?thesis
    unfolding o'
    by (rule visitor_links_agree [THEN conjunct2, of _ _ sample_url "js ''server.example''" _ "js ''k''" "js ''t1''" "js ''k''"])
      (simp_all add: e p l sample_url_def sample_tunnel_def default_port_def credentials_text_def)
qed

end
